(* ===== verification/Prelude.thy ===== *)
theory Prelude
  imports Main
begin

text \<open>
  Shared vocabulary of the development: Go error values and results, the bounds of
  \<^verbatim>\<open>int64\<close>, decimal and hexadecimal printing, and the generic notion of a transition
  system with an invariant that the state machines of the components instantiate.
  Go strings are byte strings, so \<^typ>\<open>string\<close> (a list of 8-bit characters) models them
  byte for byte.
\<close>

named_theorems sql_defs "definitions of the SQL statements and of the transaction protocol"
named_theorems redis_defs "definitions of the Redis clients"
named_theorems http_defs "definitions of the response writer and of the handlers"

section \<open>Go errors\<close>

text \<open>
  \<open>ErrNew m\<close> is \<^verbatim>\<open>errors.New(m)\<close> (also an \<^verbatim>\<open>fmt.Errorf\<close> without a wrapped error);
  \<open>Errorf pre e post\<close> is \<^verbatim>\<open>fmt.Errorf(pre + "%w" + post, e)\<close>. Sentinel errors of the
  source have distinct messages, so equality of these values is the identity Go compares.
\<close>

datatype goerr = ErrNew string | Errorf string goerr string

fun Error :: "goerr \<Rightarrow> string" where
  "Error (ErrNew m) = m"
| "Error (Errorf pre e post) = pre @ Error e @ post"

fun errors_Is :: "goerr \<Rightarrow> goerr \<Rightarrow> bool" where
  "errors_Is (ErrNew m) t = (ErrNew m = t)"
| "errors_Is (Errorf pre e post) t = (Errorf pre e post = t \<or> errors_Is e t)"

abbreviation wrapf :: "string \<Rightarrow> goerr \<Rightarrow> goerr" where
  "wrapf msg e \<equiv> Errorf (msg @ '': '') e ''''"

type_synonym 'a result = "goerr + 'a"

lemma errors_Is_refl [simp]: "errors_Is e e"
  by (cases e) auto

lemma errors_Is_wrap [simp]: "errors_Is e t \<Longrightarrow> errors_Is (Errorf pre e post) t"
  by simp

section \<open>Machine integers\<close>

definition int64_min :: int where "int64_min = - (2 ^ 63)"
definition int64_max :: int where "int64_max = 2 ^ 63 - 1"

definition is_int64 :: "int \<Rightarrow> bool" where
  "is_int64 n \<longleftrightarrow> int64_min \<le> n \<and> n \<le> int64_max"

lemma int64_bounds: "int64_min = -9223372036854775808" "int64_max = 9223372036854775807"
  by (simp_all add: int64_min_def int64_max_def)

text \<open>Saturating conversion, as \<^verbatim>\<open>time.Time.Sub\<close> computes durations.\<close>

definition sat64 :: "int \<Rightarrow> int" where
  "sat64 n = (if n < int64_min then int64_min else if n > int64_max then int64_max else n)"

lemma sat64_id [simp]: "is_int64 n \<Longrightarrow> sat64 n = n"
  by (auto simp: sat64_def is_int64_def)

lemma is_int64_sat64 [simp]: "is_int64 (sat64 n)"
  by (auto simp: sat64_def is_int64_def int64_bounds)

lemma sat64_mono: "a \<le> b \<Longrightarrow> sat64 a \<le> sat64 b"
  by (auto simp: sat64_def int64_bounds)

lemma sat64_gt_iff: "int64_min \<le> c \<Longrightarrow> c < int64_max \<Longrightarrow> (c < sat64 n) = (c < n)"
  by (auto simp: sat64_def int64_bounds)

section \<open>Decimal and hexadecimal text\<close>

fun digit_char :: "nat \<Rightarrow> char" where
  "digit_char n = (if n < 10 then char_of (48 + n) else char_of (87 + n))"

fun string_of_nat :: "nat \<Rightarrow> string" where
  "string_of_nat n =
     (if n < 10 then [digit_char n] else string_of_nat (n div 10) @ [digit_char (n mod 10)])"

declare string_of_nat.simps [simp del]

lemma digit_char_numeral [simp]:
  "digit_char 0 = CHR ''0''" "digit_char 1 = CHR ''1''" "digit_char (Suc 0) = CHR ''1''"
  "digit_char 2 = CHR ''2''" "digit_char 3 = CHR ''3''" "digit_char 4 = CHR ''4''"
  "digit_char 5 = CHR ''5''" "digit_char 6 = CHR ''6''" "digit_char 7 = CHR ''7''"
  "digit_char 8 = CHR ''8''" "digit_char 9 = CHR ''9''"
  by code_simp+

definition itoa :: "int \<Rightarrow> string" where
  "itoa n = (if n < 0 then CHR ''-'' # string_of_nat (nat (- n)) else string_of_nat (nat n))"

text \<open>\<^verbatim>\<open>hex.EncodeToString\<close> and the verb \<^verbatim>\<open>%x\<close> on a byte slice: two lower-case digits per byte.\<close>

definition hex_byte :: "char \<Rightarrow> string" where
  "hex_byte c = [digit_char (of_char c div 16), digit_char (of_char c mod 16)]"

definition hex_EncodeToString :: "string \<Rightarrow> string" where
  "hex_EncodeToString bs = concat (map hex_byte bs)"

section \<open>Transition systems with an invariant\<close>

inductive reach :: "('s \<Rightarrow> bool) \<Rightarrow> ('s \<Rightarrow> 's \<Rightarrow> bool) \<Rightarrow> 's \<Rightarrow> bool"
  for init :: "'s \<Rightarrow> bool" and step :: "'s \<Rightarrow> 's \<Rightarrow> bool" where
  reach_init: "init s \<Longrightarrow> reach init step s"
| reach_step: "reach init step s \<Longrightarrow> step s t \<Longrightarrow> reach init step t"

text \<open>
  The contract every state machine below discharges: the invariant holds initially and
  each step keeps it. What the client gets is the invariant on every reachable state.
\<close>

locale transition_system =
  fixes init :: "'s \<Rightarrow> bool"
    and step :: "'s \<Rightarrow> 's \<Rightarrow> bool"
    and inv :: "'s \<Rightarrow> bool"
  assumes inv_init: "init s \<Longrightarrow> inv s"
    and inv_step: "inv s \<Longrightarrow> step s t \<Longrightarrow> inv t"
begin

lemma reach_inv: "reach init step s \<Longrightarrow> inv s"
  by (induction rule: reach.induct) (auto intro: inv_init inv_step)

lemma steps_inv: "step\<^sup>*\<^sup>* s t \<Longrightarrow> inv s \<Longrightarrow> inv t"
  by (induction rule: rtranclp_induct) (auto intro: inv_step)

end

text \<open>
  Refinement of an abstract machine: an abstraction function maps initial states to initial
  states, and each concrete step to an abstract step or to no step at all.
\<close>

locale refinement = transition_system init step inv
  for init :: "'s \<Rightarrow> bool" and step :: "'s \<Rightarrow> 's \<Rightarrow> bool" and inv :: "'s \<Rightarrow> bool" +
  fixes ainit :: "'a \<Rightarrow> bool"
    and astep :: "'a \<Rightarrow> 'a \<Rightarrow> bool"
    and absf :: "'s \<Rightarrow> 'a"
  assumes sim_init: "init s \<Longrightarrow> ainit (absf s)"
    and sim_step: "inv s \<Longrightarrow> step s t \<Longrightarrow> absf t = absf s \<or> astep (absf s) (absf t)"
begin

lemma reach_refines: "reach init step s \<Longrightarrow> reach ainit astep (absf s)"
proof (induction rule: reach.induct)
  case (reach_init s)
  then show ?case by (intro reach.reach_init sim_init)
next
  case (reach_step s t)
  from sim_step[OF reach_inv[OF reach_step(1)] reach_step(2)] reach_step(3) show ?case
    by (auto intro: reach.reach_step)
qed

lemma step_refines:
  "reach init step s \<Longrightarrow> step s t \<Longrightarrow> absf t = absf s \<or> astep (absf s) (absf t)"
  by (rule sim_step[OF reach_inv])

end

lemma sorted_snoc_last: "sorted (x # xs @ [y]) \<Longrightarrow> last (x # xs) \<le> (y :: 'a :: linorder)"
  by (cases xs rule: rev_cases) (auto simp: sorted_append)

section \<open>Lists as tables\<close>

text \<open>
  A table is a list of rows; an \<^verbatim>\<open>UPDATE ... WHERE\<close> is a \<open>map\<close> that changes the rows the
  clause selects, a lookup by key is \<open>find\<close>.
\<close>

definition update_where :: "('r \<Rightarrow> bool) \<Rightarrow> ('r \<Rightarrow> 'r) \<Rightarrow> 'r list \<Rightarrow> 'r list" where
  "update_where P f rows = map (\<lambda>r. if P r then f r else r) rows"

lemma length_update_where [simp]: "length (update_where P f rows) = length rows"
  by (simp add: update_where_def)

lemma update_where_Nil [simp]: "update_where P f [] = []"
  by (simp add: update_where_def)

lemma update_where_Cons [simp]:
  "update_where P f (r # rows) = (if P r then f r else r) # update_where P f rows"
  by (simp add: update_where_def)

lemma map_update_where_frame:
  "(\<And>r. P r \<Longrightarrow> g (f r) = g r) \<Longrightarrow> map g (update_where P f rows) = map g rows"
  by (induction rows) auto

lemma set_update_where:
  "set (update_where P f rows) = (\<lambda>r. if P r then f r else r) ` set rows"
  by (simp add: update_where_def)

lemma find_Some_set: "List.find P xs = Some x \<Longrightarrow> x \<in> set xs \<and> P x"
  by (metis find_Some_iff nth_mem)

lemma find_append_list:
  "List.find P (xs @ ys) = (case List.find P xs of None \<Rightarrow> List.find P ys | Some x \<Rightarrow> Some x)"
  by (induction xs) auto

lemma find_key_unique:
  "distinct (map k xs) \<Longrightarrow> x \<in> set xs \<Longrightarrow> List.find (\<lambda>y. k y = k x) xs = Some x"
  by (induction xs) (auto simp: rev_image_eqI)

lemma sum_list_update_where_key:
  fixes g :: "'r \<Rightarrow> int"
  assumes "distinct (map k rows)" and "List.find (\<lambda>r. k r = i) rows = Some r0"
  shows "sum_list (map g (update_where (\<lambda>r. k r = i) f rows))
       = sum_list (map g rows) + g (f r0) - g r0"
  using assms
proof (induction rows)
  case Nil
  then show ?case by simp
next
  case (Cons r rows)
  show ?case
  proof (cases "k r = i")
    case True
    with Cons.prems(1) have "\<And>x. x \<in> set rows \<Longrightarrow> k x \<noteq> i" by (force simp: rev_image_eqI)
    then have "update_where (\<lambda>r. k r = i) f rows = rows"
      by (auto simp: update_where_def intro: map_idI)
    with True Cons.prems(2) show ?thesis by simp
  next
    case False
    with Cons show ?thesis by simp
  qed
qed

lemma update_where_absent:
  "(\<And>r. r \<in> set rows \<Longrightarrow> \<not> P r) \<Longrightarrow> update_where P f rows = rows"
  by (auto simp: update_where_def intro: map_idI)

lemma filter_update_where:
  "(\<And>x. P (f x) = P x) \<Longrightarrow> filter P (update_where Q f xs) = update_where Q f (filter P xs)"
  by (induction xs) (auto simp: update_where_def)

lemma find_update_where_same:
  assumes "\<And>r. k (f r) = k r"
  shows "List.find (\<lambda>r. k r = i) (update_where (\<lambda>r. k r = j) f rows) =
    (case List.find (\<lambda>r. k r = i) rows of None \<Rightarrow> None
     | Some r \<Rightarrow> Some (if i = j then f r else r))"
  using assms by (induction rows) (auto split: option.splits)

end
