(* ===== verification/GoTime.thy ===== *)
theory GoTime
  imports Prelude
begin

text \<open>
  The part of Go's \<^verbatim>\<open>time\<close> package the sources use. A \<^verbatim>\<open>time.Time\<close> is a wall-clock
  reading in nanoseconds since the Unix epoch (UTC, which is the location of the container
  the service runs in) and, for values that come from \<^verbatim>\<open>time.Now\<close>, a monotonic reading.
  \<^verbatim>\<open>Sub\<close> and \<^verbatim>\<open>Since\<close> compare the monotonic readings when both values have one,
  \<^verbatim>\<open>AddDate\<close> drops it; the difference saturates at the bounds of \<^verbatim>\<open>int64\<close>.
\<close>

record gotime =
  wall :: int
  mono :: "int option"

type_synonym duration = int

definition Nanosecond :: duration where "Nanosecond = 1"
definition Millisecond :: duration where "Millisecond = 1000000"
definition Second :: duration where "Second = 1000000000"
definition Minute :: duration where "Minute = 60 * Second"
definition Hour :: duration where "Hour = 60 * Minute"

lemmas duration_defs = Nanosecond_def Millisecond_def Second_def Minute_def Hour_def

definition time_Sub :: "gotime \<Rightarrow> gotime \<Rightarrow> duration" where
  "time_Sub t u = (case (mono t, mono u) of
     (Some a, Some b) \<Rightarrow> sat64 (a - b)
   | _ \<Rightarrow> sat64 (wall t - wall u))"

text \<open>\<open>time_Since now t\<close> is \<^verbatim>\<open>time.Since(t)\<close> evaluated when \<^verbatim>\<open>time.Now\<close> reads \<open>now\<close>.\<close>

definition time_Since :: "gotime \<Rightarrow> gotime \<Rightarrow> duration" where
  "time_Since now t = time_Sub now t"

definition time_Add :: "gotime \<Rightarrow> duration \<Rightarrow> gotime" where
  "time_Add t d = \<lparr>wall = wall t + d, mono = map_option (\<lambda>m. m + d) (mono t)\<rparr>"

definition time_Unix :: "gotime \<Rightarrow> int" where
  "time_Unix t = wall t div Second"

text \<open>The zero value of \<^verbatim>\<open>time.Time\<close>: 1 January of year 1.\<close>

definition time_zero :: gotime where
  "time_zero = \<lparr>wall = -62135596800 * Second, mono = None\<rparr>"

lemma is_int64_time_Sub [simp]: "is_int64 (time_Sub t u)"
  by (auto simp: time_Sub_def split: option.splits)

section \<open>The civil calendar\<close>

definition is_leap :: "int \<Rightarrow> bool" where
  "is_leap y \<longleftrightarrow> y mod 4 = 0 \<and> (y mod 100 \<noteq> 0 \<or> y mod 400 = 0)"

definition month_lengths :: "int \<Rightarrow> int list" where
  "month_lengths y =
     [31, if is_leap y then 29 else 28, 31, 30, 31, 30, 31, 31, 30, 31, 30, 31]"

text \<open>Days from 1 January of year 1 to 1 January of year \<open>y\<close>.\<close>

definition days_before_year :: "int \<Rightarrow> int" where
  "days_before_year y =
     365 * (y - 1) + (y - 1) div 4 - (y - 1) div 100 + (y - 1) div 400"

definition epoch_days :: int where "epoch_days = 719162"

definition days_before_month :: "int \<Rightarrow> nat \<Rightarrow> int" where
  "days_before_month y m = sum_list (take (m - 1) (month_lengths y))"

text \<open>Year and day of the year (from 0) of a day number counted from 1 January of year 1.\<close>

definition year_yday :: "int \<Rightarrow> int \<times> int" where
  "year_yday z =
     (let n400 = z div 146097; r400 = z mod 146097;
          n100 = min 3 (r400 div 36524); r100 = r400 - 36524 * n100;
          n4 = r100 div 1461; r4 = r100 - 1461 * n4;
          n1 = min 3 (r4 div 365)
      in (1 + 400 * n400 + 100 * n100 + 4 * n4 + n1, r4 - 365 * n1))"

fun find_month :: "int list \<Rightarrow> nat \<Rightarrow> int \<Rightarrow> nat \<times> int" where
  "find_month [] m d = (m, d + 1)"
| "find_month (l # ls) m d = (if ls = [] \<or> d < l then (m, d + 1) else find_month ls (Suc m) (d - l))"

text \<open>The civil date of a day number counted from the Unix epoch.\<close>

definition civil_of_days :: "int \<Rightarrow> int \<times> nat \<times> int" where
  "civil_of_days z =
     (let (y, yd) = year_yday (z + epoch_days); (m, d) = find_month (month_lengths y) 1 yd
      in (y, m, d))"

text \<open>
  \<^verbatim>\<open>time.Date(year, month, day, ...)\<close>: months outside 1..12 carry into the year, days outside
  the month carry into the following months by plain day arithmetic.
\<close>

definition days_of_date :: "int \<Rightarrow> int \<Rightarrow> int \<Rightarrow> int" where
  "days_of_date y m d =
     (let y' = y + (m - 1) div 12; m' = nat ((m - 1) mod 12) + 1
      in days_before_year y' + days_before_month y' m' + (d - 1) - epoch_days)"

definition day_ns :: int where "day_ns = 24 * Hour"

definition time_AddDate :: "gotime \<Rightarrow> int \<Rightarrow> int \<Rightarrow> int \<Rightarrow> gotime" where
  "time_AddDate t years months days =
     (let (y, m, d) = civil_of_days (wall t div day_ns)
      in \<lparr>wall = days_of_date (y + years) (int m + months) (d + days) * day_ns
                 + wall t mod day_ns,
          mono = None\<rparr>)"

subsection \<open>Calendar lemmas\<close>

lemma year_yday_correct:
  assumes "year_yday z = (y, yd)"
  shows "days_before_year y + yd = z"
    and "0 \<le> yd" and "yd \<le> (if is_leap y then 365 else 364)"
proof -
  define n400 r400 where "n400 = z div 146097" and "r400 = z mod 146097"
  define n100 where "n100 = min 3 (r400 div 36524)"
  define r100 where "r100 = r400 - 36524 * n100"
  define n4 r4 where "n4 = r100 div 1461" and "r4 = r100 - 1461 * n4"
  define n1 where "n1 = min 3 (r4 div 365)"
  note folds = n400_def r400_def n100_def r100_def n4_def r4_def n1_def
  have y: "y = 1 + 400 * n400 + 100 * n100 + 4 * n4 + n1" and yd: "yd = r4 - 365 * n1"
    using assms by (simp_all only: year_yday_def Let_def folds[symmetric] prod.inject)
  have z: "z = 146097 * n400 + r400" "0 \<le> r400" "r400 < 146097"
    by (simp_all add: n400_def r400_def)
  have b100: "0 \<le> n100" "n100 \<le> 3" "0 \<le> r100" "r100 < 36525" "n100 < 3 \<longrightarrow> r100 < 36524"
    using z unfolding n100_def r100_def by linarith+
  have b4: "0 \<le> n4" "n4 \<le> 24" "0 \<le> r4" "r4 < 1461" "n4 = 24 \<and> n100 < 3 \<longrightarrow> r4 < 1460"
    using b100 unfolding n4_def r4_def by linarith+
  have b1: "0 \<le> n1" "n1 \<le> 3" "0 \<le> yd" "yd \<le> 365" "n1 < 3 \<longrightarrow> yd < 365"
    "n1 = 3 \<and> n4 = 24 \<and> n100 < 3 \<longrightarrow> yd < 365"
    using b4 unfolding n1_def yd by linarith+
  have q: "(y - 1) div 4 = 100 * n400 + 25 * n100 + n4" "(y - 1) div 100 = 4 * n400 + n100"
    "(y - 1) div 400 = n400"
    using b100 b4 b1 unfolding y
    by (auto intro!: int_div_pos_eq[where r = n1] int_div_pos_eq[where r = "4 * n4 + n1"]
        int_div_pos_eq[where r = "100 * n100 + 4 * n4 + n1"])
  show "days_before_year y + yd = z"
    using z(1) by (simp add: days_before_year_def q) (simp add: y yd r4_def r100_def)
  show "0 \<le> yd" by (rule b1)
  have "yd < 365 \<or> is_leap y"
  proof (cases "n1 = 3 \<and> (n4 < 24 \<or> n100 = 3)")
    case True
    then have y4: "y = 4 * (100 * n400 + 25 * n100 + n4 + 1)" by (simp add: y)
    have "y mod 100 \<noteq> 0 \<or> y mod 400 = 0"
    proof (cases "n4 = 24")
      case True
      with \<open>n1 = 3 \<and> (n4 < 24 \<or> n100 = 3)\<close> have "y = 400 * (n400 + 1)" by (simp add: y4)
      then show ?thesis by simp
    next
      case False
      then have "y mod 100 = 4 * (n4 + 1)"
        using b4 by (intro int_mod_pos_eq[where q = "4 * n400 + n100"]) (auto simp: y4)
      with b4 show ?thesis by simp
    qed
    with y4 show ?thesis by (simp add: is_leap_def)
  next
    case False
    with b1 b4 b100 show ?thesis by auto
  qed
  with b1 show "yd \<le> (if is_leap y then 365 else 364)" by auto
qed

lemma find_month_correct:
  assumes "ls \<noteq> []" and "find_month ls m0 d0 = (m, d)" and "0 \<le> d0" and "d0 < sum_list ls"
  shows "m0 \<le> m \<and> m < m0 + length ls \<and> 1 \<le> d \<and> d \<le> ls ! (m - m0)
       \<and> sum_list (take (m - m0) ls) + (d - 1) = d0"
  using assms
proof (induction ls m0 d0 rule: find_month.induct)
  case (1 m0 d0)
  then show ?case by simp
next
  case (2 l ls m0 d0)
  show ?case
  proof (cases "ls = [] \<or> d0 < l")
    case True
    with 2 show ?thesis by auto
  next
    case False
    with 2 have "Suc m0 \<le> m \<and> m < Suc m0 + length ls \<and> 1 \<le> d \<and> d \<le> ls ! (m - Suc m0)
       \<and> sum_list (take (m - Suc m0) ls) + (d - 1) = d0 - l"
      by auto
    then obtain k where "m = Suc (m0 + k)" "k < length ls" "1 \<le> d" "d \<le> ls ! k"
      "sum_list (take k ls) + (d - 1) = d0 - l"
      using le_Suc_ex[of "Suc m0" m] by auto
    then show ?thesis by simp
  qed
qed

lemma month_lengths_basic [simp]:
  "length (month_lengths y) = 12" "month_lengths y \<noteq> []"
  "sum_list (month_lengths y) = (if is_leap y then 366 else 365)"
  by (auto simp: month_lengths_def)

lemma month_lengths_nth:
  "i < 12 \<Longrightarrow> 28 \<le> month_lengths y ! i \<and> month_lengths y ! i \<le> 31"
  by (auto simp: month_lengths_def less_Suc_eq eval_nat_numeral)

lemma days_of_date_norm:
  assumes "1 \<le> m" and "m \<le> 12"
  shows "days_of_date y (int m) d =
    days_before_year y + days_before_month y m + (d - 1) - epoch_days"
proof -
  have "(int m - 1) div 12 = 0" "(int m - 1) mod 12 = int m - 1" "nat (int m - 1) + 1 = m"
    using assms by auto
  then show ?thesis by (simp only: days_of_date_def Let_def add_0_right)
qed

text \<open>
  Converting a day number to a civil date and back is the identity, and the date is well
  formed: month 1..12, day 1..length of that month.
\<close>

lemma civil_roundtrip:
  assumes "civil_of_days z = (y, m, d)"
  shows "days_of_date y (int m) d = z" and "1 \<le> m" and "m \<le> 12"
    and "1 \<le> d" and "d \<le> month_lengths y ! (m - 1)"
proof -
  obtain yd where yd: "year_yday (z + epoch_days) = (y, yd)"
    and fm: "find_month (month_lengths y) 1 yd = (m, d)"
    using assms by (auto simp: civil_of_days_def split: prod.splits)
  note Y = year_yday_correct[OF yd]
  have "yd < sum_list (month_lengths y)" using Y(3) by (auto split: if_splits)
  from find_month_correct[OF month_lengths_basic(2) fm Y(2) this]
  have M: "1 \<le> m" "m < 13" "1 \<le> d" "d \<le> month_lengths y ! (m - 1)"
    "sum_list (take (m - 1) (month_lengths y)) + (d - 1) = yd"
    by auto
  show "1 \<le> m" "m \<le> 12" "1 \<le> d" "d \<le> month_lengths y ! (m - 1)" using M by auto
  show "days_of_date y (int m) d = z"
    using M(5) Y(1) \<open>1 \<le> m\<close> \<open>m \<le> 12\<close>
    by (simp add: days_of_date_norm days_before_month_def)
qed

lemma div_pred:
  fixes y n :: int
  assumes "0 < n"
  shows "y div n = (y - 1) div n + (if y mod n = 0 then 1 else 0)"
proof -
  have y: "y = n * (y div n) + y mod n" and r: "0 \<le> y mod n" "y mod n < n"
    using assms by simp_all
  show ?thesis
  proof (cases "y mod n = 0")
    case True
    with y have "y - 1 = n * (y div n - 1) + (n - 1)" by (simp add: right_diff_distrib)
    with assms have "(y - 1) div n = y div n - 1"
      using int_div_pos_eq[of "y - 1" n "y div n - 1" "n - 1"] by simp
    with True show ?thesis by simp
  next
    case False
    with y r have "y - 1 = n * (y div n) + (y mod n - 1)" "0 \<le> y mod n - 1" "y mod n - 1 < n"
      by linarith+
    then have "(y - 1) div n = y div n" by (rule int_div_pos_eq)
    with False show ?thesis by simp
  qed
qed

lemma days_before_year_Suc:
  "days_before_year (y + 1) = days_before_year y + (if is_leap y then 366 else 365)"
proof -
  have h100: "y mod 100 = 0" if "y mod 400 = 0"
    using that dvd_trans[of 100 400 y] by (simp add: mod_eq_0_iff_dvd)
  have h4: "y mod 4 = 0" if "y mod 100 = 0"
    using that dvd_trans[of 4 100 y] by (simp add: mod_eq_0_iff_dvd)
  have "days_before_year (y + 1) = days_before_year y + 365
    + (if y mod 4 = 0 then 1 else 0) - (if y mod 100 = 0 then 1 else 0)
    + (if y mod 400 = 0 then 1 else 0)"
  proof -
    have d: "y div 4 = (y - 1) div 4 + (if y mod 4 = 0 then 1 else 0)"
      "y div 100 = (y - 1) div 100 + (if y mod 100 = 0 then 1 else 0)"
      "y div 400 = (y - 1) div 400 + (if y mod 400 = 0 then 1 else 0)"
      by (rule div_pred, simp)+
    show ?thesis
      unfolding days_before_year_def add_diff_cancel_right' d by (simp only: algebra_simps)
  qed
  with h100 h4 show ?thesis by (cases "y mod 400 = 0"; cases "y mod 100 = 0") (simp_all add: is_leap_def)
qed

text \<open>One calendar month later is the length of the starting month in days.\<close>

lemma days_next_month:
  assumes "1 \<le> m" and "m \<le> 12"
  shows "days_of_date y (int m + 1) d = days_of_date y (int m) d + month_lengths y ! (m - 1)"
proof (cases "m = 12")
  case True
  then show ?thesis
    using days_before_year_Suc[of y]
    by (simp add: days_of_date_def Let_def days_before_month_def month_lengths_def)
next
  case False
  with assms have "1 \<le> Suc m" "Suc m \<le> 12" by auto
  from days_of_date_norm[OF this, of y d] days_of_date_norm[OF assms, of y d]
  show ?thesis
    using assms take_Suc_conv_app_nth[of "m - 1" "month_lengths y"]
    by (simp add: days_before_month_def add.commute)
qed

text \<open>One year later is 365 or 366 days.\<close>

lemma days_before_month_leap:
  assumes "1 \<le> m" and "m \<le> 12"
  shows "days_before_month y m =
    days_before_month 1 m + (if is_leap y \<and> m > 2 then 1 else 0)"
proof -
  have "m \<in> {1,2,3,4,5,6,7,8,9,10,11,12}" using assms by (simp, arith)
  then show ?thesis
    by (auto simp: days_before_month_def month_lengths_def is_leap_def eval_nat_numeral)
qed

lemma days_next_year:
  assumes "1 \<le> m" and "m \<le> 12"
  shows "days_of_date (y + 1) (int m) d - days_of_date y (int m) d \<in> {365, 366}"
proof -
  have "\<not> (y mod 4 = 0 \<and> (y + 1) mod 4 = 0)" by presburger
  then have not_both: "\<not> (is_leap y \<and> is_leap (y + 1))" by (auto simp: is_leap_def)
  show ?thesis
    using not_both days_before_year_Suc[of y] days_before_month_leap[OF assms, of y]
      days_before_month_leap[OF assms, of "y + 1"]
    by (auto simp: days_of_date_norm[OF assms])
qed

end
