(* ===== verification/Breaker.thy ===== *)
theory Breaker
  imports GoTime
begin

text \<open>
  The circuit breaker in front of the read replica and the retry loop that drives it
  (\<^verbatim>\<open>internal/database/cluster.go\<close>). The mutex of the breaker makes each critical section
  atomic; \<open>CanExecute\<close> has two of them (the read-locked fast path and the write-locked
  slow path), which are separate steps of the concurrent model. Every reading of
  \<^verbatim>\<open>time.Now\<close> is an argument.
\<close>

datatype BreakerState = StateClosed | StateOpen | StateHalfOpen

record CircuitBreaker =
  cb_state :: BreakerState
  failureCount :: int
  threshold :: int
  cooldown :: duration
  lastStateLog :: gotime

text \<open>The breaker \<^verbatim>\<open>InitCluster\<close> builds: closed, threshold 5, cooldown 15 seconds.\<close>

definition init_breaker :: CircuitBreaker where
  "init_breaker = \<lparr>cb_state = StateClosed, failureCount = 0, threshold = 5,
     cooldown = 15 * Second, lastStateLog = time_zero\<rparr>"

definition CanExecute_fast :: "CircuitBreaker \<Rightarrow> bool" where
  "CanExecute_fast cb \<longleftrightarrow> cb_state cb = StateClosed"

definition CanExecute_slow :: "gotime \<Rightarrow> gotime \<Rightarrow> CircuitBreaker \<Rightarrow> bool \<times> CircuitBreaker" where
  "CanExecute_slow now now' cb =
     (if cb_state cb = StateOpen then
        (if time_Since now (lastStateLog cb) > cooldown cb
         then (True, cb\<lparr>cb_state := StateHalfOpen, lastStateLog := now'\<rparr>)
         else (False, cb))
      else (True, cb))"

definition CanExecute :: "gotime \<Rightarrow> gotime \<Rightarrow> CircuitBreaker \<Rightarrow> bool \<times> CircuitBreaker" where
  "CanExecute now now' cb =
     (if CanExecute_fast cb then (True, cb) else CanExecute_slow now now' cb)"

definition RecordFailure :: "gotime \<Rightarrow> CircuitBreaker \<Rightarrow> CircuitBreaker" where
  "RecordFailure now cb =
     (let cb = cb\<lparr>failureCount := failureCount cb + 1\<rparr>
      in if cb_state cb = StateHalfOpen \<or> failureCount cb \<ge> threshold cb
         then cb\<lparr>cb_state := StateOpen, lastStateLog := now\<rparr> else cb)"

definition RecordSuccess :: "CircuitBreaker \<Rightarrow> CircuitBreaker" where
  "RecordSuccess cb = cb\<lparr>cb_state := StateClosed, failureCount := 0\<rparr>"

lemmas breaker_defs = CanExecute_fast_def CanExecute_slow_def CanExecute_def
  RecordFailure_def RecordSuccess_def Let_def

section \<open>The retry loop\<close>

text \<open>
  \<^verbatim>\<open>operation\<close> is any function of the caller's state that may fail; \<open>ctx\<close> says, for the
  attempt with index \<open>i\<close>, what \<^verbatim>\<open>ctx.Err()\<close> returns after it (\<open>fst\<close>) and how the
  \<^verbatim>\<open>select\<close> that follows is resolved (\<open>snd\<close>): \<open>None\<close> when the back-off timer fires,
  \<open>Some e\<close> when the context is done with error \<open>e\<close>. The durations slept are recorded.
\<close>

type_synonym 's operation = "'s \<Rightarrow> 's \<times> goerr option"
type_synonym ctx = "nat \<Rightarrow> goerr option \<times> goerr option"

datatype loop_exit = Succeeded | Cancelled goerr | Exhausted goerr

fun retry_loop :: "'s operation \<Rightarrow> ctx \<Rightarrow> nat \<Rightarrow> nat \<Rightarrow> duration \<Rightarrow> goerr \<Rightarrow> 's \<Rightarrow>
    's \<times> loop_exit \<times> duration list" where
  "retry_loop operation ctx i 0 backoff err s = (s, Exhausted err, [])"
| "retry_loop operation ctx i (Suc n) backoff err s =
     (case operation s of
        (s', None) \<Rightarrow> (s', Succeeded, [])
      | (s', Some e) \<Rightarrow>
          (case ctx i of
             (Some c, _) \<Rightarrow> (s', Cancelled c, [])
           | (None, Some c) \<Rightarrow> (s', Cancelled c, [])
           | (None, None) \<Rightarrow>
               (let (s'', r, sleeps) = retry_loop operation ctx (Suc i) n (backoff * 2) e s'
                in (s'', r, backoff # sleeps))))"

definition maxRetries :: nat where "maxRetries = 3"

text \<open>
  \<open>now\<close>, \<open>now'\<close> are the clock readings of \<^verbatim>\<open>CanExecute\<close>, \<open>nowf\<close> that of
  \<^verbatim>\<open>RecordFailure\<close>. The variable \<^verbatim>\<open>err\<close> starts as \<^verbatim>\<open>nil\<close>; since the loop runs at
  least once, the initial value never escapes.
\<close>

definition RetryQuery :: "gotime \<Rightarrow> gotime \<Rightarrow> gotime \<Rightarrow> ctx \<Rightarrow> 's operation \<Rightarrow> CircuitBreaker \<Rightarrow> 's \<Rightarrow>
    's \<times> CircuitBreaker \<times> goerr option \<times> duration list" where
  "RetryQuery now now' nowf ctx operation cb s =
     (case CanExecute now now' cb of
        (False, cb') \<Rightarrow> (let (s', e) = operation s in (s', cb', e, []))
      | (True, cb') \<Rightarrow>
          (case retry_loop operation ctx 0 maxRetries (100 * Millisecond) (ErrNew '''') s of
             (s', Succeeded, sl) \<Rightarrow> (s', RecordSuccess cb', None, sl)
           | (s', Cancelled c, sl) \<Rightarrow> (s', cb', Some c, sl)
           | (s', Exhausted e, sl) \<Rightarrow>
               (s', RecordFailure nowf cb',
                Some (wrapf ''breaker pipeline intercepted failure'' e), sl)))"

section \<open>The breaker as a concurrent state machine\<close>

text \<open>
  Any number of goroutines use one breaker; what they do to it is a sequence of critical
  sections, in any order and at any clock reading.
\<close>

inductive breaker_step :: "CircuitBreaker \<Rightarrow> CircuitBreaker \<Rightarrow> bool" where
  step_slow: "breaker_step cb (snd (CanExecute_slow now now' cb))"
| step_failure: "breaker_step cb (RecordFailure now cb)"
| step_success: "breaker_step cb (RecordSuccess cb)"

inductive_cases breaker_stepE: "breaker_step cb cb'"

text \<open>
  The invariant: the configuration never changes, a closed breaker has counted fewer
  failures than the threshold, and a breaker that is not closed has counted at least one.
\<close>

definition breaker_inv :: "CircuitBreaker \<Rightarrow> bool" where
  "breaker_inv cb \<longleftrightarrow> threshold cb = 5 \<and> cooldown cb = 15 * Second \<and> 0 \<le> failureCount cb
     \<and> (cb_state cb = StateClosed \<longrightarrow> failureCount cb < threshold cb)
     \<and> (cb_state cb \<noteq> StateClosed \<longrightarrow> 0 < failureCount cb)"

interpretation breaker: transition_system "\<lambda>cb. cb = init_breaker" breaker_step breaker_inv
proof unfold_locales
  show "breaker_inv s" if "s = init_breaker" for s
    using that by (simp add: breaker_inv_def init_breaker_def)
  show "breaker_inv t" if "breaker_inv s" and "breaker_step s t" for s t
    using that(2,1)
    by (cases rule: breaker_step.cases) (auto simp: breaker_inv_def breaker_defs)
qed

section \<open>Lemmas\<close>

lemma breaker_step_opens:
  assumes "breaker_step cb cb'" and "cb_state cb = StateClosed" and "cb_state cb' = StateOpen"
  shows "failureCount cb' = failureCount cb + 1 \<and> threshold cb \<le> failureCount cb'
    \<and> (\<exists>now. cb' = RecordFailure now cb)"
  using assms by (cases rule: breaker_step.cases) (auto simp: breaker_defs split: if_splits)

fun record_failures :: "gotime list \<Rightarrow> CircuitBreaker \<Rightarrow> CircuitBreaker" where
  "record_failures [] cb = cb"
| "record_failures (now # ts) cb = record_failures ts (RecordFailure now cb)"

lemma record_failures_below:
  "cb_state cb = StateClosed \<Longrightarrow> failureCount cb + int (length ts) < threshold cb \<Longrightarrow>
     record_failures ts cb = cb\<lparr>failureCount := failureCount cb + int (length ts)\<rparr>"
proof (induction ts arbitrary: cb)
  case (Cons now ts)
  then have "RecordFailure now cb = cb\<lparr>failureCount := failureCount cb + 1\<rparr>"
    by (simp add: RecordFailure_def)
  with Cons show ?case by simp
qed simp

lemma record_failures_append:
  "record_failures (xs @ ys) cb = record_failures ys (record_failures xs cb)"
  by (induction xs arbitrary: cb) auto

lemma backoff_Cons:
  "map (\<lambda>k. b * 2 ^ k) [0..<Suc n] = (b :: int) # map (\<lambda>k. (b * 2) * 2 ^ k) [0..<n]"
proof -
  have "[0..<Suc n] = 0 # map Suc [0..<n]"
    by (simp add: upt_conv_Cons map_Suc_upt del: upt_Suc)
  then show ?thesis by (simp add: comp_def mult.assoc del: upt_Suc)
qed

abbreviation after :: "'s operation \<Rightarrow> nat \<Rightarrow> 's \<Rightarrow> 's" where
  "after operation k s \<equiv> ((\<lambda>s. fst (operation s)) ^^ k) s"

text \<open>
  What the loop does when the context stays alive: if the first \<open>j\<close> attempts fail and
  attempt \<open>j\<close> succeeds, it stops there; if all \<open>n\<close> fail, it reports the last error. Before
  each further attempt (and after the last failing one) it sleeps twice as long as before.
\<close>

lemma retry_loop_success:
  assumes "\<And>k. ctx k = (None, None)" and "j < n"
    and "\<And>k. k < j \<Longrightarrow> snd (operation (after operation k s)) \<noteq> None"
    and "snd (operation (after operation j s)) = None"
  shows "retry_loop operation ctx i n backoff err s =
    (after operation (Suc j) s, Succeeded, map (\<lambda>k. backoff * 2 ^ k) [0..<j])"
  using assms(2-)
proof (induction j arbitrary: n i backoff err s)
  case 0
  then show ?case by (cases n) (auto split: prod.splits)
next
  case (Suc j)
  then obtain m where n: "n = Suc m" "j < m" by (cases n) auto
  obtain s' e where op: "operation s = (s', Some e)"
    using Suc.prems(2)[of 0] by (cases "operation s") auto
  have shift: "after operation k s' = after operation (Suc k) s" for k
    by (simp add: op funpow_Suc_right del: funpow.simps)
  have fails: "snd (operation (after operation k s')) \<noteq> None" if "k < j" for k
    using Suc.prems(2)[of "Suc k"] that by (simp only: shift) simp
  have succ: "snd (operation (after operation j s')) = None"
    using Suc.prems(3) by (simp only: shift)
  show ?case
    using Suc.IH[OF n(2) fails succ, of "Suc i" "backoff * 2" e]
    by (simp add: n op assms(1) shift backoff_Cons del: upt_Suc funpow.simps)
qed

lemma retry_loop_exhausted:
  assumes "\<And>k. ctx k = (None, None)"
    and "\<And>k. k < n \<Longrightarrow> snd (operation (after operation k s)) \<noteq> None"
  shows "retry_loop operation ctx i n backoff err s =
    (after operation n s,
     Exhausted (if n = 0 then err else the (snd (operation (after operation (n - 1) s)))),
     map (\<lambda>k. backoff * 2 ^ k) [0..<n])"
  using assms(2)
proof (induction n arbitrary: i backoff err s)
  case 0
  then show ?case by simp
next
  case (Suc n)
  obtain s' e where op: "operation s = (s', Some e)"
    using Suc.prems[of 0] by (cases "operation s") auto
  have shift: "after operation k s' = after operation (Suc k) s" for k
    by (simp add: op funpow_Suc_right del: funpow.simps)
  have fails: "snd (operation (after operation k s')) \<noteq> None" if "k < n" for k
    using Suc.prems[of "Suc k"] that by (simp only: shift) simp
  have last: "(if n = 0 then e else the (snd (operation (after operation (n - 1) s'))))
      = the (snd (operation (after operation n s)))"
    using op by (cases n) (simp_all add: shift del: funpow.simps)
  show ?case
    using Suc.IH[OF fails, of "Suc i" "backoff * 2" e]
    by (simp add: op assms(1) shift last backoff_Cons del: upt_Suc funpow.simps)
qed

section \<open>Properties of the breaker\<close>

lemma record_failures_open:
  "cb_state cb = StateOpen \<Longrightarrow> threshold cb \<le> failureCount cb \<Longrightarrow>
     cb_state (record_failures ts cb) = StateOpen"
  by (induction ts arbitrary: cb) (auto simp: RecordFailure_def Let_def)

text \<open>
  C21. In every state the breaker can reach, whatever the goroutines did before, a success
  followed by a run of consecutive failures leaves it closed as long as there are fewer
  than five of them, and opens it with the fifth.
\<close>

theorem breaker_trips_on_fifth_failure:
  assumes "reach (\<lambda>cb. cb = init_breaker) breaker_step cb"
  shows "cb_state (record_failures ts (RecordSuccess cb)) =
    (if length ts < 5 then StateClosed else StateOpen)"
proof -
  let ?cb = "RecordSuccess cb"
  have thr: "threshold ?cb = 5" "failureCount ?cb = 0" "cb_state ?cb = StateClosed"
    using breaker.reach_inv[OF assms] by (simp_all add: breaker_inv_def RecordSuccess_def)
  show ?thesis
  proof (cases "length ts < 5")
    case True
    with thr show ?thesis by (simp add: record_failures_below)
  next
    case False
    then obtain t4 now rest where ts: "ts = t4 @ now # rest" "length t4 = 4"
      using id_take_nth_drop[of 4 ts] that[of "take 4 ts" "ts ! 4" "drop 5 ts"] by simp
    from ts(2) thr have "record_failures t4 ?cb = ?cb\<lparr>failureCount := 4\<rparr>"
      by (simp add: record_failures_below)
    with thr show ?thesis
      by (simp add: ts record_failures_append RecordFailure_def Let_def record_failures_open)
  qed
qed

theorem breaker_trips_on_fifth_failure_witness:
  "reach (\<lambda>cb. cb = init_breaker) breaker_step init_breaker
   \<and> cb_state (record_failures [time_zero, time_zero, time_zero, time_zero]
        (RecordSuccess init_breaker)) = StateClosed
   \<and> cb_state (record_failures [time_zero, time_zero, time_zero, time_zero, time_zero]
        (RecordSuccess init_breaker)) = StateOpen"
proof -
  have r: "reach (\<lambda>cb. cb = init_breaker) breaker_step init_breaker"
    by (simp add: reach_init)
  show ?thesis
    using r breaker_trips_on_fifth_failure[OF r] by (simp del: record_failures.simps)
qed

text \<open>
  A query the breaker admits, with a live context: it is attempted until the first
  success and at most three times, sleeping 100, 200 and 400 milliseconds after the failing
  attempts; a success closes the breaker and clears its count, three failures count as one
  failure of the breaker and report the error of the last attempt, wrapped.
\<close>

theorem RetryQuery_admitted:
  assumes adm: "CanExecute now now' cb = (True, cb')" and ctx: "\<And>k. ctx k = (None, None)"
    and j: "j = (LEAST k. k = 3 \<or> snd (operation (after operation k s)) = None)"
  shows "RetryQuery now now' nowf ctx operation cb s =
    (if j < 3
     then (after operation (Suc j) s, RecordSuccess cb', None,
           take j [100 * Millisecond, 200 * Millisecond])
     else (after operation 3 s, RecordFailure nowf cb',
           Some (wrapf ''breaker pipeline intercepted failure''
             (the (snd (operation (after operation 2 s))))),
           [100 * Millisecond, 200 * Millisecond, 400 * Millisecond]))"
proof -
  let ?P = "\<lambda>k. k = 3 \<or> snd (operation (after operation k s)) = None"
  have j3: "j \<le> 3" unfolding j by (rule Least_le) simp
  have Pj: "?P j" unfolding j by (rule LeastI[of ?P 3]) simp
  have fails: "snd (operation (after operation k s)) \<noteq> None" if "k < j" for k
    using not_less_Least[of k ?P] that j by auto
  show ?thesis
  proof (cases "j < 3")
    case True
    have "map (\<lambda>k. 100 * Millisecond * 2 ^ k) [0..<j] = take j [100 * Millisecond, 200 * Millisecond]"
      using True by (auto simp: less_Suc_eq numeral_3_eq_3)
    moreover have "retry_loop operation ctx 0 3 (100 * Millisecond) (ErrNew '''') s =
        (after operation (Suc j) s, Succeeded, map (\<lambda>k. 100 * Millisecond * 2 ^ k) [0..<j])"
      using Pj True fails by (intro retry_loop_success ctx) auto
    ultimately show ?thesis using True by (simp add: RetryQuery_def adm maxRetries_def)
  next
    case False
    with j3 have "j = 3" by simp
    with fails have "retry_loop operation ctx 0 3 (100 * Millisecond) (ErrNew '''') s =
        (after operation 3 s, Exhausted (the (snd (operation (after operation (3 - 1) s)))),
         map (\<lambda>k. 100 * Millisecond * 2 ^ k) [0..<3])"
      by (subst retry_loop_exhausted[OF ctx]) auto
    moreover have "[0..<3::nat] = [0, 1, 2]" by (simp add: upt_rec)
    ultimately show ?thesis
      using False by (simp add: RetryQuery_def adm maxRetries_def del: funpow.simps)
  qed
qed

text \<open>An operation that counts its runs and succeeds from the third on.\<close>

theorem RetryQuery_admitted_witness:
  "RetryQuery time_zero time_zero time_zero (\<lambda>_. (None, None))
     (\<lambda>n::nat. (n + 1, if n < 2 then Some (ErrNew ''replica down'') else None)) init_breaker 0
   = (3, RecordSuccess init_breaker, None, [100 * Millisecond, 200 * Millisecond])"
proof -
  let ?op = "\<lambda>n::nat. (n + 1, if n < 2 then Some (ErrNew ''replica down'') else None)"
  have run: "after ?op k 0 = k" for k by (induction k) auto
  have two: "2 = (LEAST k. k = 3 \<or> snd (?op (after ?op k 0)) = None)"
    unfolding run by (rule sym, rule Least_equality) (auto split: if_splits)
  have adm: "CanExecute time_zero time_zero init_breaker = (True, init_breaker)"
    by (simp add: breaker_defs init_breaker_def)
  from RetryQuery_admitted[OF adm, of "\<lambda>_. (None, None)" 2 ?op 0 time_zero, OF refl two]
  show ?thesis unfolding run by simp
qed

text \<open>What goroutines can do to a breaker without recording a success, at given clock readings.\<close>

datatype breaker_event = TryExecute gotime gotime | FailedQuery gotime

fun apply_event :: "breaker_event \<Rightarrow> CircuitBreaker \<Rightarrow> CircuitBreaker" where
  "apply_event (TryExecute now now') cb = snd (CanExecute now now' cb)"
| "apply_event (FailedQuery now) cb = RecordFailure now cb"

fun reading_within :: "int \<Rightarrow> int \<Rightarrow> gotime \<Rightarrow> bool" where
  "reading_within lo hi t = (case mono t of None \<Rightarrow> False | Some m \<Rightarrow> lo \<le> m \<and> m \<le> hi)"

fun event_within :: "int \<Rightarrow> int \<Rightarrow> breaker_event \<Rightarrow> bool" where
  "event_within lo hi (TryExecute now now') = (reading_within lo hi now \<and> reading_within lo hi now')"
| "event_within lo hi (FailedQuery now) = reading_within lo hi now"

lemma open_event_stays_open:
  assumes "cb_state cb = StateOpen" and "reading_within m (m + 15 * Second) (lastStateLog cb)"
    and "threshold cb \<le> failureCount cb" and "cooldown cb = 15 * Second"
    and "event_within m (m + 15 * Second) ev"
  shows "cb_state (apply_event ev cb) = StateOpen
    \<and> reading_within m (m + 15 * Second) (lastStateLog (apply_event ev cb))
    \<and> threshold (apply_event ev cb) \<le> failureCount (apply_event ev cb)
    \<and> cooldown (apply_event ev cb) = 15 * Second"
  using assms
  by (cases ev) (auto simp: breaker_defs time_Since_def time_Sub_def sat64_def int64_bounds duration_defs
      split: option.splits if_splits)

text \<open>
  C22. Once tripped, the breaker stays open for the cooldown: whatever attempts and failures
  goroutines make while the monotonic clock is within 15 seconds of the trip, the next query
  is refused, runs its operation exactly once without retries or sleeping, gets that
  operation's own error, and leaves the breaker as it was.
\<close>

theorem tripped_breaker_fails_fast:
  assumes "cb_state cb = StateOpen" and "threshold cb \<le> failureCount cb" and "cooldown cb = 15 * Second"
    and "mono (lastStateLog cb) = Some m"
    and "list_all (event_within m (m + 15 * Second)) evs"
    and "reading_within m (m + 15 * Second) now"
  shows "RetryQuery now now' nowf ctx operation (fold apply_event evs cb) s =
    (fst (operation s), fold apply_event evs cb, snd (operation s), [])"
proof -
  let ?cb = "fold apply_event evs cb"
  have "cb_state ?cb = StateOpen \<and> reading_within m (m + 15 * Second) (lastStateLog ?cb)
      \<and> threshold ?cb \<le> failureCount ?cb \<and> cooldown ?cb = 15 * Second"
    using assms(1-5)
  proof (induction evs arbitrary: cb rule: rev_induct)
    case Nil
    then show ?case by (simp add: duration_defs)
  next
    case (snoc ev evs)
    then show ?case using open_event_stays_open[of "fold apply_event evs cb" m ev] by auto
  qed
  then have "CanExecute now now' ?cb = (False, ?cb)"
    using assms(6) by (auto simp: breaker_defs time_Since_def time_Sub_def sat64_def int64_bounds duration_defs
        split: option.splits)
  then show ?thesis by (simp add: RetryQuery_def split: prod.splits)
qed

theorem tripped_breaker_fails_fast_witness:
  "let at = \<lambda>m. \<lparr>wall = 0, mono = Some m\<rparr>;
       cb = RecordFailure (at 0) (init_breaker\<lparr>failureCount := 4\<rparr>)
   in RetryQuery (at (15 * Second)) (at (15 * Second)) (at 0) (\<lambda>_. (None, None))
        (\<lambda>n::nat. (n + 1, Some (ErrNew ''replica down''))) (fold apply_event [FailedQuery (at 7)] cb) 0
      = (1, fold apply_event [FailedQuery (at 7)] cb, Some (ErrNew ''replica down''), [])"
proof -
  let ?at = "\<lambda>m. \<lparr>wall = 0, mono = Some m\<rparr> :: gotime"
  let ?cb = "RecordFailure (?at 0) (init_breaker\<lparr>failureCount := 4\<rparr>)"
  have "cb_state ?cb = StateOpen" "threshold ?cb \<le> failureCount ?cb" "cooldown ?cb = 15 * Second"
    "mono (lastStateLog ?cb) = Some 0"
    "list_all (event_within 0 (0 + 15 * Second)) [FailedQuery (?at 7)]"
    "reading_within 0 (0 + 15 * Second) (?at (15 * Second))"
    by (simp_all add: RecordFailure_def init_breaker_def Let_def duration_defs)
  from tripped_breaker_fails_fast[OF this, of "?at (15 * Second)" "?at 0" "\<lambda>_. (None, None)"
      "\<lambda>n::nat. (n + 1, Some (ErrNew ''replica down''))" 0]
  show ?thesis unfolding Let_def by simp
qed

end
