(* ===== verification/Config.thy ===== *)
theory Config
  imports Breaker
begin

text \<open>
  Configuration and the connection pools: \<^verbatim>\<open>internal/config/config.go\<close> and \<^verbatim>\<open>InitCluster\<close> of
  \<^verbatim>\<open>internal/database/cluster.go\<close>. The environment, \<^verbatim>\<open>sql.Open\<close> and \<^verbatim>\<open>Ping\<close> are arguments.
\<close>

record Config =
  DBHost :: string
  DBReplicaHost :: string
  DBPort :: string
  DBUser :: string
  DBPassword :: string
  DBName :: string
  RedisHost :: string
  RedisPort :: string

definition getEnv :: "(string \<rightharpoonup> string) \<Rightarrow> string \<Rightarrow> string \<Rightarrow> string" where
  "getEnv env key fallback = (case env key of Some value \<Rightarrow> value | None \<Rightarrow> fallback)"

definition Load :: "(string \<rightharpoonup> string) \<Rightarrow> Config" where
  "Load env = \<lparr>DBHost = getEnv env ''DB_HOST'' ''localhost'',
     DBReplicaHost = getEnv env ''DB_REPLICA_HOST'' ''localhost'',
     DBPort = getEnv env ''DB_PORT'' ''5432'', DBUser = getEnv env ''DB_USER'' ''postgres'',
     DBPassword = getEnv env ''DB_PASSWORD'' ''secretpassword'', DBName = getEnv env ''DB_NAME'' ''vaultpay'',
     RedisHost = getEnv env ''REDIS_HOST'' ''localhost'', RedisPort = getEnv env ''REDIS_PORT'' ''6379''\<rparr>"

definition GetDSN :: "Config \<Rightarrow> string" where
  "GetDSN c = ''host='' @ DBHost c @ '' port='' @ DBPort c @ '' user='' @ DBUser c
     @ '' password='' @ DBPassword c @ '' dbname='' @ DBName c @ '' sslmode=disable''"

section \<open>The cluster\<close>

record sql_DB =
  dsn :: string
  MaxOpenConns :: int
  MaxIdleConns :: int
  ConnMaxLifetime :: duration

record DatabaseCluster =
  Master :: sql_DB
  Replica :: sql_DB
  ReplicaBreaker :: CircuitBreaker

definition configurePool :: "sql_DB \<Rightarrow> sql_DB" where
  "configurePool p = p\<lparr>MaxOpenConns := 25, MaxIdleConns := 25, ConnMaxLifetime := 5 * Minute\<rparr>"

text \<open>
  \<open>sql_open\<close> is \<^verbatim>\<open>sql.Open\<close> for the driver \<^verbatim>\<open>postgres\<close>, \<open>ping\<close> the error of \<^verbatim>\<open>Ping\<close> on a pool, if any. The
  breaker and its initial state are those of the circuit breaker theory.
\<close>

definition InitCluster ::
    "(string \<Rightarrow> sql_DB result) \<Rightarrow> (sql_DB \<Rightarrow> goerr option) \<Rightarrow> Config \<Rightarrow> DatabaseCluster result" where
  "InitCluster sql_open ping cfg =
     (let masterDSN = ''host='' @ DBHost cfg @ '' port='' @ DBPort cfg @ '' user='' @ DBUser cfg
            @ '' password='' @ DBPassword cfg @ '' dbname='' @ DBName cfg @ '' sslmode=disable'' in
      case sql_open masterDSN of
        Inl e \<Rightarrow> Inl (wrapf ''failed to open master DB'' e)
      | Inr m \<Rightarrow>
          (let masterPool = configurePool m;
               replicaDSN = ''host='' @ DBReplicaHost cfg @ '' port='' @ DBPort cfg @ '' user='' @ DBUser cfg
                 @ '' password='' @ DBPassword cfg @ '' dbname='' @ DBName cfg @ '' sslmode=disable'' in
           case sql_open replicaDSN of
             Inl e \<Rightarrow> Inl (wrapf ''failed to open replica DB'' e)
           | Inr rp \<Rightarrow>
               (let replicaPool = configurePool rp in
                case ping masterPool of
                  Some e \<Rightarrow> Inl (wrapf ''master node unreachable'' e)
                | None \<Rightarrow>
                    (case ping replicaPool of
                       Some e \<Rightarrow> Inl (wrapf ''replica node unreachable'' e)
                     | None \<Rightarrow> Inr \<lparr>Master = masterPool, Replica = replicaPool, ReplicaBreaker = init_breaker\<rparr>))))"

text \<open>The strings \<^verbatim>\<open>main\<close> builds for the migrations and for Redis.\<close>

definition migrationURL :: "Config \<Rightarrow> string" where
  "migrationURL c = ''postgres://'' @ DBUser c @ '':'' @ DBPassword c @ ''@'' @ DBHost c @ '':'' @ DBPort c
     @ ''/'' @ DBName c @ ''?sslmode=disable''"

definition redisAddr :: "Config \<Rightarrow> string" where
  "redisAddr c = RedisHost c @ '':'' @ RedisPort c"

section \<open>What the cluster connects to\<close>

text \<open>Why the node with connection string \<open>s\<close> cannot be used.\<close>

definition node_fails :: "(string \<Rightarrow> sql_DB result) \<Rightarrow> (sql_DB \<Rightarrow> goerr option) \<Rightarrow> string \<Rightarrow> goerr \<Rightarrow> bool" where
  "node_fails sql_open ping s cause \<longleftrightarrow> (case sql_open s of
     Inl e \<Rightarrow> e = cause | Inr p \<Rightarrow> ping (configurePool p) = Some cause)"

lemma InitCluster_GetDSN:
  "InitCluster sql_open ping cfg =
     (case sql_open (GetDSN cfg) of
        Inl e \<Rightarrow> Inl (wrapf ''failed to open master DB'' e)
      | Inr m \<Rightarrow> (case sql_open (GetDSN (cfg\<lparr>DBHost := DBReplicaHost cfg\<rparr>)) of
          Inl e \<Rightarrow> Inl (wrapf ''failed to open replica DB'' e)
        | Inr rp \<Rightarrow> (case ping (configurePool m) of
            Some e \<Rightarrow> Inl (wrapf ''master node unreachable'' e)
          | None \<Rightarrow> (case ping (configurePool rp) of
              Some e \<Rightarrow> Inl (wrapf ''replica node unreachable'' e)
            | None \<Rightarrow> Inr \<lparr>Master = configurePool m, Replica = configurePool rp, ReplicaBreaker = init_breaker\<rparr>))))"
  by (simp add: InitCluster_def GetDSN_def Let_def cong: sum.case_cong option.case_cong)

lemma InitCluster_nodes:
  assumes "\<And>s p. sql_open s = Inr p \<Longrightarrow> dsn p = s" and "InitCluster sql_open ping cfg = Inr c"
  shows "dsn (Master c) = GetDSN cfg" "dsn (Replica c) = GetDSN (cfg\<lparr>DBHost := DBReplicaHost cfg\<rparr>)"
    "ping (Master c) = None" "ping (Replica c) = None"
  using assms(2) unfolding InitCluster_GetDSN
  by (auto simp: configurePool_def dest!: assms(1) split: sum.splits option.splits)

text \<open>
  A cluster comes up only when both nodes can be opened and answer; then the master pool is
  opened with the string of \<^verbatim>\<open>GetDSN\<close>, the replica pool with the same string for the replica
  host, both with the configured limits, and the breaker is closed with no failures. Any
  failure is reported with its cause, which callers can still test for.
\<close>

theorem InitCluster_outcome:
  assumes opens: "\<And>s p. sql_open s = Inr p \<Longrightarrow> dsn p = s"
  shows "case InitCluster sql_open ping cfg of
      Inr c \<Rightarrow> dsn (Master c) = GetDSN cfg \<and> dsn (Replica c) = GetDSN (cfg\<lparr>DBHost := DBReplicaHost cfg\<rparr>)
        \<and> ping (Master c) = None \<and> ping (Replica c) = None
        \<and> MaxOpenConns (Master c) = 25 \<and> MaxOpenConns (Replica c) = 25
        \<and> cb_state (ReplicaBreaker c) = StateClosed \<and> failureCount (ReplicaBreaker c) = 0
    | Inl e \<Rightarrow> (\<exists>cause. errors_Is e cause \<and> (node_fails sql_open ping (GetDSN cfg) cause
        \<or> node_fails sql_open ping (GetDSN (cfg\<lparr>DBHost := DBReplicaHost cfg\<rparr>)) cause))"
proof -
  have pool: "dsn (configurePool p) = s" "MaxOpenConns (configurePool p) = 25" if "sql_open s = Inr p" for s p
    using opens[OF that] by (simp_all add: configurePool_def)
  have wrapped: "\<exists>cause. errors_Is (Errorf msg e post) cause \<and> P cause" if "P e" for msg e post P
    using that by (intro exI[of _ e]) simp
  have fails: "sql_open s = Inl e \<Longrightarrow> node_fails sql_open ping s e"
    "sql_open s = Inr p \<Longrightarrow> ping (configurePool p) = Some e \<Longrightarrow> node_fails sql_open ping s e" for s p e
    by (simp_all add: node_fails_def)
  show ?thesis
    unfolding InitCluster_GetDSN
    by (auto simp: pool init_breaker_def fails simp del: errors_Is.simps intro!: wrapped
        split: sum.splits option.splits)
qed

theorem InitCluster_outcome_witness:
  "case InitCluster (\<lambda>s. Inr \<lparr>dsn = s, MaxOpenConns = 0, MaxIdleConns = 2, ConnMaxLifetime = 0\<rparr>) (\<lambda>_. None)
      (Load [''DB_REPLICA_HOST'' \<mapsto> ''replica'']) of
     Inr c \<Rightarrow> dsn (Replica c) = ''host=replica port=5432 user=postgres password=secretpassword dbname=vaultpay sslmode=disable''
   | Inl e \<Rightarrow> False"
proof -
  let ?open = "\<lambda>s. Inr \<lparr>dsn = s, MaxOpenConns = 0, MaxIdleConns = 2, ConnMaxLifetime = 0\<rparr>"
  let ?cfg = "Load [''DB_REPLICA_HOST'' \<mapsto> ''replica'']"
  obtain c where c: "InitCluster ?open (\<lambda>_. None) ?cfg = Inr c" by (simp add: InitCluster_def Let_def)
  from InitCluster_outcome[of ?open "\<lambda>_. None" ?cfg] c
  have "dsn (Replica c) = GetDSN (?cfg\<lparr>DBHost := DBReplicaHost ?cfg\<rparr>)" by simp
  with c show ?thesis by (simp add: GetDSN_def Load_def getEnv_def)
qed

end
