(* ===== verification/Json.thy ===== *)
theory Json
  imports GoTime "HOL-Library.List_Lexorder" "HOL-Library.Char_ord"
begin

text \<open>
  The output side of \<^verbatim>\<open>encoding/json\<close> as the sources use it: objects built from structs
  (fields in declaration order) and from string-keyed maps (keys sorted), strings with Go's
  default escaping, integers, and times in RFC 3339 form with nanoseconds. Strings are byte
  strings holding valid UTF-8, which is what the decoder on the input side produces.
\<close>

section \<open>Times as text\<close>

text \<open>Decimal digits of \<open>n\<close>, padded with zeros on the left to \<open>w\<close> places (lower digits only).\<close>

fun pad_dec :: "nat \<Rightarrow> nat \<Rightarrow> string" where
  "pad_dec 0 n = []"
| "pad_dec (Suc w) n = pad_dec w (n div 10) @ [digit_char (n mod 10)]"

fun trim_zeros :: "string \<Rightarrow> string" where
  "trim_zeros s = rev (dropWhile (\<lambda>c. c = CHR ''0'') (rev s))"

text \<open>The fractional second of layout \<^verbatim>\<open>.999999999\<close>: trailing zeros dropped, nothing for zero.\<close>

definition frac_text :: "nat \<Rightarrow> string" where
  "frac_text ns = (if ns = 0 then [] else CHR ''.'' # trim_zeros (pad_dec 9 ns))"

text \<open>\<^verbatim>\<open>t.Format(time.RFC3339Nano)\<close> for a UTC time in the years 0 to 9999.\<close>

definition format_RFC3339Nano :: "gotime \<Rightarrow> string" where
  "format_RFC3339Nano t =
     (let (y, m, d) = civil_of_days (wall t div day_ns);
          tod = nat (wall t mod day_ns);
          sec = tod div 1000000000
      in pad_dec 4 (nat y) @ ''-'' @ pad_dec 2 m @ ''-'' @ pad_dec 2 (nat d) @ ''T''
         @ pad_dec 2 (sec div 3600) @ '':'' @ pad_dec 2 (sec div 60 mod 60) @ '':''
         @ pad_dec 2 (sec mod 60) @ frac_text (tod mod 1000000000) @ ''Z'')"

lemma length_pad_dec [simp]: "length (pad_dec w n) = w"
  by (induction w arbitrary: n) auto

lemma length_format_RFC3339Nano: "20 \<le> length (format_RFC3339Nano t)"
  by (simp add: format_RFC3339Nano_def Let_def split: prod.splits)

section \<open>Values and their encoding\<close>

datatype json =
    JNull
  | JInt int
  | JString string
  | JTime gotime
  | JArray "json list"
  | JObject "(string \<times> json) list"

definition hex4 :: "nat \<Rightarrow> string" where
  "hex4 n = map (\<lambda>k. digit_char (n div 16 ^ k mod 16)) [3, 2, 1, 0]"

text \<open>Escaping of one byte (\<^verbatim>\<open>appendString\<close> with HTML escaping on).\<close>

definition json_escape :: "char \<Rightarrow> string" where
  "json_escape c =
     (let n = (of_char c :: nat) in
      if n = 34 \<or> n = 92 then [CHR 0x5C, c]
      else if n = 8 then CHR 0x5C # ''b''
      else if n = 12 then CHR 0x5C # ''f''
      else if n = 10 then CHR 0x5C # ''n''
      else if n = 13 then CHR 0x5C # ''r''
      else if n = 9 then CHR 0x5C # ''t''
      else if n < 32 \<or> n = 60 \<or> n = 62 \<or> n = 38 then CHR 0x5C # CHR ''u'' # hex4 n
      else [c])"

text \<open>U+2028 and U+2029 (bytes E2 80 A8 and E2 80 A9) are escaped as well.\<close>

fun json_body :: "string \<Rightarrow> string" where
  "json_body (a # b # c # s) =
     (if a = CHR 0xE2 \<and> b = CHR 0x80 \<and> c \<in> {CHR 0xA8, CHR 0xA9}
      then CHR 0x5C # ''u202'' @ [digit_char (of_char c - 160)] @ json_body s
      else json_escape a @ json_body (b # c # s))"
| "json_body (a # s) = json_escape a @ json_body s"
| "json_body [] = []"

definition json_string :: "string \<Rightarrow> string" where
  "json_string s = CHR 0x22 # json_body s @ [CHR 0x22]"

fun join :: "string \<Rightarrow> string list \<Rightarrow> string" where
  "join sep [] = []"
| "join sep [x] = x"
| "join sep (x # y # ys) = x @ sep @ join sep (y # ys)"

fun json_Marshal :: "json \<Rightarrow> string" where
  "json_Marshal JNull = ''null''"
| "json_Marshal (JInt n) = itoa n"
| "json_Marshal (JString s) = json_string s"
| "json_Marshal (JTime t) = json_string (format_RFC3339Nano t)"
| "json_Marshal (JArray vs) = ''['' @ join '','' (map json_Marshal vs) @ '']''"
| "json_Marshal (JObject kvs) =
     ''{'' @ join '','' (map (\<lambda>(k, v). json_string k @ '':'' @ json_Marshal v) kvs) @ ''}''"

text \<open>A \<^verbatim>\<open>map[string]T\<close> is written with its keys in increasing byte order.\<close>

definition json_map :: "(string \<times> json) list \<Rightarrow> json" where
  "json_map kvs = JObject (sort_key fst kvs)"

text \<open>\<^verbatim>\<open>json.NewEncoder(w).Encode(v)\<close> writes the encoding and a newline.\<close>

definition json_Encode :: "json \<Rightarrow> string" where
  "json_Encode v = json_Marshal v @ [CHR 0x0A]"

end
