(* ===== verification/Database.thy ===== *)
theory Database
  imports Json "HOL-Library.Multiset"
begin

text \<open>
  The relational schema of \<^verbatim>\<open>migrations/\<close> and the protocol of \<^verbatim>\<open>database/sql\<close>
  transactions. A table is the list of its rows in heap order; the constraints of the
  schema (primary and foreign keys, uniqueness, the enum, the range of \<^verbatim>\<open>BIGINT\<close>) are
  checks of the statements. Everything the PostgreSQL engine decides on its own is the
  argument \<open>pg\<close> of the statements: whether it refuses a statement (a lost connection, a
  cancelled context, a serialization failure), the values of \<^verbatim>\<open>gen_random_uuid()\<close> and of the
  transaction timestamp, the input syntax of \<^verbatim>\<open>uuid\<close> and \<^verbatim>\<open>jsonb\<close>, the collation of text, the
  resolution of timestamps (\<open>ts_in\<close>), the number of characters of a text (\<open>char_len\<close>), which of
  several rows comes first without an \<^verbatim>\<open>ORDER BY\<close> (\<open>row_pick\<close>) and in which order they come
  (\<open>row_rank\<close>), how a timestamp is printed as text (\<open>ts_text\<close>), and the outcome of a commit. A
  transaction works on a copy of the committed state that the commit publishes. Here it is one step;
  that the statements of concurrent transactions amount to such steps is shown in \<open>Concurrency\<close>.
\<close>

section \<open>Rows\<close>

record user_row =
  usr_id :: string
  usr_email :: string
  usr_balance :: int
  usr_currency :: string
  usr_created_at :: int

record key_row =
  key_id :: string
  key_user_id :: string
  key_hash :: string
  key_label :: string
  key_created_at :: int

record payment_row =
  pay_id :: string
  pay_user_id :: string
  pay_amount :: int
  pay_currency :: string
  pay_status :: string
  pay_created_at :: int
  pay_updated_at :: int

record outbox_row =
  ob_id :: string
  ob_aggregate_type :: string
  ob_aggregate_id :: string
  ob_event_type :: string
  ob_payload :: string
  ob_status :: string
  ob_retry_count :: int
  ob_created_at :: int
  ob_processed_at :: "int option"

record event_row =
  ev_id :: int
  ev_payment_id :: string
  ev_event_type :: string
  ev_payload :: string
  ev_created_at :: int

record subscription_row =
  sbr_id :: string
  sbr_merchant_id :: string
  sbr_plan_name :: string
  sbr_billing_period :: string
  sbr_status :: string
  sbr_period_start :: int
  sbr_period_end :: int
  sbr_created_at :: int
  sbr_updated_at :: int

text \<open>
  The columns \<^verbatim>\<open>idempotency_key\<close> and \<^verbatim>\<open>provider_tx_id\<close> of \<^verbatim>\<open>payments\<close> are nullable and no
  statement of the sources reads or writes them.
\<close>

record db =
  tbl_users :: "user_row list"
  tbl_api_keys :: "key_row list"
  tbl_payments :: "payment_row list"
  tbl_outbox :: "outbox_row list"
  tbl_events :: "event_row list"
  tbl_subscriptions :: "subscription_row list"
  seq_events :: int

definition empty_db :: db where
  "empty_db = \<lparr>tbl_users = [], tbl_api_keys = [], tbl_payments = [], tbl_outbox = [],
     tbl_events = [], tbl_subscriptions = [], seq_events = 1\<rparr>"

definition payment_status_enum :: "string list" where
  "payment_status_enum = [''pending'', ''processing'', ''succeeded'', ''failed'', ''refunded'']"

section \<open>The engine\<close>

text \<open>The statements the sources issue.\<close>

datatype stmt =
    S_begin
  | S_select_balance | S_debit_user | S_insert_payment
  | S_select_payment | S_credit_user | S_mark_refunded
  | S_update_status | S_select_page
  | S_insert_outbox | S_select_pending | S_update_outbox string
  | S_insert_user | S_insert_key
  | S_insert_event | S_select_events | S_select_transitions
  | S_insert_subscription | S_select_subscription | S_update_subscription
  | S_insert_log | S_select_log | S_select_enum

text \<open>
  The outcome of \<^verbatim>\<open>COMMIT\<close>: done; refused, with the transaction rolled back; or done with the
  reply lost, so that the client sees an error although the transaction is durable.
\<close>

datatype commit_outcome = CommitOk | CommitRefused goerr | CommitLost goerr

record pg =
  fault :: "stmt \<Rightarrow> goerr option"
  rows_lost :: "stmt \<Rightarrow> nat option"
  commit_out :: commit_outcome
  gen_uuid :: "stmt \<Rightarrow> string"
  tx_now :: int
  uuid_in :: "string \<Rightarrow> string option"
  jsonb_in :: "string \<Rightarrow> string option"
  text_less :: "string \<Rightarrow> string \<Rightarrow> bool"
  ts_in :: "int \<Rightarrow> int"
  char_len :: "string \<Rightarrow> nat"
  row_pick :: "nat \<Rightarrow> nat"
  row_rank :: "nat \<Rightarrow> nat"
  ts_text :: "int \<Rightarrow> string"

definition sql_ErrNoRows :: goerr where
  "sql_ErrNoRows = ErrNew ''sql: no rows in result set''"

definition pq_error :: "string \<Rightarrow> goerr" where
  "pq_error m = ErrNew (''pq: '' @ m)"

definition exec :: "pg \<Rightarrow> stmt \<Rightarrow> 'a result \<Rightarrow> 'a result" where
  "exec pg st k = (case fault pg st of Some e \<Rightarrow> Inl e | None \<Rightarrow> k)"

definition uuid_arg :: "pg \<Rightarrow> string \<Rightarrow> (string \<Rightarrow> 'a result) \<Rightarrow> 'a result" where
  "uuid_arg pg s k = (case uuid_in pg s of
     None \<Rightarrow> Inl (pq_error ''invalid input syntax for type uuid'') | Some u \<Rightarrow> k u)"

definition jsonb_arg :: "pg \<Rightarrow> string \<Rightarrow> (string \<Rightarrow> 'a result) \<Rightarrow> 'a result" where
  "jsonb_arg pg s k = (case jsonb_in pg s of
     None \<Rightarrow> Inl (pq_error ''invalid input syntax for type json'') | Some j \<Rightarrow> k j)"

text \<open>
  What iterating \<^verbatim>\<open>rows.Next()\<close> yields: all rows, or the first \<open>n\<close> of them when the connection
  dies after \<open>n\<close> rows (\<^verbatim>\<open>rows.Next\<close> then returns false; the error is only in \<^verbatim>\<open>rows.Err()\<close>).
\<close>

definition fetched :: "pg \<Rightarrow> stmt \<Rightarrow> 'r list \<Rightarrow> 'r list" where
  "fetched pg st rows = (case rows_lost pg st of None \<Rightarrow> rows | Some n \<Rightarrow> take n rows)"

text \<open>The rows of a query without an \<^verbatim>\<open>ORDER BY\<close>: some permutation of them.\<close>

definition unordered :: "pg \<Rightarrow> 'r list \<Rightarrow> 'r list" where
  "unordered pg rows = map snd (sort_key (\<lambda>(i, r). row_rank pg i) (zip [0..<length rows] rows))"

lemma mset_unordered [simp]: "mset (unordered pg rows) = mset rows"
proof -
  have "mset (unordered pg rows) = image_mset snd (mset (zip [0..<length rows] rows))"
    by (simp add: unordered_def)
  also have "\<dots> = mset (map snd (zip [0..<length rows] rows))" by (rule mset_map[symmetric])
  also have "map snd (zip [0..<length rows] rows) = rows" by (rule map_snd_zip) simp
  finally show ?thesis .
qed

lemma set_unordered [simp]: "set (unordered pg rows) = set rows"
  by (rule mset_eq_setD) simp

lemma length_unordered [simp]: "length (unordered pg rows) = length rows"
  by (rule mset_eq_length) simp

definition db_BeginTx :: "pg \<Rightarrow> db \<Rightarrow> db result" where
  "db_BeginTx pg d = exec pg S_begin (Inr d)"

text \<open>\<open>tx_Commit pg tx d\<close>: the committed state afterwards and the error the client sees.\<close>

definition tx_Commit :: "pg \<Rightarrow> 'd \<Rightarrow> 'd \<Rightarrow> 'd \<times> goerr option" where
  "tx_Commit pg tx d = (case commit_out pg of
     CommitOk \<Rightarrow> (tx, None) | CommitRefused e \<Rightarrow> (d, Some e) | CommitLost e \<Rightarrow> (tx, Some e))"

text \<open>A statement outside a transaction is its own transaction.\<close>

definition autocommit :: "pg \<Rightarrow> 'd \<Rightarrow> ('a \<times> 'd) result \<Rightarrow> 'd \<times> 'a result" where
  "autocommit pg d r = (case r of
     Inl e \<Rightarrow> (d, Inl e)
   | Inr (x, d') \<Rightarrow> (case tx_Commit pg d' d of (d'', Some e) \<Rightarrow> (d'', Inl e) | (d'', None) \<Rightarrow> (d'', Inr x)))"

lemmas engine_defs [sql_defs] = exec_def uuid_arg_def jsonb_arg_def db_BeginTx_def tx_Commit_def
  autocommit_def

text \<open>An engine that executes every statement, delivers every row and commits.\<close>

definition healthy :: "pg \<Rightarrow> bool" where
  "healthy pg \<longleftrightarrow> (\<forall>st. fault pg st = None) \<and> (\<forall>st. rows_lost pg st = None) \<and> commit_out pg = CommitOk"

lemma tx_Commit_cases:
  "fst (tx_Commit pg tx d) = tx \<or> fst (tx_Commit pg tx d) = d"
  "snd (tx_Commit pg tx d) = None \<Longrightarrow> fst (tx_Commit pg tx d) = tx"
  by (auto simp: tx_Commit_def split: commit_outcome.splits)

lemma autocommit_cases:
  assumes "autocommit pg d r = (d', res)"
  shows "d' = d \<or> (\<exists>x. r = Inr (x, d'))" and "res = Inr x \<Longrightarrow> r = Inr (x, d')"
  using assms by (auto simp: autocommit_def tx_Commit_def
      split: sum.splits prod.splits option.splits commit_outcome.splits)

section \<open>Lookups\<close>

definition find_user :: "string \<Rightarrow> db \<Rightarrow> user_row option" where
  "find_user u d = List.find (\<lambda>r. usr_id r = u) (tbl_users d)"

definition find_payment :: "string \<Rightarrow> db \<Rightarrow> payment_row option" where
  "find_payment i d = List.find (\<lambda>r. pay_id r = i) (tbl_payments d)"

text \<open>\<open>UPDATE users SET balance = balance + delta WHERE id = u\<close>, refused when a row leaves \<^verbatim>\<open>BIGINT\<close>.\<close>

definition add_balance :: "int \<Rightarrow> string \<Rightarrow> db \<Rightarrow> db result" where
  "add_balance delta u d =
     (if list_all (\<lambda>r. usr_id r = u \<longrightarrow> is_int64 (usr_balance r + delta)) (tbl_users d)
      then Inr (d\<lparr>tbl_users := update_where (\<lambda>r. usr_id r = u)
             (\<lambda>r. r\<lparr>usr_balance := usr_balance r + delta\<rparr>) (tbl_users d)\<rparr>)
      else Inl (pq_error ''bigint out of range''))"

section \<open>Well-formed databases\<close>

definition db_ok :: "db \<Rightarrow> bool" where
  "db_ok d \<longleftrightarrow>
     distinct (map usr_id (tbl_users d)) \<and> distinct (map usr_email (tbl_users d))
   \<and> distinct (map pay_id (tbl_payments d))
   \<and> distinct (map ob_id (tbl_outbox d))
   \<and> (\<forall>r \<in> set (tbl_users d). is_int64 (usr_balance r))
   \<and> (\<forall>p \<in> set (tbl_payments d). pay_user_id p \<in> usr_id ` set (tbl_users d)
        \<and> pay_status p \<in> set payment_status_enum)"

section \<open>What the ledger holds for a user\<close>

definition balance_of :: "string \<Rightarrow> db \<Rightarrow> int" where
  "balance_of u d = sum_list (map usr_balance (filter (\<lambda>r. usr_id r = u) (tbl_users d)))"

definition settled_of :: "string \<Rightarrow> db \<Rightarrow> int" where
  "settled_of u d = sum_list (map pay_amount
     (filter (\<lambda>p. pay_user_id p = u \<and> pay_status p = ''succeeded'') (tbl_payments d)))"

text \<open>The wallet balance plus everything charged and not refunded: constant under payments.\<close>

definition holdings :: "string \<Rightarrow> db \<Rightarrow> int" where
  "holdings u d = balance_of u d + settled_of u d"

subsection \<open>Lemmas\<close>

lemma add_balance_Inr:
  assumes "add_balance delta u d = Inr d'"
  shows "d' = d\<lparr>tbl_users := update_where (\<lambda>r. usr_id r = u)
             (\<lambda>r. r\<lparr>usr_balance := usr_balance r + delta\<rparr>) (tbl_users d)\<rparr>"
    and "\<And>r. r \<in> set (tbl_users d) \<Longrightarrow> usr_id r = u \<Longrightarrow> is_int64 (usr_balance r + delta)"
  using assms by (auto simp: add_balance_def list_all_iff split: if_splits)

lemma add_balance_frame:
  assumes "add_balance delta u d = Inr d'"
  shows "map usr_id (tbl_users d') = map usr_id (tbl_users d)"
    and "map usr_email (tbl_users d') = map usr_email (tbl_users d)"
    and "tbl_payments d' = tbl_payments d" and "tbl_outbox d' = tbl_outbox d"
    and "tbl_api_keys d' = tbl_api_keys d" and "tbl_events d' = tbl_events d"
    and "seq_events d' = seq_events d" and "tbl_subscriptions d' = tbl_subscriptions d"
    and "usr_id ` set (tbl_users d') = usr_id ` set (tbl_users d)"
proof -
  note d' = add_balance_Inr(1)[OF assms]
  show ids: "map usr_id (tbl_users d') = map usr_id (tbl_users d)"
    and "map usr_email (tbl_users d') = map usr_email (tbl_users d)"
    by (simp_all add: d' map_update_where_frame)
  show "tbl_payments d' = tbl_payments d" "tbl_outbox d' = tbl_outbox d"
    "tbl_api_keys d' = tbl_api_keys d" "tbl_events d' = tbl_events d"
    "seq_events d' = seq_events d" "tbl_subscriptions d' = tbl_subscriptions d"
    by (simp_all add: d')
  show "usr_id ` set (tbl_users d') = usr_id ` set (tbl_users d)"
    using ids by (metis list.set_map)
qed

lemma balance_of_update_other:
  "u \<noteq> v \<Longrightarrow> sum_list (map usr_balance (filter (\<lambda>r. usr_id r = u)
     (update_where (\<lambda>r. usr_id r = v) (\<lambda>r. r\<lparr>usr_balance := usr_balance r + delta\<rparr>) rows)))
   = sum_list (map usr_balance (filter (\<lambda>r. usr_id r = u) rows))"
  by (induction rows) auto

lemma filter_key_find:
  "distinct (map k rows) \<Longrightarrow> filter (\<lambda>r. k r = i) rows =
     (case List.find (\<lambda>r. k r = i) rows of None \<Rightarrow> [] | Some r \<Rightarrow> [r])"
proof (induction rows)
  case (Cons r rows)
  have "filter (\<lambda>x. k x = k r) rows = []" using Cons.prems by (auto simp: filter_empty_conv image_iff)
  with Cons show ?case by auto
qed simp

lemma balance_of_find:
  "distinct (map usr_id (tbl_users d)) \<Longrightarrow>
     balance_of u d = (case find_user u d of None \<Rightarrow> 0 | Some r \<Rightarrow> usr_balance r)"
  by (auto simp: balance_of_def filter_key_find find_user_def split: option.splits)

lemma add_balance_balance_of:
  assumes "add_balance delta u d = Inr d'" and "distinct (map usr_id (tbl_users d))"
    and "find_user u d = Some r"
  shows "balance_of v d' = balance_of v d + (if v = u then delta else 0)"
proof -
  note d' = add_balance_Inr(1)[OF assms(1)]
  have dist': "distinct (map usr_id (tbl_users d'))"
    using assms(2) by (simp add: add_balance_frame(1)[OF assms(1)])
  show ?thesis
  proof (cases "v = u")
    case True
    have "find_user u d' = Some (r\<lparr>usr_balance := usr_balance r + delta\<rparr>)"
      using assms(3) by (simp add: d' find_user_def find_update_where_same)
    with True assms(2,3) dist' show ?thesis by (simp add: balance_of_find)
  next
    case False
    then show ?thesis by (simp add: d' balance_of_def balance_of_update_other)
  qed
qed

lemma add_balance_db_ok:
  assumes "db_ok d" and "add_balance delta u d = Inr d'"
  shows "db_ok d'"
proof -
  have "is_int64 (usr_balance r)" if "r \<in> set (tbl_users d')" for r
    using that assms add_balance_Inr(2)[OF assms(2)]
    by (auto simp: add_balance_Inr(1)[OF assms(2)] set_update_where db_ok_def)
  with assms(1) show ?thesis
    by (simp add: db_ok_def add_balance_frame[OF assms(2)])
qed

lemma find_user_None: "find_user u d = None \<longleftrightarrow> u \<notin> usr_id ` set (tbl_users d)"
  by (auto simp: find_user_def find_None_iff)

lemma find_user_Some: "find_user u d = Some r \<Longrightarrow> r \<in> set (tbl_users d) \<and> usr_id r = u"
  by (auto simp: find_user_def dest: find_Some_set)

lemma find_payment_Some: "find_payment i d = Some r \<Longrightarrow> r \<in> set (tbl_payments d) \<and> pay_id r = i"
  by (auto simp: find_payment_def dest: find_Some_set)

section \<open>A concrete engine\<close>

text \<open>The engine of the closed examples: no failures, non-empty ids, text compared bytewise.\<close>

definition pg0 :: pg where
  "pg0 = \<lparr>fault = (\<lambda>_. None), rows_lost = (\<lambda>_. None), commit_out = CommitOk,
     gen_uuid = (\<lambda>st. if st = S_insert_payment then ''pay-1'' else ''evt-1''), tx_now = 100,
     uuid_in = (\<lambda>s. if s = '''' then None else Some s), jsonb_in = Some,
     text_less = (<), ts_in = (\<lambda>t. 1000 * (t div 1000)), char_len = length, row_pick = (\<lambda>_. 0),
     row_rank = (\<lambda>i. i), ts_text = (\<lambda>_. ''1970-01-01 00:00:00+00'')\<rparr>"

end
