(* ===== verification/PaymentRepo.thy ===== *)
theory PaymentRepo
  imports Database
begin

text \<open>
  \<^verbatim>\<open>internal/repository/payment_repo.go\<close>: the SQL payment repository. Each SQL statement is a
  definition over the tables; the repository methods compose them with the error wrapping
  and early returns of the source. Methods that own their transaction return the
  committed database beside their result.
\<close>

record Payment =
  p_ID :: string
  p_UserID :: string
  p_Amount :: int
  p_Currency :: string
  p_Status :: string
  p_CreatedAt :: gotime
  p_UpdatedAt :: gotime

record Transaction =
  t_ID :: string
  t_Amount :: int
  t_Currency :: string
  t_Status :: string
  t_CreatedAt :: gotime

record TransactionQuery =
  q_Limit :: int
  q_NextCursor :: string

definition db_time :: "int \<Rightarrow> gotime" where
  "db_time t = \<lparr>wall = t, mono = None\<rparr>"

section \<open>Statements\<close>

definition sql_select_balance :: "pg \<Rightarrow> db \<Rightarrow> string \<Rightarrow> int result" where
  "sql_select_balance pg tx userID =
     exec pg S_select_balance (uuid_arg pg userID (\<lambda>u.
       case find_user u tx of None \<Rightarrow> Inl sql_ErrNoRows | Some r \<Rightarrow> Inr (usr_balance r)))"

definition sql_debit_user :: "pg \<Rightarrow> db \<Rightarrow> int \<Rightarrow> string \<Rightarrow> db result" where
  "sql_debit_user pg tx amount userID =
     exec pg S_debit_user (uuid_arg pg userID (\<lambda>u. add_balance (- amount) u tx))"

definition new_payment_row :: "pg \<Rightarrow> string \<Rightarrow> int \<Rightarrow> string \<Rightarrow> payment_row" where
  "new_payment_row pg u amount currency =
     \<lparr>pay_id = gen_uuid pg S_insert_payment, pay_user_id = u, pay_amount = amount,
      pay_currency = currency, pay_status = ''succeeded'',
      pay_created_at = tx_now pg, pay_updated_at = tx_now pg\<rparr>"

definition sql_insert_payment :: "pg \<Rightarrow> db \<Rightarrow> string \<Rightarrow> int \<Rightarrow> string \<Rightarrow> (payment_row \<times> db) result" where
  "sql_insert_payment pg tx userID amount currency =
     exec pg S_insert_payment (uuid_arg pg userID (\<lambda>u.
       let row = new_payment_row pg u amount currency
       in if find_user u tx = None
          then Inl (pq_error ''insert or update on table payments violates foreign key constraint payments_user_id_fkey'')
          else if find_payment (pay_id row) tx \<noteq> None
          then Inl (pq_error ''duplicate key value violates unique constraint payments_pkey'')
          else Inr (row, tx\<lparr>tbl_payments := tbl_payments tx @ [row]\<rparr>)))"

definition sql_select_payment :: "pg \<Rightarrow> db \<Rightarrow> string \<Rightarrow> payment_row result" where
  "sql_select_payment pg tx paymentID =
     exec pg S_select_payment (uuid_arg pg paymentID (\<lambda>i.
       case find_payment i tx of None \<Rightarrow> Inl sql_ErrNoRows | Some r \<Rightarrow> Inr r))"

definition sql_credit_user :: "pg \<Rightarrow> db \<Rightarrow> int \<Rightarrow> string \<Rightarrow> db result" where
  "sql_credit_user pg tx amount userID =
     exec pg S_credit_user (uuid_arg pg userID (\<lambda>u. add_balance amount u tx))"

definition set_status :: "string \<Rightarrow> int \<Rightarrow> string \<Rightarrow> db \<Rightarrow> db" where
  "set_status status t i d =
     d\<lparr>tbl_payments := update_where (\<lambda>r. pay_id r = i)
        (\<lambda>r. r\<lparr>pay_status := status, pay_updated_at := t\<rparr>) (tbl_payments d)\<rparr>"

definition sql_mark_refunded :: "pg \<Rightarrow> db \<Rightarrow> string \<Rightarrow> (payment_row \<times> db) result" where
  "sql_mark_refunded pg tx paymentID =
     exec pg S_mark_refunded (uuid_arg pg paymentID (\<lambda>i.
       let tx' = set_status ''refunded'' (tx_now pg) i tx
       in case find_payment i tx' of None \<Rightarrow> Inl sql_ErrNoRows | Some r \<Rightarrow> Inr (r, tx')))"

definition sql_update_status :: "pg \<Rightarrow> db \<Rightarrow> string \<Rightarrow> string \<Rightarrow> (unit \<times> db) result" where
  "sql_update_status pg d nextStatus paymentID =
     exec pg S_update_status (uuid_arg pg paymentID (\<lambda>i.
       if nextStatus \<in> set payment_status_enum then Inr ((), set_status nextStatus (tx_now pg) i d)
       else Inl (pq_error ''invalid input value for enum payment_status'')))"

lemmas payment_stmt_defs [sql_defs] = sql_select_balance_def sql_debit_user_def
  sql_insert_payment_def sql_select_payment_def sql_credit_user_def sql_mark_refunded_def
  sql_update_status_def

section \<open>Methods\<close>

definition BeginTx :: "pg \<Rightarrow> db \<Rightarrow> db result" where
  "BeginTx pg d = db_BeginTx pg d"

definition scan_payment :: "payment_row \<Rightarrow> Payment" where
  "scan_payment row =
     \<lparr>p_ID = pay_id row, p_UserID = pay_user_id row, p_Amount = pay_amount row,
      p_Currency = pay_currency row, p_Status = pay_status row,
      p_CreatedAt = db_time (pay_created_at row), p_UpdatedAt = time_zero\<rparr>"

definition CreateTransactionRecordTx ::
    "pg \<Rightarrow> db \<Rightarrow> string \<Rightarrow> int \<Rightarrow> string \<Rightarrow> (Payment \<times> db) result" where
  "CreateTransactionRecordTx pg tx userID amount currency =
     (case sql_select_balance pg tx userID of
        Inl e \<Rightarrow> Inl (wrapf ''failed to look up target user balance inside tx'' e)
      | Inr currentBalance \<Rightarrow>
          if currentBalance < amount
          then Inl (ErrNew ''insufficient account balances to clear transaction'')
          else (case sql_debit_user pg tx amount userID of
             Inl e \<Rightarrow> Inl (wrapf ''failed to adjust user ledger balance accounts'' e)
           | Inr tx1 \<Rightarrow>
               (case sql_insert_payment pg tx1 userID amount currency of
                  Inl e \<Rightarrow> Inl (wrapf ''failed to register permanent payment record log'' e)
                | Inr (row, tx2) \<Rightarrow>
                    Inr (scan_payment row, tx2))))"

definition CreateTransactionRecord ::
    "pg \<Rightarrow> db \<Rightarrow> string \<Rightarrow> int \<Rightarrow> string \<Rightarrow> db \<times> Payment result" where
  "CreateTransactionRecord pg d userID amount currency =
     (case BeginTx pg d of
        Inl e \<Rightarrow> (d, Inl e)
      | Inr tx \<Rightarrow>
          (case CreateTransactionRecordTx pg tx userID amount currency of
             Inl e \<Rightarrow> (d, Inl e)
           | Inr (p, tx') \<Rightarrow>
               (case tx_Commit pg tx' d of
                  (d', Some e) \<Rightarrow> (d', Inl (wrapf ''failed to commit financial block adjustments'' e))
                | (d', None) \<Rightarrow> (d', Inr p))))"

definition refundable :: "string \<Rightarrow> bool" where
  "refundable status \<longleftrightarrow>
     \<not> (status \<noteq> ''succeeded'' \<and> status \<noteq> ''paid'' \<and> status \<noteq> ''COMPLETED'')"

definition RefundTransactionRecord :: "pg \<Rightarrow> db \<Rightarrow> string \<Rightarrow> db \<times> Payment result" where
  "RefundTransactionRecord pg d paymentID =
     (case db_BeginTx pg d of
        Inl e \<Rightarrow> (d, Inl (wrapf ''failed to open refund transaction'' e))
      | Inr tx \<Rightarrow>
          (case sql_select_payment pg tx paymentID of
             Inl e \<Rightarrow> (d, Inl (wrapf ''payment record not found or lock acquisition timed out'' e))
           | Inr p \<Rightarrow>
               if \<not> refundable (pay_status p)
               then (d, Inl (ErrNew (''invalid state transition: cannot refund a transaction with status ''
                       @ [CHR 0x27] @ pay_status p @ [CHR 0x27])))
               else (case sql_credit_user pg tx (pay_amount p) (pay_user_id p) of
                  Inl e \<Rightarrow> (d, Inl (wrapf ''failed to return funds to user wallet balance'' e))
                | Inr tx1 \<Rightarrow>
                    (case sql_mark_refunded pg tx1 paymentID of
                       Inl e \<Rightarrow> (d, Inl (wrapf ''failed to update payment record lifecycle status'' e))
                     | Inr (row, tx2) \<Rightarrow>
                         (case tx_Commit pg tx2 d of
                            (d', Some e) \<Rightarrow> (d', Inl (wrapf ''failed to commit financial refund block'' e))
                          | (d', None) \<Rightarrow>
                              (d', Inr \<lparr>p_ID = pay_id p, p_UserID = pay_user_id p,
                                 p_Amount = pay_amount p, p_Currency = pay_currency p,
                                 p_Status = pay_status row,
                                 p_CreatedAt = db_time (pay_created_at p),
                                 p_UpdatedAt = db_time (pay_updated_at row)\<rparr>))))))"

definition UpdatePaymentStatus :: "pg \<Rightarrow> db \<Rightarrow> string \<Rightarrow> string \<Rightarrow> db \<times> goerr option" where
  "UpdatePaymentStatus pg d paymentID nextStatus =
     (case autocommit pg d (sql_update_status pg d nextStatus paymentID) of
        (d', Inl e) \<Rightarrow> (d', Some e) | (d', Inr _) \<Rightarrow> (d', None))"

definition sql_select_page :: "pg \<Rightarrow> db \<Rightarrow> string option \<Rightarrow> int \<Rightarrow> payment_row list result" where
  "sql_select_page pg d cursor limit =
     exec pg S_select_page
       (if limit < 0 then Inl (pq_error ''LIMIT must not be negative'')
        else Inr (take (nat limit) (rev (sort_key pay_id
          (filter (\<lambda>r. case cursor of None \<Rightarrow> True | Some c \<Rightarrow> text_less pg (pay_id r) c)
             (tbl_payments d))))))"

definition scan_transaction :: "payment_row \<Rightarrow> Transaction" where
  "scan_transaction r = \<lparr>t_ID = pay_id r, t_Amount = pay_amount r, t_Currency = pay_currency r,
     t_Status = pay_status r, t_CreatedAt = db_time (pay_created_at r)\<rparr>"

text \<open>\<open>d\<close> is the database as the replica shows it.\<close>

definition GetPaginatedTransactions ::
    "pg \<Rightarrow> db \<Rightarrow> TransactionQuery \<Rightarrow> (Transaction list \<times> string) result" where
  "GetPaginatedTransactions pg d q =
     (case sql_select_page pg d (if q_NextCursor q \<noteq> '''' then Some (q_NextCursor q) else None)
             (q_Limit q) of
        Inl e \<Rightarrow> Inl e
      | Inr rows \<Rightarrow>
          (let transactions = map scan_transaction (fetched pg S_select_page rows);
               lastID = (if transactions = [] then '''' else t_ID (last transactions));
               nextPageCursor = (if int (length transactions) = q_Limit q then lastID else '''')
           in Inr (transactions, nextPageCursor)))"

section \<open>Behaviour of the methods\<close>

text \<open>
  The laws of \<^verbatim>\<open>uuid\<close> the repository relies on: what the type prints, it reads back as the
  same value. A ledger is well formed for an engine when the schema holds and the user
  references of its payments are printed values.
\<close>

definition uuid_laws :: "pg \<Rightarrow> bool" where
  "uuid_laws pg \<longleftrightarrow> (\<forall>s u. uuid_in pg s = Some u \<longrightarrow> uuid_in pg u = Some u)"

definition ledger_ok :: "pg \<Rightarrow> db \<Rightarrow> bool" where
  "ledger_ok pg d \<longleftrightarrow> db_ok d \<and> uuid_laws pg
     \<and> (\<forall>p \<in> set (tbl_payments d). uuid_in pg (pay_user_id p) = Some (pay_user_id p))"

lemma ledger_okD:
  "ledger_ok pg d \<Longrightarrow> db_ok d" "ledger_ok pg d \<Longrightarrow> distinct (map usr_id (tbl_users d))"
  "ledger_ok pg d \<Longrightarrow> distinct (map pay_id (tbl_payments d))"
  by (auto simp: ledger_ok_def db_ok_def)

lemma add_balance_ledger_ok:
  "ledger_ok pg d \<Longrightarrow> add_balance delta u d = Inr d' \<Longrightarrow> ledger_ok pg d'"
  by (auto simp: ledger_ok_def add_balance_db_ok add_balance_frame)

subsection \<open>Creating a payment\<close>

lemma CreateTransactionRecordTx_Inr:
  assumes "CreateTransactionRecordTx pg tx userID amount currency = Inr (p, tx')"
  shows "\<exists>u r tx1. uuid_in pg userID = Some u \<and> find_user u tx = Some r \<and> amount \<le> usr_balance r
    \<and> add_balance (- amount) u tx = Inr tx1
    \<and> find_payment (gen_uuid pg S_insert_payment) tx = None
    \<and> tx' = tx1\<lparr>tbl_payments := tbl_payments tx @ [new_payment_row pg u amount currency]\<rparr>
    \<and> p = scan_payment (new_payment_row pg u amount currency)"
proof -
  obtain u where u: "uuid_in pg userID = Some u"
    using assms by (auto simp: CreateTransactionRecordTx_def sql_defs split: option.splits)
  obtain r where r: "find_user u tx = Some r" and le: "amount \<le> usr_balance r"
    using assms u
    by (auto simp: CreateTransactionRecordTx_def sql_defs split: option.splits if_splits)
  obtain tx1 where tx1: "add_balance (- amount) u tx = Inr tx1"
    using assms u r le
    by (auto simp: CreateTransactionRecordTx_def sql_defs split: option.splits if_splits sum.splits)
  have pay: "tbl_payments tx1 = tbl_payments tx" by (rule add_balance_frame[OF tx1])
  show ?thesis
    using assms u r le tx1 pay
    by (auto simp: CreateTransactionRecordTx_def sql_defs Let_def new_payment_row_def find_payment_def
        split: option.splits if_splits)
qed

lemma settled_of_append:
  "settled_of v (d\<lparr>tbl_payments := tbl_payments d @ [row]\<rparr>) = settled_of v d +
     (if pay_user_id row = v \<and> pay_status row = ''succeeded'' then pay_amount row else 0)"
  by (simp add: settled_of_def)

lemma settled_of_cong: "tbl_payments d' = tbl_payments d \<Longrightarrow> settled_of v d' = settled_of v d"
  by (simp add: settled_of_def)

lemma balance_of_cong: "tbl_users d' = tbl_users d \<Longrightarrow> balance_of v d' = balance_of v d"
  by (simp add: balance_of_def)

lemma new_payment_row_simps [simp]:
  "pay_id (new_payment_row pg u amount currency) = gen_uuid pg S_insert_payment"
  "pay_user_id (new_payment_row pg u amount currency) = u"
  "pay_amount (new_payment_row pg u amount currency) = amount"
  "pay_currency (new_payment_row pg u amount currency) = currency"
  "pay_status (new_payment_row pg u amount currency) = ''succeeded''"
  by (simp_all add: new_payment_row_def)

text \<open>
  The effect of a created payment: exactly the charged wallet goes down by the amount, that
  amount becomes settled, nothing else changes, and the ledger stays well formed.
\<close>

lemma CreateTransactionRecordTx_effect:
  assumes ok: "ledger_ok pg tx"
    and run: "CreateTransactionRecordTx pg tx userID amount currency = Inr (p, tx')"
  shows "ledger_ok pg tx'"
    and "uuid_in pg userID = Some (p_UserID p)"
    and "amount \<le> balance_of (p_UserID p) tx"
    and "\<And>v. balance_of v tx' = balance_of v tx - (if v = p_UserID p then amount else 0)"
    and "\<And>v. settled_of v tx' = settled_of v tx + (if v = p_UserID p then amount else 0)"
    and "p_Amount p = amount" and "p_Currency p = currency" and "p_Status p = ''succeeded''"
    and "tbl_outbox tx' = tbl_outbox tx"
    and "map pay_id (tbl_payments tx') = map pay_id (tbl_payments tx) @ [p_ID p]"
proof -
  from CreateTransactionRecordTx_Inr[OF run] obtain u r tx1 where
    u: "uuid_in pg userID = Some u" and r: "find_user u tx = Some r"
    and le: "amount \<le> usr_balance r" and tx1: "add_balance (- amount) u tx = Inr tx1"
    and fresh: "find_payment (gen_uuid pg S_insert_payment) tx = None"
    and tx': "tx' = tx1\<lparr>tbl_payments := tbl_payments tx @ [new_payment_row pg u amount currency]\<rparr>"
    and p: "p = scan_payment (new_payment_row pg u amount currency)"
    by blast
  note frame = add_balance_frame[OF tx1]
  have pu: "p_UserID p = u" by (simp add: p scan_payment_def)
  have dist: "distinct (map usr_id (tbl_users tx))" using ok by (rule ledger_okD)
  show "uuid_in pg userID = Some (p_UserID p)" by (simp add: pu u)
  show "amount \<le> balance_of (p_UserID p) tx" using r le dist by (simp add: pu balance_of_find)
  show "balance_of v tx' = balance_of v tx - (if v = p_UserID p then amount else 0)" for v
    using add_balance_balance_of[OF tx1 dist r, of v] by (simp add: pu tx' balance_of_def)
  show "settled_of v tx' = settled_of v tx + (if v = p_UserID p then amount else 0)" for v
    using settled_of_append[of v tx1] settled_of_cong[OF frame(3), of v]
    by (simp add: pu tx' frame)
  show "p_Amount p = amount" "p_Currency p = currency" "p_Status p = ''succeeded''"
    by (simp_all add: p scan_payment_def)
  show "tbl_outbox tx' = tbl_outbox tx" by (simp add: tx' frame)
  show "map pay_id (tbl_payments tx') = map pay_id (tbl_payments tx) @ [p_ID p]"
    by (simp add: tx' p scan_payment_def)
  have user: "u \<in> usr_id ` set (tbl_users tx)" using find_user_Some[OF r] by auto
  have canon: "uuid_in pg u = Some u" using ok u by (auto simp: ledger_ok_def uuid_laws_def)
  have new_id: "gen_uuid pg S_insert_payment \<notin> pay_id ` set (tbl_payments tx)"
    using fresh by (auto simp: find_payment_def find_None_iff)
  have "ledger_ok pg tx1" by (rule add_balance_ledger_ok[OF ok tx1])
  then show "ledger_ok pg tx'"
    using user canon new_id
    by (auto simp: ledger_ok_def db_ok_def tx' frame payment_status_enum_def)
qed

lemma CreateTransactionRecordTx_succeeds:
  assumes ok: "db_ok tx" and "\<And>st. fault pg st = None"
    and "uuid_in pg userID = Some u" and r: "find_user u tx = Some r"
    and amt: "0 \<le> amount" "amount \<le> usr_balance r"
    and fresh: "find_payment (gen_uuid pg S_insert_payment) tx = None"
  shows "\<exists>tx1. add_balance (- amount) u tx = Inr tx1 \<and>
    CreateTransactionRecordTx pg tx userID amount currency =
      Inr (scan_payment (new_payment_row pg u amount currency),
        tx1\<lparr>tbl_payments := tbl_payments tx @ [new_payment_row pg u amount currency]\<rparr>)"
proof -
  have "is_int64 (usr_balance x + - amount)" if x: "x \<in> set (tbl_users tx)" "usr_id x = u" for x
  proof -
    have "List.find (\<lambda>y. usr_id y = usr_id x) (tbl_users tx) = Some x"
      using ok x by (intro find_key_unique) (auto simp: db_ok_def)
    with x r have "x = r" by (simp add: find_user_def)
    with ok find_user_Some[OF r] amt show ?thesis
      by (auto simp: db_ok_def is_int64_def int64_bounds)
  qed
  then have "list_all (\<lambda>x. usr_id x = u \<longrightarrow> is_int64 (usr_balance x + - amount)) (tbl_users tx)"
    by (simp add: list_all_iff)
  then obtain tx1 where tx1: "add_balance (- amount) u tx = Inr tx1"
    unfolding add_balance_def by simp
  note frame = add_balance_frame[OF tx1]
  have "find_user u tx1 \<noteq> None"
    using r find_user_None[of u tx1] find_user_None[of u tx] frame(9) by simp
  moreover have "find_payment (gen_uuid pg S_insert_payment) tx1 = None"
    using fresh by (simp add: find_payment_def frame)
  ultimately show ?thesis
    using assms tx1 frame(3)
    by (auto simp: CreateTransactionRecordTx_def sql_defs Let_def)
qed

subsection \<open>Refunding a payment\<close>

lemma refundable_iff:
  "refundable status \<longleftrightarrow> status = ''succeeded'' \<or> status = ''paid'' \<or> status = ''COMPLETED''"
  by (auto simp: refundable_def)

text \<open>Of the statuses the schema admits, only \<^verbatim>\<open>succeeded\<close> is refundable.\<close>

lemma refundable_enum:
  "status \<in> set payment_status_enum \<Longrightarrow> refundable status \<longleftrightarrow> status = ''succeeded''"
  by (auto simp: refundable_iff payment_status_enum_def)

lemma find_payment_set_status:
  "find_payment i (set_status st t j d) = (case find_payment i d of None \<Rightarrow> None
     | Some r \<Rightarrow> Some (if i = j then r\<lparr>pay_status := st, pay_updated_at := t\<rparr> else r))"
  by (simp add: find_payment_def set_status_def find_update_where_same)

lemma set_status_frame [simp]:
  "tbl_users (set_status st t i d) = tbl_users d"
  "tbl_outbox (set_status st t i d) = tbl_outbox d"
  "map pay_id (tbl_payments (set_status st t i d)) = map pay_id (tbl_payments d)"
  by (simp_all add: set_status_def map_update_where_frame)

lemma settled_of_set_status:
  assumes dist: "distinct (map pay_id (tbl_payments d))" and r: "find_payment i d = Some r"
    and "pay_status r = ''succeeded''" and "st \<noteq> ''succeeded''"
  shows "settled_of v (set_status st t i d) =
    settled_of v d - (if v = pay_user_id r then pay_amount r else 0)"
proof -
  let ?g = "\<lambda>p. if pay_user_id p = v \<and> pay_status p = ''succeeded'' then pay_amount p else 0"
  have settled: "settled_of v d' = sum_list (map ?g (tbl_payments d'))" for d'
    unfolding settled_of_def by (induction "tbl_payments d'" rule: list.induct)
      (auto simp: sum_list_map_filter')
  have "sum_list (map ?g (tbl_payments (set_status st t i d))) = sum_list (map ?g (tbl_payments d))
      + ?g (r\<lparr>pay_status := st, pay_updated_at := t\<rparr>) - ?g r"
    unfolding set_status_def using dist r
    by (simp add: sum_list_update_where_key[where k = pay_id] find_payment_def)
  then show ?thesis using assms(3,4) by (simp add: settled)
qed

lemma set_status_ledger_ok:
  "ledger_ok pg d \<Longrightarrow> st \<in> set payment_status_enum \<Longrightarrow> ledger_ok pg (set_status st t i d)"
  by (auto simp: ledger_ok_def db_ok_def set_update_where map_update_where_frame set_status_def)

text \<open>
  What a refund can do: either the database is unchanged, or the payment was refundable, its
  amount went back to the wallet it came from and its status is now \<^verbatim>\<open>refunded\<close>. Success
  implies the second.
\<close>

definition refund_effect :: "pg \<Rightarrow> string \<Rightarrow> db \<Rightarrow> db \<Rightarrow> bool" where
  "refund_effect pg paymentID d d' \<longleftrightarrow> (\<exists>i r d1. uuid_in pg paymentID = Some i
     \<and> find_payment i d = Some r \<and> refundable (pay_status r)
     \<and> add_balance (pay_amount r) (pay_user_id r) d = Inr d1
     \<and> d' = set_status ''refunded'' (tx_now pg) i d1)"

lemma RefundTransactionRecord_cases:
  assumes "ledger_ok pg d" and "RefundTransactionRecord pg d paymentID = (d', res)"
  shows "d' = d \<or> refund_effect pg paymentID d d'"
    and "res = Inr p \<Longrightarrow> refund_effect pg paymentID d d' \<and> p_Status p = ''refunded''"
proof -
  have canon: "uuid_in pg (pay_user_id r) = Some (pay_user_id r)"
    if "find_payment i d = Some r" for i r
    using assms(1) find_payment_Some[OF that] by (auto simp: ledger_ok_def)
  have pay: "find_payment i d1 = find_payment i d"
    if "add_balance a u d = Inr d1" for a u d1 i
    by (simp add: find_payment_def add_balance_frame[OF that])
  show "d' = d \<or> refund_effect pg paymentID d d'"
    using assms(2)
    by (auto simp: RefundTransactionRecord_def sql_defs refund_effect_def canon Let_def
        split: option.splits if_splits sum.splits commit_outcome.splits)
  show "refund_effect pg paymentID d d' \<and> p_Status p = ''refunded''" if "res = Inr p"
    using assms(2) that
    by (auto simp: RefundTransactionRecord_def sql_defs refund_effect_def canon Let_def
        find_payment_set_status
        split: option.splits if_splits sum.splits commit_outcome.splits)
qed

lemma refund_effect_ledger:
  assumes ok: "ledger_ok pg d" and "refund_effect pg paymentID d d'"
  shows "ledger_ok pg d'"
    and "\<And>v. holdings v d' = holdings v d"
    and "\<exists>i r. uuid_in pg paymentID = Some i \<and> find_payment i d = Some r
      \<and> pay_status r = ''succeeded''
      \<and> (\<forall>v. balance_of v d' = balance_of v d + (if v = pay_user_id r then pay_amount r else 0))
      \<and> map_option pay_status (find_payment i d') = Some ''refunded''"
    and "map pay_id (tbl_payments d') = map pay_id (tbl_payments d)"
    and "tbl_outbox d' = tbl_outbox d"
proof -
  from assms(2) obtain i r d1 where i: "uuid_in pg paymentID = Some i"
    and r: "find_payment i d = Some r" and ref: "refundable (pay_status r)"
    and d1: "add_balance (pay_amount r) (pay_user_id r) d = Inr d1"
    and d': "d' = set_status ''refunded'' (tx_now pg) i d1"
    by (auto simp: refund_effect_def)
  note frame = add_balance_frame[OF d1]
  have row: "r \<in> set (tbl_payments d)" using find_payment_Some[OF r] by simp
  with ok have enum: "pay_status r \<in> set payment_status_enum"
    and user: "pay_user_id r \<in> usr_id ` set (tbl_users d)"
    by (auto simp: ledger_ok_def db_ok_def)
  then obtain ur where ur: "find_user (pay_user_id r) d = Some ur"
    by (cases "find_user (pay_user_id r) d") (auto simp: find_user_None)
  have succ: "pay_status r = ''succeeded''" using ref enum by (simp add: refundable_enum)
  have ok1: "ledger_ok pg d1" by (rule add_balance_ledger_ok[OF ok d1])
  then show "ledger_ok pg d'"
    by (simp add: d' set_status_ledger_ok payment_status_enum_def)
  have r1: "find_payment i d1 = Some r" using r by (simp add: find_payment_def frame)
  have bal: "balance_of v d' = balance_of v d + (if v = pay_user_id r then pay_amount r else 0)" for v
    using add_balance_balance_of[OF d1 ledger_okD(2)[OF ok] ur, of v]
    by (simp add: d' balance_of_def)
  have settled: "settled_of v d' = settled_of v d - (if v = pay_user_id r then pay_amount r else 0)" for v
    using settled_of_set_status[OF ledger_okD(3)[OF ok1] r1 succ, of "''refunded''"]
    by (simp add: d' settled_of_cong[OF frame(3)])
  show "holdings v d' = holdings v d" for v by (simp add: holdings_def bal settled)
  show "map pay_id (tbl_payments d') = map pay_id (tbl_payments d)" "tbl_outbox d' = tbl_outbox d"
    by (simp_all add: d' frame)
  have "map_option pay_status (find_payment i d') = Some ''refunded''"
    by (simp add: d' find_payment_set_status r1)
  with i r succ bal show "\<exists>i r. uuid_in pg paymentID = Some i \<and> find_payment i d = Some r
      \<and> pay_status r = ''succeeded''
      \<and> (\<forall>v. balance_of v d' = balance_of v d + (if v = pay_user_id r then pay_amount r else 0))
      \<and> map_option pay_status (find_payment i d') = Some ''refunded''"
    by blast
qed

end
