(* ===== verification/PaymentService.thy ===== *)
theory PaymentService
  imports PaymentRepo
begin

text \<open>
  The outbox repository (\<^verbatim>\<open>internal/repository/outbox_repository.go\<close>) and the payment service
  (\<^verbatim>\<open>internal/service/payment_service.go\<close>). The service holds its repositories as interface
  values, so they are records of functions over an arbitrary store; the contracts the
  service relies on are locales, which the SQL repositories are shown to satisfy.
\<close>

section \<open>Outbox repository\<close>

definition sql_insert_outbox ::
    "pg \<Rightarrow> db \<Rightarrow> string \<Rightarrow> string \<Rightarrow> string \<Rightarrow> string \<Rightarrow> db result" where
  "sql_insert_outbox pg tx aggregateType aggregateID eventType payload =
     exec pg S_insert_outbox (jsonb_arg pg payload (\<lambda>j.
       if length aggregateType > 50 \<or> length aggregateID > 100 \<or> length eventType > 50
       then Inl (pq_error ''value too long for type character varying'')
       else if gen_uuid pg S_insert_outbox \<in> ob_id ` set (tbl_outbox tx)
       then Inl (pq_error ''duplicate key value violates unique constraint outbox_events_pkey'')
       else Inr (tx\<lparr>tbl_outbox := tbl_outbox tx @
          [\<lparr>ob_id = gen_uuid pg S_insert_outbox, ob_aggregate_type = aggregateType,
            ob_aggregate_id = aggregateID, ob_event_type = eventType, ob_payload = j,
            ob_status = ''PENDING'', ob_retry_count = 0, ob_created_at = tx_now pg,
            ob_processed_at = None\<rparr>]\<rparr>)))"

definition SaveEventTx ::
    "pg \<Rightarrow> db \<Rightarrow> string \<Rightarrow> string \<Rightarrow> string \<Rightarrow> json \<Rightarrow> db result" where
  "SaveEventTx pg tx aggregateType aggregateID eventType payload =
     sql_insert_outbox pg tx aggregateType aggregateID eventType (json_Marshal payload)"

section \<open>Repository interfaces\<close>

record 'd PaymentRepository =
  repo_BeginTx :: "'d \<Rightarrow> 'd result"
  repo_CreateTransactionRecord :: "'d \<Rightarrow> string \<Rightarrow> int \<Rightarrow> string \<Rightarrow> 'd \<times> Payment result"
  repo_CreateTransactionRecordTx :: "'d \<Rightarrow> string \<Rightarrow> int \<Rightarrow> string \<Rightarrow> (Payment \<times> 'd) result"
  repo_RefundTransactionRecord :: "'d \<Rightarrow> string \<Rightarrow> 'd \<times> Payment result"
  repo_UpdatePaymentStatus :: "'d \<Rightarrow> string \<Rightarrow> string \<Rightarrow> 'd \<times> goerr option"
  repo_GetPaginatedTransactions ::
    "'d \<Rightarrow> TransactionQuery \<Rightarrow> (Transaction list \<times> string) result"

record 'd OutboxRepository =
  repo_SaveEventTx :: "'d \<Rightarrow> string \<Rightarrow> string \<Rightarrow> string \<Rightarrow> json \<Rightarrow> 'd result"

definition NewPaymentRepository :: "pg \<Rightarrow> db PaymentRepository" where
  "NewPaymentRepository pg =
     \<lparr>repo_BeginTx = BeginTx pg, repo_CreateTransactionRecord = CreateTransactionRecord pg,
      repo_CreateTransactionRecordTx = CreateTransactionRecordTx pg,
      repo_RefundTransactionRecord = RefundTransactionRecord pg,
      repo_UpdatePaymentStatus = UpdatePaymentStatus pg,
      repo_GetPaginatedTransactions = GetPaginatedTransactions pg\<rparr>"

definition NewOutboxRepository :: "pg \<Rightarrow> db OutboxRepository" where
  "NewOutboxRepository pg = \<lparr>repo_SaveEventTx = SaveEventTx pg\<rparr>"

section \<open>Payment service\<close>

record 'd PaymentService =
  paymentRepo :: "'d PaymentRepository"
  outboxRepo :: "'d OutboxRepository"

definition NewPaymentService ::
    "'d PaymentRepository \<Rightarrow> 'd OutboxRepository \<Rightarrow> 'd PaymentService" where
  "NewPaymentService pr obr = \<lparr>paymentRepo = pr, outboxRepo = obr\<rparr>"

definition webhookPayload :: "Payment \<Rightarrow> gotime \<Rightarrow> json" where
  "webhookPayload payment now = json_map
     [(''id'', JString (p_ID payment)), (''user_id'', JString (p_UserID payment)),
      (''amount'', JInt (p_Amount payment)), (''currency'', JString (p_Currency payment)),
      (''status'', JString ''payment.succeeded''), (''created_at'', JInt (time_Unix now))]"

text \<open>
  \<open>commit tx d\<close> ends the transaction that started from \<open>d\<close> with working copy \<open>tx\<close>; every
  early return rolls back, which leaves \<open>d\<close>.
\<close>

definition ProcessCharge ::
    "'d PaymentService \<Rightarrow> ('d \<Rightarrow> 'd \<Rightarrow> 'd \<times> goerr option) \<Rightarrow> gotime \<Rightarrow> 'd \<Rightarrow>
     string \<Rightarrow> int \<Rightarrow> string \<Rightarrow> 'd \<times> Payment result" where
  "ProcessCharge s commit now d userID amount currency =
     (if amount \<le> 0 then (d, Inl (ErrNew ''transaction amount must be strictly positive''))
      else case repo_BeginTx (paymentRepo s) d of
        Inl e \<Rightarrow> (d, Inl (wrapf ''failed to initialize payment transaction context'' e))
      | Inr tx \<Rightarrow>
          (case repo_CreateTransactionRecordTx (paymentRepo s) tx userID amount currency of
             Inl e \<Rightarrow> (d, Inl e)
           | Inr (payment, tx1) \<Rightarrow>
               (case repo_SaveEventTx (outboxRepo s) tx1 ''payment'' (p_ID payment)
                       ''payment.succeeded'' (webhookPayload payment now) of
                  Inl e \<Rightarrow> (d, Inl (wrapf ''failed to stage transactional outbox event'' e))
                | Inr tx2 \<Rightarrow>
                    (case commit tx2 d of
                       (d', Some e) \<Rightarrow>
                         (d', Inl (wrapf ''failed to commit payment transaction chain'' e))
                     | (d', None) \<Rightarrow> (d', Inr payment)))))"

definition ProcessRefund :: "'d PaymentService \<Rightarrow> 'd \<Rightarrow> string \<Rightarrow> 'd \<times> Payment result" where
  "ProcessRefund s d paymentID =
     (if paymentID = '''' then (d, Inl (ErrNew ''payment tracking reference ID cannot be empty''))
      else repo_RefundTransactionRecord (paymentRepo s) d paymentID)"

section \<open>What the service relies on\<close>

text \<open>
  The contracts over an abstract view of a store: \<open>acct\<close> is the account a user id denotes, \<open>bal\<close> and
  \<open>settled\<close> are per account; the payment ids \<open>pids\<close> in order of creation and the notified aggregate ids \<open>evs\<close>.
\<close>

locale tx_store =
  fixes commit :: "'d \<Rightarrow> 'd \<Rightarrow> 'd \<times> goerr option"
  assumes commit_atomic: "commit tx d = (d', e) \<Longrightarrow> d' = tx \<or> d' = d"
    and commit_done: "commit tx d = (d', None) \<Longrightarrow> d' = tx"

locale payment_repository =
  fixes repo :: "'d PaymentRepository"
    and ok :: "'d \<Rightarrow> bool"
    and acct :: "string \<Rightarrow> string option"
    and bal :: "string \<Rightarrow> 'd \<Rightarrow> int"
    and settled :: "string \<Rightarrow> 'd \<Rightarrow> int"
    and pids :: "'d \<Rightarrow> string list"
    and evs :: "'d \<Rightarrow> string list"
  assumes begin_tx: "repo_BeginTx repo d = Inr tx \<Longrightarrow> tx = d"
    and create: "ok tx \<Longrightarrow>
      repo_CreateTransactionRecordTx repo tx userID amount currency = Inr (p, tx') \<Longrightarrow>
      ok tx' \<and> acct userID = Some (p_UserID p) \<and> amount \<le> bal (p_UserID p) tx \<and> p_Amount p = amount \<and> p_Currency p = currency
      \<and> p_Status p = ''succeeded''
      \<and> (\<forall>v. bal v tx' = bal v tx - (if v = p_UserID p then amount else 0))
      \<and> (\<forall>v. settled v tx' = settled v tx + (if v = p_UserID p then amount else 0))
      \<and> pids tx' = pids tx @ [p_ID p] \<and> evs tx' = evs tx"
    and refund: "ok d \<Longrightarrow> repo_RefundTransactionRecord repo d paymentID = (d', res) \<Longrightarrow>
      ok d' \<and> pids d' = pids d \<and> evs d' = evs d
      \<and> (\<forall>v. bal v d' + settled v d' = bal v d + settled v d)"

locale outbox_repository =
  fixes orepo :: "'d OutboxRepository"
    and ok :: "'d \<Rightarrow> bool"
    and bal :: "string \<Rightarrow> 'd \<Rightarrow> int"
    and settled :: "string \<Rightarrow> 'd \<Rightarrow> int"
    and pids :: "'d \<Rightarrow> string list"
    and evs :: "'d \<Rightarrow> string list"
  assumes save: "ok tx \<Longrightarrow> repo_SaveEventTx orepo tx atype aid etype payload = Inr tx' \<Longrightarrow>
      ok tx' \<and> (\<forall>v. bal v tx' = bal v tx) \<and> (\<forall>v. settled v tx' = settled v tx)
      \<and> pids tx' = pids tx \<and> evs tx' = evs tx @ [aid]"

text \<open>The effect of a charge of \<open>amount\<close> on the view: what a committed payment \<open>p\<close> means.\<close>

definition charged ::
    "(string \<Rightarrow> 'd \<Rightarrow> int) \<Rightarrow> (string \<Rightarrow> 'd \<Rightarrow> int) \<Rightarrow> ('d \<Rightarrow> string list) \<Rightarrow> ('d \<Rightarrow> string list) \<Rightarrow>
     int \<Rightarrow> string \<Rightarrow> Payment \<Rightarrow> 'd \<Rightarrow> 'd \<Rightarrow> bool" where
  "charged bal settled pids evs amount currency p d d' \<longleftrightarrow>
     0 < amount \<and> amount \<le> bal (p_UserID p) d
   \<and> p_Amount p = amount \<and> p_Currency p = currency \<and> p_Status p = ''succeeded''
   \<and> (\<forall>v. bal v d' = bal v d - (if v = p_UserID p then amount else 0))
   \<and> (\<forall>v. settled v d' = settled v d + (if v = p_UserID p then amount else 0))
   \<and> pids d' = pids d @ [p_ID p] \<and> evs d' = evs d @ [p_ID p]"

locale payment_service =
  tx_store commit +
  payment_repository repo ok acct bal settled pids evs +
  outbox_repository orepo ok bal settled pids evs
  for commit :: "'d \<Rightarrow> 'd \<Rightarrow> 'd \<times> goerr option"
    and repo :: "'d PaymentRepository"
    and orepo :: "'d OutboxRepository"
    and ok :: "'d \<Rightarrow> bool"
    and acct :: "string \<Rightarrow> string option"
    and bal :: "string \<Rightarrow> 'd \<Rightarrow> int"
    and settled :: "string \<Rightarrow> 'd \<Rightarrow> int"
    and pids :: "'d \<Rightarrow> string list"
    and evs :: "'d \<Rightarrow> string list"
begin

lemma charge_atomic:
  assumes ok: "ok d"
    and run: "ProcessCharge (NewPaymentService repo orepo) commit now d userID amount currency = (d', res)"
  shows "(d' = d \<or> (\<exists>p. ok d' \<and> acct userID = Some (p_UserID p) \<and> charged bal settled pids evs amount currency p d d'))
       \<and> (\<forall>p. res = Inr p \<longrightarrow> ok d' \<and> acct userID = Some (p_UserID p) \<and> charged bal settled pids evs amount currency p d d')"
proof (cases "0 < amount \<and> (\<exists>p tx1 tx2.
    repo_BeginTx repo d = Inr d
    \<and> repo_CreateTransactionRecordTx repo d userID amount currency = Inr (p, tx1)
    \<and> repo_SaveEventTx orepo tx1 ''payment'' (p_ID p) ''payment.succeeded'' (webhookPayload p now)
        = Inr tx2)")
  case False
  have "d' = d \<and> (\<exists>e. res = Inl e)"
  proof (cases "repo_BeginTx repo d")
    case (Inl e)
    with run show ?thesis by (auto simp: ProcessCharge_def NewPaymentService_def split: if_splits)
  next
    case (Inr tx)
    with begin_tx have "repo_BeginTx repo d = Inr d" by blast
    with False run show ?thesis
      by (auto simp: ProcessCharge_def NewPaymentService_def split: if_splits sum.splits)
  qed
  then show ?thesis by auto
next
  case True
  then obtain p tx1 tx2 where pos: "0 < amount" and b: "repo_BeginTx repo d = Inr d"
    and c: "repo_CreateTransactionRecordTx repo d userID amount currency = Inr (p, tx1)"
    and s: "repo_SaveEventTx orepo tx1 ''payment'' (p_ID p) ''payment.succeeded''
        (webhookPayload p now) = Inr tx2"
    by blast
  note C = create[OF ok c]
  note S = save[OF _ s] 
  have eff: "ok tx2 \<and> acct userID = Some (p_UserID p) \<and> charged bal settled pids evs amount currency p d tx2"
    using pos C S by (simp add: charged_def)
  obtain e where com: "commit tx2 d = (d', e)" and res: "res = (case e of None \<Rightarrow> Inr p
      | Some x \<Rightarrow> Inl (wrapf ''failed to commit payment transaction chain'' x))"
    using run pos b c s
    by (auto simp: ProcessCharge_def NewPaymentService_def split: prod.splits option.splits)
  show ?thesis
    using commit_atomic[OF com] commit_done[of tx2 d d'] com eff res
    by (auto split: option.splits)
qed

lemma refund_keeps_holdings:
  assumes "ok d" and "ProcessRefund (NewPaymentService repo orepo) d paymentID = (d', res)"
  shows "ok d' \<and> (\<forall>v. bal v d' + settled v d' = bal v d + settled v d)
    \<and> pids d' = pids d \<and> evs d' = evs d"
  using assms refund[OF assms(1), of paymentID]
  by (auto simp: ProcessRefund_def NewPaymentService_def split: if_splits)

end

section \<open>The SQL repositories satisfy the contracts\<close>

definition payment_ids :: "db \<Rightarrow> string list" where
  "payment_ids d = map pay_id (tbl_payments d)"

definition notified_ids :: "db \<Rightarrow> string list" where
  "notified_ids d = map ob_aggregate_id (tbl_outbox d)"

lemma SaveEventTx_Inr:
  assumes "SaveEventTx pg tx atype aid etype payload = Inr tx'"
  shows "\<exists>row. tx' = tx\<lparr>tbl_outbox := tbl_outbox tx @ [row]\<rparr> \<and> ob_aggregate_id row = aid
    \<and> ob_aggregate_type row = atype \<and> ob_event_type row = etype \<and> ob_status row = ''PENDING''
    \<and> ob_processed_at row = None \<and> jsonb_in pg (json_Marshal payload) = Some (ob_payload row)
    \<and> ob_id row = gen_uuid pg S_insert_outbox
    \<and> ob_id row \<notin> ob_id ` set (tbl_outbox tx) \<and> ob_created_at row = tx_now pg"
  using assms
  by (auto simp: SaveEventTx_def sql_insert_outbox_def sql_defs split: option.splits if_splits)

interpretation sql_store: tx_store "tx_Commit pg" for pg
  by unfold_locales (auto simp: tx_Commit_def split: commit_outcome.splits)

interpretation sql_payments: payment_repository
  "NewPaymentRepository pg" "ledger_ok pg" "uuid_in pg" balance_of settled_of payment_ids notified_ids for pg
proof (unfold_locales, goal_cases)
  case (1 d tx)
  then show ?case
    by (simp add: NewPaymentRepository_def BeginTx_def sql_defs split: option.splits)
next
  case (2 tx userID amount currency p tx')
  then have "CreateTransactionRecordTx pg tx userID amount currency = Inr (p, tx')"
    by (simp add: NewPaymentRepository_def)
  from CreateTransactionRecordTx_effect[OF 2(1) this] show ?case
    by (simp add: payment_ids_def notified_ids_def)
next
  case (3 d paymentID d' res)
  then have run: "RefundTransactionRecord pg d paymentID = (d', res)"
    by (simp add: NewPaymentRepository_def)
  from RefundTransactionRecord_cases(1)[OF 3(1) run] show ?case
    using 3(1) refund_effect_ledger[OF 3(1)]
    by (auto simp: payment_ids_def notified_ids_def holdings_def)
qed

interpretation sql_outbox: outbox_repository
  "NewOutboxRepository pg" "ledger_ok pg" balance_of settled_of payment_ids notified_ids for pg
proof (unfold_locales, goal_cases)
  case (1 tx atype aid etype payload tx')
  then obtain row where "tx' = tx\<lparr>tbl_outbox := tbl_outbox tx @ [row]\<rparr>"
    "ob_aggregate_id row = aid" "ob_id row \<notin> ob_id ` set (tbl_outbox tx)"
    using SaveEventTx_Inr[of pg tx atype aid etype payload tx']
    by (auto simp: NewOutboxRepository_def)
  with 1(1) show ?case
    by (auto simp: ledger_ok_def db_ok_def payment_ids_def notified_ids_def balance_of_def settled_of_def)
qed

interpretation sql_service: payment_service
  "tx_Commit pg" "NewPaymentRepository pg" "NewOutboxRepository pg" "ledger_ok pg" "uuid_in pg"
  balance_of settled_of payment_ids notified_ids for pg
  by unfold_locales

text \<open>The service the program builds: \<^verbatim>\<open>NewPaymentService(paymentRepo, outboxRepo)\<close>.\<close>

definition sql_service :: "pg \<Rightarrow> db PaymentService" where
  "sql_service pg = NewPaymentService (NewPaymentRepository pg) (NewOutboxRepository pg)"

abbreviation ChargeOn :: "pg \<Rightarrow> gotime \<Rightarrow> db \<Rightarrow> string \<Rightarrow> int \<Rightarrow> string \<Rightarrow> db \<times> Payment result" where
  "ChargeOn pg \<equiv> ProcessCharge (sql_service pg) (tx_Commit pg)"

abbreviation RefundOn :: "pg \<Rightarrow> db \<Rightarrow> string \<Rightarrow> db \<times> Payment result" where
  "RefundOn pg \<equiv> ProcessRefund (sql_service pg)"

end
