(* ===== verification/OutboxWorker.thy ===== *)
theory OutboxWorker
  imports PaymentService
begin

text \<open>
  The outbox poller (\<^verbatim>\<open>internal/service/outbox_worker.go\<close>), the task constructor of
  \<^verbatim>\<open>internal/tasks/webhook_tasks.go\<close> and the webhook worker that consumes the tasks
  (\<^verbatim>\<open>internal/service/webhook_worker.go\<close>). The Asynq client is an argument: a function that
  takes the task and the state of the queue and returns the new state and the error the
  client sees.
\<close>

section \<open>Tasks\<close>

definition TypeWebhookRetryEvent :: string where
  "TypeWebhookRetryEvent = ''webhook:retry_dispatch''"

type_synonym task = "string \<times> string"
type_synonym 'q enqueue = "task \<Rightarrow> 'q \<Rightarrow> 'q \<times> goerr option"

record WebhookPayload =
  wp_PaymentID :: string
  wp_TargetURL :: string
  wp_EventStatus :: string

definition NewWebhookDispatchTask :: "string \<Rightarrow> string \<Rightarrow> string \<Rightarrow> task result" where
  "NewWebhookDispatchTask paymentID url status =
     (let payload = \<lparr>wp_PaymentID = paymentID, wp_TargetURL = url, wp_EventStatus = status\<rparr>
      in Inr (TypeWebhookRetryEvent, json_Marshal (JObject
           [(''payment_id'', JString (wp_PaymentID payload)),
            (''target_url'', JString (wp_TargetURL payload)),
            (''event_status'', JString (wp_EventStatus payload))])))"

section \<open>The poller\<close>

record fetchedEvent =
  fe_ID :: string
  fe_EventType :: string
  fe_Payload :: string

definition scan_event :: "outbox_row \<Rightarrow> fetchedEvent" where
  "scan_event r = \<lparr>fe_ID = ob_id r, fe_EventType = ob_event_type r, fe_Payload = ob_payload r\<rparr>"

lemma scan_event_simps [simp]:
  "fe_ID (scan_event r) = ob_id r" "fe_Payload (scan_event r) = ob_payload r"
  by (simp_all add: scan_event_def)

text \<open>\<open>locked\<close> holds for the rows another transaction has locked: they are skipped.\<close>

definition sql_select_pending :: "pg \<Rightarrow> (string \<Rightarrow> bool) \<Rightarrow> db \<Rightarrow> outbox_row list result" where
  "sql_select_pending pg locked tx =
     exec pg S_select_pending (Inr (take 10 (sort_key ob_created_at
       (filter (\<lambda>r. ob_status r = ''PENDING'' \<and> \<not> locked (ob_id r)) (tbl_outbox tx)))))"

text \<open>The time is stored at the resolution of the column.\<close>

definition sql_update_outbox :: "pg \<Rightarrow> db \<Rightarrow> string \<Rightarrow> int option \<Rightarrow> string \<Rightarrow> db result" where
  "sql_update_outbox pg tx status processedAt i =
     exec pg (S_update_outbox i) (uuid_arg pg i (\<lambda>u.
       Inr (tx\<lparr>tbl_outbox := update_where (\<lambda>r. ob_id r = u)
          (\<lambda>r. r\<lparr>ob_status := status, ob_processed_at := map_option (ts_in pg) processedAt\<rparr>) (tbl_outbox tx)\<rparr>)))"

text \<open>
  The dispatch loop. \<open>now\<close> gives the clock reading for each event; \<open>None\<close> is the early return
  after a failed update.
\<close>

fun dispatch :: "pg \<Rightarrow> 'q enqueue \<Rightarrow> (string \<Rightarrow> int) \<Rightarrow> fetchedEvent list \<Rightarrow> 'q \<Rightarrow> db \<Rightarrow> 'q \<times> db option" where
  "dispatch pg enq now [] q tx = (q, Some tx)"
| "dispatch pg enq now (ev # evs) q tx =
     (case enq (TypeWebhookRetryEvent, fe_Payload ev) q of (q', err) \<Rightarrow>
        (let status = (if err = None then ''PROCESSED'' else ''FAILED'');
             processedAt = (if err = None then Some (now (fe_ID ev)) else None)
         in (case sql_update_outbox pg tx status processedAt (fe_ID ev) of
               Inl e \<Rightarrow> (q', None)
             | Inr tx' \<Rightarrow> dispatch pg enq now evs q' tx')))"

text \<open>\<open>bad\<close> holds for the rows whose \<^verbatim>\<open>Scan\<close> fails: they are skipped.\<close>

definition ProcessPendingEvents ::
    "pg \<Rightarrow> 'q enqueue \<Rightarrow> (string \<Rightarrow> bool) \<Rightarrow> (string \<Rightarrow> bool) \<Rightarrow> (string \<Rightarrow> int) \<Rightarrow> db \<Rightarrow> 'q \<Rightarrow> db \<times> 'q" where
  "ProcessPendingEvents pg enq locked bad now d q =
     (case db_BeginTx pg d of
        Inl e \<Rightarrow> (d, q)
      | Inr tx \<Rightarrow>
          (case sql_select_pending pg locked tx of
             Inl e \<Rightarrow> (d, q)
           | Inr rows \<Rightarrow>
               (let events = map scan_event
                      (filter (\<lambda>r. \<not> bad (ob_id r)) (fetched pg S_select_pending rows))
                in if events = [] then (d, q)
                   else (case dispatch pg enq now events q tx of
                           (q', None) \<Rightarrow> (d, q')
                         | (q', Some tx') \<Rightarrow> (fst (tx_Commit pg tx' d), q')))))"

lemmas worker_stmt_defs [sql_defs] = sql_select_pending_def sql_update_outbox_def fetched_def

section \<open>The webhook worker\<close>

text \<open>
  The outcome of the HTTP client: no response (\<open>Inl\<close>) or a response with a status code.
  Building the request for the constant URL cannot fail. \<open>None\<close> acknowledges the task, an
  error makes Asynq retry it.
\<close>

definition ProcessWebhookTask :: "(string \<Rightarrow> string \<Rightarrow> int result) \<Rightarrow> task \<Rightarrow> goerr option" where
  "ProcessWebhookTask http_post t =
     (case http_post ''http://httpbin.org/post'' (snd t) of
        Inl e \<Rightarrow> Some (wrapf ''network delivery failure'' e)
      | Inr code \<Rightarrow>
          if code < 200 \<or> code \<ge> 300
          then Some (ErrNew (''merchant unhealthy response status: '' @ itoa code))
          else None)"

section \<open>What the poller relies on\<close>

text \<open>
  The Asynq client: an accepted task is in the queue; after an error it may or may not be
  (the reply can get lost), and nothing is ever removed by enqueuing.
\<close>

locale task_queue =
  fixes enq :: "'q enqueue" and tasks :: "'q \<Rightarrow> task list"
  assumes enq_accepted: "enq t q = (q', None) \<Longrightarrow> tasks q' = tasks q @ [t]"
    and enq_failed: "enq t q = (q', Some e) \<Longrightarrow> tasks q' = tasks q \<or> tasks q' = tasks q @ [t]"

definition outbox_ok :: "pg \<Rightarrow> db \<Rightarrow> bool" where
  "outbox_ok pg d \<longleftrightarrow> distinct (map ob_id (tbl_outbox d))
     \<and> (\<forall>r \<in> set (tbl_outbox d). uuid_in pg (ob_id r) = Some (ob_id r))"

text \<open>What a poll may do to one row: leave it, or move it out of \<^verbatim>\<open>PENDING\<close>.\<close>

definition row_step :: "task list \<Rightarrow> outbox_row \<Rightarrow> outbox_row \<Rightarrow> bool" where
  "row_step ts r r' \<longleftrightarrow> r' = r
     \<or> (ob_status r = ''PENDING''
        \<and> ((\<exists>t. r' = r\<lparr>ob_status := ''PROCESSED'', ob_processed_at := Some t\<rparr>
               \<and> (TypeWebhookRetryEvent, ob_payload r) \<in> set ts)
           \<or> r' = r\<lparr>ob_status := ''FAILED'', ob_processed_at := None\<rparr>))"

lemma row_step_mono: "row_step ts r r' \<Longrightarrow> set ts \<subseteq> set us \<Longrightarrow> row_step us r r'"
  by (auto simp: row_step_def)

lemma row_step_trans:
  assumes "row_step ts r r'" and "row_step us r' r''" and "set ts \<subseteq> set us"
  shows "row_step us r r''"
  using assms by (fastforce simp: row_step_def)

lemma sql_update_outbox_Inr:
  assumes "sql_update_outbox pg tx st t i = Inr tx'" and "uuid_in pg i = Some i"
  shows "tx' = tx\<lparr>tbl_outbox := update_where (\<lambda>r. ob_id r = i)
          (\<lambda>r. r\<lparr>ob_status := st, ob_processed_at := map_option (ts_in pg) t\<rparr>) (tbl_outbox tx)\<rparr>"
  using assms by (auto simp: sql_defs split: option.splits)

text \<open>The events of a batch, as they relate to the table they were read from.\<close>

definition batch_of :: "fetchedEvent list \<Rightarrow> db \<Rightarrow> bool" where
  "batch_of evs d \<longleftrightarrow> distinct (map fe_ID evs)
     \<and> (\<forall>ev \<in> set evs. \<exists>r \<in> set (tbl_outbox d). ob_status r = ''PENDING'' \<and> scan_event r = ev)"

lemma update_outbox_batch:
  assumes "outbox_ok pg tx" and "batch_of (ev # evs) tx"
    and "tx' = tx\<lparr>tbl_outbox := update_where (\<lambda>r. ob_id r = fe_ID ev)
          (\<lambda>r. r\<lparr>ob_status := st, ob_processed_at := t\<rparr>) (tbl_outbox tx)\<rparr>"
  shows "outbox_ok pg tx'" and "batch_of evs tx'"
proof -
  show "outbox_ok pg tx'"
    using assms(1) by (auto simp: assms(3) outbox_ok_def map_update_where_frame set_update_where)
  have keep: "r \<in> set (tbl_outbox tx')" if "r \<in> set (tbl_outbox tx)" "ob_id r \<noteq> fe_ID ev" for r
    using that by (force simp: assms(3) set_update_where)
  show "batch_of evs tx'"
    unfolding batch_of_def
  proof (intro conjI ballI)
    show "distinct (map fe_ID evs)" using assms(2) by (simp add: batch_of_def)
    fix e assume e: "e \<in> set evs"
    with assms(2) obtain r where r: "r \<in> set (tbl_outbox tx)" "ob_status r = ''PENDING''"
      "scan_event r = e"
      by (auto simp: batch_of_def)
    have "fe_ID e \<noteq> fe_ID ev" using assms(2) e by (auto simp: batch_of_def image_iff)
    with r(3) have "ob_id r \<noteq> fe_ID ev" by (auto simp: scan_event_def)
    with r keep show "\<exists>r \<in> set (tbl_outbox tx'). ob_status r = ''PENDING'' \<and> scan_event r = e"
      by blast
  qed
qed

text \<open>The rows one poll selects, and that they form a batch.\<close>

definition selected :: "(string \<Rightarrow> bool) \<Rightarrow> db \<Rightarrow> outbox_row list" where
  "selected locked d = take 10 (sort_key ob_created_at
     (filter (\<lambda>r. ob_status r = ''PENDING'' \<and> \<not> locked (ob_id r)) (tbl_outbox d)))"

lemma sql_select_pending_eq:
  "sql_select_pending pg locked d = exec pg S_select_pending (Inr (selected locked d))"
  by (simp add: sql_select_pending_def selected_def)

lemma set_fetched: "set (fetched pg st rows) \<subseteq> set rows"
  by (auto simp: fetched_def dest: in_set_takeD split: option.splits)

lemma distinct_fetched: "distinct (map f rows) \<Longrightarrow> distinct (map f (fetched pg st rows))"
  by (auto simp: fetched_def take_map [symmetric] split: option.splits)

lemma selected_props:
  "set (selected locked d) \<subseteq> {r \<in> set (tbl_outbox d). ob_status r = ''PENDING''}"
  "distinct (map ob_id (tbl_outbox d)) \<Longrightarrow> distinct (map ob_id (selected locked d))"
proof -
  show "set (selected locked d) \<subseteq> {r \<in> set (tbl_outbox d). ob_status r = ''PENDING''}"
    by (auto simp: selected_def dest!: in_set_takeD)
  assume "distinct (map ob_id (tbl_outbox d))"
  then have "distinct (map ob_id (sort_key ob_created_at
      (filter (\<lambda>r. ob_status r = ''PENDING'' \<and> \<not> locked (ob_id r)) (tbl_outbox d))))"
    by (auto simp: distinct_map inj_on_def)
  then show "distinct (map ob_id (selected locked d))"
    by (auto simp: selected_def take_map [symmetric])
qed

lemma selected_batch:
  assumes "outbox_ok pg d"
  shows "batch_of (map scan_event (filter P (fetched pg st (selected locked d)))) d"
proof -
  have "distinct (map ob_id (fetched pg st (selected locked d)))"
    using assms by (intro distinct_fetched selected_props) (simp add: outbox_ok_def)
  then have "distinct (map ob_id (filter P (fetched pg st (selected locked d))))"
    by (simp add: distinct_map_filter)
  then show ?thesis
    using set_fetched[of pg st "selected locked d"] selected_props(1)[of locked d]
    by (auto simp: batch_of_def comp_def scan_event_def)
qed

definition events_of :: "pg \<Rightarrow> (string \<Rightarrow> bool) \<Rightarrow> (string \<Rightarrow> bool) \<Rightarrow> db \<Rightarrow> fetchedEvent list" where
  "events_of pg locked bad d = map scan_event (filter (\<lambda>r. \<not> bad (ob_id r))
     (fetched pg S_select_pending (selected locked d)))"

lemma ProcessPendingEvents_eq:
  "ProcessPendingEvents pg enq locked bad now d q =
     (if fault pg S_begin \<noteq> None \<or> fault pg S_select_pending \<noteq> None \<or> events_of pg locked bad d = []
      then (d, q)
      else (case dispatch pg enq now (events_of pg locked bad d) q d of
              (q', None) \<Rightarrow> (d, q') | (q', Some tx') \<Rightarrow> (fst (tx_Commit pg tx' d), q')))"
  by (cases "fault pg S_begin"; cases "fault pg S_select_pending")
    (simp_all add: ProcessPendingEvents_def db_BeginTx_def exec_def sql_select_pending_eq
      events_of_def Let_def)

context task_queue
begin

lemma enq_grows: "enq t q = (q', e) \<Longrightarrow> set (tasks q) \<subseteq> set (tasks q')"
  by (cases e) (auto dest: enq_accepted enq_failed)

lemma dispatch_tasks:
  "dispatch pg enq now evs q tx = (q', otx) \<Longrightarrow> set (tasks q) \<subseteq> set (tasks q')"
proof (induction evs arbitrary: q tx)
  case (Cons ev evs)
  obtain q1 err where e: "enq (TypeWebhookRetryEvent, fe_Payload ev) q = (q1, err)"
    by fastforce
  note g = enq_grows[OF e]
  have "q' = q1 \<or> (\<exists>tx1. dispatch pg enq now evs q1 tx1 = (q', otx))"
    using Cons.prems e by (auto simp: Let_def split: sum.splits)
  with g Cons.IH show ?case by blast
qed simp

text \<open>One loop iteration seen row by row.\<close>

lemma dispatch_row:
  assumes ok: "outbox_ok pg tx" and batch: "batch_of (ev # evs) tx"
    and e: "enq (TypeWebhookRetryEvent, fe_Payload ev) q = (q', err)"
    and r: "r \<in> set (tbl_outbox tx)"
  shows "row_step (tasks q') r
    (if ob_id r = fe_ID ev
     then r\<lparr>ob_status := (if err = None then ''PROCESSED'' else ''FAILED''),
            ob_processed_at := (if err = None then Some t else None)\<rparr> else r)"
proof (cases "ob_id r = fe_ID ev")
  case True
  from batch obtain r0 where r0: "r0 \<in> set (tbl_outbox tx)" "ob_status r0 = ''PENDING''"
    "scan_event r0 = ev"
    by (auto simp: batch_of_def)
  with True have "ob_id r0 = ob_id r" by (auto simp: scan_event_def)
  with ok r r0(1) have "r0 = r" by (auto simp: outbox_ok_def distinct_map inj_on_def)
  then have pend: "ob_status r = ''PENDING''" "fe_Payload ev = ob_payload r"
    using r0 by (auto simp: scan_event_def)
  show ?thesis
  proof (cases err)
    case None
    then have "(TypeWebhookRetryEvent, ob_payload r) \<in> set (tasks q')"
      using e pend enq_accepted by fastforce
    with True None pend show ?thesis by (auto simp: row_step_def)
  next
    case (Some x)
    with True pend show ?thesis by (simp add: row_step_def)
  qed
qed (simp add: row_step_def)

lemma dispatch_rows:
  assumes "outbox_ok pg tx" and "batch_of evs tx"
    and "dispatch pg enq now evs q tx = (q', Some tx')"
  shows "list_all2 (row_step (tasks q')) (tbl_outbox tx) (tbl_outbox tx')
    \<and> (\<exists>rows. tx' = tx\<lparr>tbl_outbox := rows\<rparr>)
    \<and> set (tasks q) \<subseteq> set (tasks q')"
  using assms
proof (induction evs arbitrary: q tx)
  case Nil
  then show ?case
    by (auto simp: row_step_def list_all2_same intro!: exI[of _ "tbl_outbox tx'"])
next
  case (Cons ev evs)
  obtain q1 err where e: "enq (TypeWebhookRetryEvent, fe_Payload ev) q = (q1, err)"
    by fastforce
  define st where "st = (if err = None then ''PROCESSED'' else ''FAILED'')"
  define t where "t = (if err = None then Some (now (fe_ID ev)) else None)"
  have stored: "map_option (ts_in pg) t = (if err = None then Some (ts_in pg (now (fe_ID ev))) else None)" by (simp add: t_def)
  from Cons.prems(3) e obtain tx1 where up: "sql_update_outbox pg tx st t (fe_ID ev) = Inr tx1"
    and rest: "dispatch pg enq now evs q1 tx1 = (q', Some tx')"
    by (auto simp: st_def t_def split: sum.splits)
  have canon: "uuid_in pg (fe_ID ev) = Some (fe_ID ev)"
    using Cons.prems(1,2) by (auto simp: batch_of_def outbox_ok_def scan_event_def)
  note tx1 = sql_update_outbox_Inr[OF up canon]
  note nxt = update_outbox_batch[OF Cons.prems(1,2) tx1]
  note IH = Cons.IH[OF nxt rest]
  have step: "list_all2 (row_step (tasks q1)) (tbl_outbox tx) (tbl_outbox tx1)"
    using dispatch_row[OF Cons.prems(1,2) e]
    by (auto simp: tx1 update_where_def list_all2_map2 list_all2_same st_def stored)
  have "list_all2 (row_step (tasks q')) (tbl_outbox tx) (tbl_outbox tx')"
    using IH by (intro list_all2_trans[OF _ step conjunct1[OF IH]]) (blast intro: row_step_trans)
  with IH enq_grows[OF e] show ?case by (auto simp: tx1)
qed

text \<open>A whole poll seen row by row, whatever fails in it.\<close>

lemma poll_rows:
  assumes ok: "outbox_ok pg d"
    and run: "ProcessPendingEvents pg enq locked bad now d q = (d', q')"
  shows "list_all2 (row_step (tasks q')) (tbl_outbox d) (tbl_outbox d')
    \<and> (\<exists>rows. d' = d\<lparr>tbl_outbox := rows\<rparr>) \<and> set (tasks q) \<subseteq> set (tasks q')"
proof -
  have refl: "list_all2 (row_step ts) rows rows" for ts rows
    by (simp add: list_all2_same row_step_def)
  have same: "\<exists>rows. d = d\<lparr>tbl_outbox := rows\<rparr>"
    by (rule exI[of _ "tbl_outbox d"]) simp
  let ?events = "events_of pg locked bad d"
  have b: "batch_of ?events d" unfolding events_of_def using ok by (rule selected_batch)
  obtain q1 otx where D: "dispatch pg enq now ?events q d = (q1, otx)" by fastforce
  show ?thesis
  proof (cases "fault pg S_begin \<noteq> None \<or> fault pg S_select_pending \<noteq> None \<or> ?events = []")
    case True
    with run show ?thesis using refl same by (simp add: ProcessPendingEvents_eq)
  next
    case False
    show ?thesis
    proof (cases otx)
      case None
      with False run D have "d' = d" "q' = q1" by (simp_all add: ProcessPendingEvents_eq)
      with refl same dispatch_tasks[OF D] show ?thesis by simp
    next
      case (Some tx1)
      with False run D have "d' = fst (tx_Commit pg tx1 d)" "q' = q1"
        by (simp_all add: ProcessPendingEvents_eq)
      with dispatch_rows[OF ok b] D Some tx_Commit_cases(1)[of pg tx1 d] refl same
      show ?thesis by auto
    qed
  qed
qed

text \<open>What a poll adds to the queue are tasks of rows that were pending.\<close>

lemma dispatch_new_tasks:
  "dispatch pg enq now evs q tx = (q', otx) \<Longrightarrow>
     \<exists>ts. tasks q' = tasks q @ ts \<and> set ts \<subseteq> (\<lambda>ev. (TypeWebhookRetryEvent, fe_Payload ev)) ` set evs"
proof (induction evs arbitrary: q tx)
  case (Cons ev evs)
  let ?t = "(TypeWebhookRetryEvent, fe_Payload ev)"
  obtain q1 err where e: "enq ?t q = (q1, err)" by fastforce
  have "tasks q1 = tasks q \<or> tasks q1 = tasks q @ [?t]" using enq_accepted enq_failed e by (cases err) auto
  then obtain ts1 where ts1: "tasks q1 = tasks q @ ts1" "set ts1 \<subseteq> {?t}" by (metis append_Nil2 empty_set empty_subsetI list.simps(15) order_refl)
  have "q' = q1 \<or> (\<exists>tx1. dispatch pg enq now evs q1 tx1 = (q', otx))"
    using Cons.prems e by (auto simp: Let_def split: sum.splits)
  then show ?case
  proof
    assume "q' = q1"
    with ts1 show ?thesis by auto
  next
    assume "\<exists>tx1. dispatch pg enq now evs q1 tx1 = (q', otx)"
    with Cons.IH obtain ts where "tasks q' = tasks q1 @ ts" "set ts \<subseteq> (\<lambda>ev. (TypeWebhookRetryEvent, fe_Payload ev)) ` set evs" by blast
    with ts1 show ?thesis by (intro exI[of _ "ts1 @ ts"]) auto
  qed
qed simp

lemma poll_new_tasks:
  assumes "ProcessPendingEvents pg enq locked bad now d q = (d', q')"
  shows "\<exists>ts. tasks q' = tasks q @ ts
    \<and> set ts \<subseteq> (\<lambda>r. (TypeWebhookRetryEvent, ob_payload r)) ` {r \<in> set (tbl_outbox d). ob_status r = ''PENDING''}"
proof -
  obtain q1 otx where D: "dispatch pg enq now (events_of pg locked bad d) q d = (q1, otx)" by fastforce
  have "q' = q \<or> q' = q1"
    using assms D by (auto simp: ProcessPendingEvents_eq split: if_splits option.splits)
  moreover have "(\<lambda>ev. (TypeWebhookRetryEvent, fe_Payload ev)) ` set (events_of pg locked bad d)
      \<subseteq> (\<lambda>r. (TypeWebhookRetryEvent, ob_payload r)) ` {r \<in> set (tbl_outbox d). ob_status r = ''PENDING''}"
    using set_fetched[of pg S_select_pending "selected locked d"] selected_props(1)[of locked d] by (fastforce simp: events_of_def)
  ultimately show ?thesis using dispatch_new_tasks[OF D] by (metis (no_types, lifting) append_Nil2 empty_set empty_subsetI subset_trans)
qed

end

section \<open>Draining the outbox\<close>

text \<open>
  When nothing fails: the engine is healthy, no row is locked by another poller, every row
  scans, and the queue accepts every task.
\<close>

abbreviation is_pending :: "outbox_row \<Rightarrow> bool" where
  "is_pending r \<equiv> ob_status r = ''PENDING''"

definition mark :: "pg \<Rightarrow> (string \<Rightarrow> int) \<Rightarrow> string set \<Rightarrow> outbox_row \<Rightarrow> outbox_row" where
  "mark pg now ids r = (if ob_id r \<in> ids
     then r\<lparr>ob_status := ''PROCESSED'', ob_processed_at := Some (ts_in pg (now (ob_id r)))\<rparr> else r)"

lemma mark_simps [simp]: "ob_id (mark pg now ids r) = ob_id r" "ob_payload (mark pg now ids r) = ob_payload r"
  by (simp_all add: mark_def)

lemma mark_insert:
  "map (mark pg now ids) (update_where (\<lambda>r. ob_id r = i)
     (\<lambda>r. r\<lparr>ob_status := ''PROCESSED'', ob_processed_at := Some (ts_in pg (now i))\<rparr>) rows)
   = map (mark pg now (insert i ids)) rows"
  by (auto simp: update_where_def mark_def)

lemma pending_after_mark:
  "length (filter is_pending (map (mark pg now ids) rows)) =
     length (filter is_pending rows) - length (filter (\<lambda>r. is_pending r \<and> ob_id r \<in> ids) rows)"
proof (induction rows)
  case (Cons r rows)
  have "length (filter (\<lambda>r. is_pending r \<and> ob_id r \<in> ids) rows) \<le> length (filter is_pending rows)"
    by (induction rows) auto
  with Cons show ?case by (auto simp: mark_def Suc_diff_le)
qed simp

lemma selected_by_id:
  assumes "distinct (map ob_id (tbl_outbox d))" and "r \<in> set (tbl_outbox d)"
    and "ob_id r \<in> ob_id ` set (selected locked d)"
  shows "r \<in> set (selected locked d)"
proof -
  from assms(3) obtain y where y: "y \<in> set (selected locked d)" "ob_id y = ob_id r" by auto
  with selected_props(1)[of locked d] have "y \<in> set (tbl_outbox d)" by auto
  with assms(1,2) y(2) have "y = r" by (auto simp: distinct_map inj_on_def)
  with y show ?thesis by simp
qed

lemma selected_count:
  assumes "distinct (map ob_id (tbl_outbox d))"
  shows "length (filter (\<lambda>r. is_pending r \<and> ob_id r \<in> ob_id ` set (selected locked d)) (tbl_outbox d))
    = length (selected locked d)"
proof -
  have ds: "distinct (selected locked d)"
    using selected_props(2)[OF assms, of locked] by (simp add: distinct_map)
  have eq: "set (filter (\<lambda>r. is_pending r \<and> ob_id r \<in> ob_id ` set (selected locked d)) (tbl_outbox d))
      = set (selected locked d)" (is "?L = ?R")
  proof
    show "?L \<subseteq> ?R" by (auto intro: selected_by_id[OF assms])
    show "?R \<subseteq> ?L" using selected_props(1)[of locked d] by auto
  qed
  have dt: "distinct (filter (\<lambda>r. is_pending r \<and> ob_id r \<in> ob_id ` set (selected locked d)) (tbl_outbox d))"
    using assms by (simp add: distinct_map)
  from distinct_card[OF dt] distinct_card[OF ds] show ?thesis unfolding eq by simp
qed

locale reliable_queue = task_queue +
  assumes enq_reliable: "snd (enq t q) = None"
begin

lemma dispatch_reliable:
  assumes "healthy pg" and "\<And>ev. ev \<in> set evs \<Longrightarrow> uuid_in pg (fe_ID ev) = Some (fe_ID ev)"
  shows "\<exists>q'. dispatch pg enq now evs q tx =
      (q', Some (tx\<lparr>tbl_outbox := map (mark pg now (fe_ID ` set evs)) (tbl_outbox tx)\<rparr>))
    \<and> tasks q' = tasks q @ map (\<lambda>ev. (TypeWebhookRetryEvent, fe_Payload ev)) evs"
  using assms(2)
proof (induction evs arbitrary: q tx)
  case Nil
  have "mark pg now {} = id" by (auto simp: mark_def)
  then show ?case by simp
next
  case (Cons ev evs)
  obtain q1 where e: "enq (TypeWebhookRetryEvent, fe_Payload ev) q = (q1, None)"
    using enq_reliable[of "(TypeWebhookRetryEvent, fe_Payload ev)" q] by (metis prod.collapse)
  let ?tx1 = "tx\<lparr>tbl_outbox := update_where (\<lambda>r. ob_id r = fe_ID ev)
     (\<lambda>r. r\<lparr>ob_status := ''PROCESSED'', ob_processed_at := Some (ts_in pg (now (fe_ID ev)))\<rparr>) (tbl_outbox tx)\<rparr>"
  have up: "sql_update_outbox pg tx ''PROCESSED'' (Some (now (fe_ID ev))) (fe_ID ev) = Inr ?tx1"
    using assms(1) Cons.prems by (simp add: sql_defs healthy_def)
  obtain q' where "dispatch pg enq now evs q1 ?tx1 =
      (q', Some (?tx1\<lparr>tbl_outbox := map (mark pg now (fe_ID ` set evs)) (tbl_outbox ?tx1)\<rparr>))"
    "tasks q' = tasks q1 @ map (\<lambda>ev. (TypeWebhookRetryEvent, fe_Payload ev)) evs"
    using Cons by fastforce
  then show ?case using e up enq_accepted[OF e] by (simp add: mark_insert)
qed

text \<open>One healthy poll: the oldest (at most ten) pending rows are marked, their tasks queued.\<close>

lemma poll_healthy:
  assumes "healthy pg" and ok: "outbox_ok pg d"
  shows "\<exists>q'. ProcessPendingEvents pg enq (\<lambda>_. False) (\<lambda>_. False) now d q =
      (d\<lparr>tbl_outbox := map (mark pg now (ob_id ` set (selected (\<lambda>_. False) d))) (tbl_outbox d)\<rparr>, q')
    \<and> tasks q' = tasks q @
        map (\<lambda>r. (TypeWebhookRetryEvent, ob_payload r)) (selected (\<lambda>_. False) d)"
proof -
  let ?sel = "selected (\<lambda>_. False) d"
  have ev: "events_of pg (\<lambda>_. False) (\<lambda>_. False) d = map scan_event ?sel"
    using assms(1) by (simp add: events_of_def fetched_def healthy_def)
  have "uuid_in pg (fe_ID e) = Some (fe_ID e)" if "e \<in> set (map scan_event ?sel)" for e
    using that ok selected_props(1)[of "\<lambda>_. False" d] by (auto simp: outbox_ok_def scan_event_def)
  from dispatch_reliable[OF assms(1) this, where now = now and q = q and tx = d and evs = "map scan_event ?sel"]
  obtain q' where D: "dispatch pg enq now (map scan_event ?sel) q d =
      (q', Some (d\<lparr>tbl_outbox := map (mark pg now (ob_id ` set ?sel)) (tbl_outbox d)\<rparr>))"
    "tasks q' = tasks q @ map (\<lambda>r. (TypeWebhookRetryEvent, ob_payload r)) ?sel"
    by (auto simp: image_image comp_def)
  show ?thesis
  proof (cases "?sel = []")
    case True
    have "mark pg now {} = id" by (auto simp: mark_def)
    with True assms(1) ev show ?thesis by (simp add: ProcessPendingEvents_eq)
  next
    case False
    with D assms(1) ev show ?thesis by (simp add: ProcessPendingEvents_eq healthy_def tx_Commit_def)
  qed
qed

text \<open>Repeated healthy polls.\<close>

abbreviation poll :: "pg \<Rightarrow> (string \<Rightarrow> int) \<Rightarrow> db \<times> 'a \<Rightarrow> db \<times> 'a" where
  "poll pg now s \<equiv> ProcessPendingEvents pg enq (\<lambda>_. False) (\<lambda>_. False) now (fst s) (snd s)"

definition drained :: "pg \<Rightarrow> db \<Rightarrow> db \<Rightarrow> 'a \<Rightarrow> nat \<Rightarrow> bool" where
  "drained pg d d' q' n \<longleftrightarrow> outbox_ok pg d'
     \<and> list_all2 (\<lambda>r r'. (r' = r \<or> is_pending r \<and> ob_status r' = ''PROCESSED''
            \<and> ob_payload r' = ob_payload r
            \<and> (TypeWebhookRetryEvent, ob_payload r) \<in> set (tasks q')))
         (tbl_outbox d) (tbl_outbox d')
     \<and> length (filter is_pending (tbl_outbox d')) = length (filter is_pending (tbl_outbox d)) - 10 * n"

lemma poll_drained:
  assumes h: "healthy pg" and D: "drained pg d d1 q1 n"
  shows "drained pg d (fst (poll pg now (d1, q1))) (snd (poll pg now (d1, q1))) (Suc n)"
proof -
  let ?sel = "selected (\<lambda>_. False) d1"
  have ok: "outbox_ok pg d1" using D by (simp add: drained_def)
  then have dist: "distinct (map ob_id (tbl_outbox d1))" by (simp add: outbox_ok_def)
  from poll_healthy[OF h ok, of now q1] obtain q2 where
    P: "ProcessPendingEvents pg enq (\<lambda>_. False) (\<lambda>_. False) now d1 q1 =
        (d1\<lparr>tbl_outbox := map (mark pg now (ob_id ` set ?sel)) (tbl_outbox d1)\<rparr>, q2)"
    and T: "tasks q2 = tasks q1 @ map (\<lambda>r. (TypeWebhookRetryEvent, ob_payload r)) ?sel"
    by auto
  have ok2: "outbox_ok pg (d1\<lparr>tbl_outbox := map (mark pg now (ob_id ` set ?sel)) (tbl_outbox d1)\<rparr>)"
    using ok by (auto simp: outbox_ok_def comp_def)
  have len: "length ?sel = min 10 (length (filter is_pending (tbl_outbox d1)))"
    by (simp add: selected_def min.commute)
  have sel: "r1 \<in> set ?sel"
    if "r1 \<in> set (tbl_outbox d1)" "ob_id r1 \<in> ob_id ` set ?sel" for r1
    using selected_by_id[OF dist that] .
  let ?R = "\<lambda>q r r'. (r' = r \<or> is_pending r \<and> ob_status r' = ''PROCESSED''
        \<and> ob_payload r' = ob_payload r \<and> (TypeWebhookRetryEvent, ob_payload r) \<in> set (tasks q))"
  have step: "list_all2 (?R q2) (tbl_outbox d1) (map (mark pg now (ob_id ` set ?sel)) (tbl_outbox d1))"
  proof -
    have "?R q2 r (mark pg now (ob_id ` set ?sel) r)" if r: "r \<in> set (tbl_outbox d1)" for r
    proof (cases "ob_id r \<in> ob_id ` set ?sel")
      case True
      from sel[OF r this] have "is_pending r" "(TypeWebhookRetryEvent, ob_payload r) \<in> set (tasks q2)"
        using selected_props(1)[of "\<lambda>_. False" d1] T by auto
      with True show ?thesis by (simp add: mark_def)
    qed (simp add: mark_def)
    then show ?thesis by (simp add: list_all2_map2 list_all2_same)
  qed
  have old: "list_all2 (?R q1) (tbl_outbox d) (tbl_outbox d1)"
    using D by (simp add: drained_def)
  have rows: "list_all2 (?R q2) (tbl_outbox d) (map (mark pg now (ob_id ` set ?sel)) (tbl_outbox d1))"
    by (rule list_all2_trans[OF _ old step]) (use T in auto)
  have "length (filter is_pending (tbl_outbox d1)) = length (filter is_pending (tbl_outbox d)) - 10 * n"
    using D by (simp add: drained_def)
  then have count: "length (filter is_pending (map (mark pg now (ob_id ` set ?sel)) (tbl_outbox d1)))
      = length (filter is_pending (tbl_outbox d)) - 10 * Suc n"
    unfolding pending_after_mark selected_count[OF dist] len by simp
  show ?thesis
    unfolding drained_def using ok2 rows count by (simp only: P fst_conv snd_conv) simp
qed

lemma polls_drained:
  "healthy pg \<Longrightarrow> outbox_ok pg d \<Longrightarrow>
     drained pg d (fst ((poll pg now ^^ n) (d, q))) (snd ((poll pg now ^^ n) (d, q))) n"
proof (induction n)
  case 0
  then show ?case by (simp add: drained_def list_all2_same)
next
  case (Suc n)
  then show ?case
    using poll_drained[of pg d "fst ((poll pg now ^^ n) (d, q))" "snd ((poll pg now ^^ n) (d, q))" n now]
    by simp
qed

end

section \<open>A queue\<close>

text \<open>
  A queue that refuses the tasks of a given set and appends the others satisfies the contract
  of the client; one that refuses nothing is reliable.
\<close>

definition list_enqueue :: "(task \<Rightarrow> bool) \<Rightarrow> task list enqueue" where
  "list_enqueue refuses t q =
     (if refuses t then (q, Some (ErrNew ''asynq: task refused'')) else (q @ [t], None))"

interpretation list_queue: task_queue "list_enqueue refuses" "\<lambda>q. q" for refuses
  by unfold_locales (auto simp: list_enqueue_def split: if_splits)

interpretation open_queue: reliable_queue "list_enqueue (\<lambda>_. False)" "\<lambda>q. q"
  by unfold_locales (simp add: list_enqueue_def)

text \<open>
  A queue whose answers are given beforehand, one for each task, and what any other queue does to
  the database is done by such a script.
\<close>

definition scripted_enqueue :: "(task list \<times> goerr option list) enqueue" where
  "scripted_enqueue t q =
     (case q of (ts, []) \<Rightarrow> ((ts @ [t], []), None)
      | (ts, None # outs) \<Rightarrow> ((ts @ [t], outs), None)
      | (ts, Some e # outs) \<Rightarrow> ((ts, outs), Some e))"

interpretation scripted: task_queue scripted_enqueue fst
  by unfold_locales (auto simp: scripted_enqueue_def split: prod.splits list.splits option.splits)

lemma scripted_enqueue_Cons:
  "\<exists>ts'. scripted_enqueue t (ts, err # outs) = ((ts', outs), err)"
  by (cases err) (auto simp: scripted_enqueue_def)

lemma dispatch_scripted:
  "\<exists>outs. \<forall>ts. snd (dispatch pg scripted_enqueue now evs (ts, outs) tx) = snd (dispatch pg enq now evs q tx)"
proof (induction evs arbitrary: q tx)
  case Nil
  then show ?case by simp
next
  case (Cons ev evs)
  obtain q1 err where e: "enq (TypeWebhookRetryEvent, fe_Payload ev) q = (q1, err)" by fastforce
  let ?up = "sql_update_outbox pg tx (if err = None then ''PROCESSED'' else ''FAILED'')
    (if err = None then Some (now (fe_ID ev)) else None) (fe_ID ev)"
  obtain outs where outs: "\<And>ts tx'. ?up = Inr tx' \<Longrightarrow>
      snd (dispatch pg scripted_enqueue now evs (ts, outs) tx') = snd (dispatch pg enq now evs q1 tx')"
    using Cons.IH[where q = q1 and tx = "projr ?up"] by (cases ?up) auto
  have "snd (dispatch pg scripted_enqueue now (ev # evs) (ts, err # outs) tx) = snd (dispatch pg enq now (ev # evs) q tx)" for ts
    using scripted_enqueue_Cons[of "(TypeWebhookRetryEvent, fe_Payload ev)" ts err outs] outs
    by (auto simp: e Let_def split: sum.splits)
  then show ?case by blast
qed

lemma poll_scripted:
  assumes "ProcessPendingEvents pg enq locked bad now d q = (d', q')"
  shows "\<exists>outs q''. ProcessPendingEvents pg scripted_enqueue locked bad now d ([], outs) = (d', q'')"
proof -
  obtain outs where outs: "snd (dispatch pg scripted_enqueue now (events_of pg locked bad d) ([], outs) d)
      = snd (dispatch pg enq now (events_of pg locked bad d) q d)"
    using dispatch_scripted[of pg now "events_of pg locked bad d" d enq q] by blast
  have "fst (ProcessPendingEvents pg scripted_enqueue locked bad now d ([], outs)) = d'"
    using assms outs by (auto simp: ProcessPendingEvents_eq split: if_splits prod.splits option.splits)
  then show ?thesis by (metis prod.collapse)
qed

section \<open>Properties of the poller\<close>

text \<open>
  C15. Whatever the database and the queue do during a poll (refused statements, lost
  connections, rows locked or unreadable, a commit whose reply is lost), no outbox row
  disappears or changes except that a pending row may become \<^verbatim>\<open>PROCESSED\<close>, and then its
  task is in the queue, or \<^verbatim>\<open>FAILED\<close>; no other table changes and no queued task is lost.
\<close>

theorem poll_marks_only_queued:
  assumes "task_queue enq tasks" and "outbox_ok pg d"
    and "ProcessPendingEvents pg enq locked bad now d q = (d', q')"
  shows "list_all2 (row_step (tasks q')) (tbl_outbox d) (tbl_outbox d')
    \<and> d' = d\<lparr>tbl_outbox := tbl_outbox d'\<rparr> \<and> set (tasks q) \<subseteq> set (tasks q')"
  using task_queue.poll_rows[OF assms] by auto

text \<open>The concrete table of the witnesses.\<close>

definition outbox_row0 :: "string \<Rightarrow> int \<Rightarrow> outbox_row" where
  "outbox_row0 i t = \<lparr>ob_id = i, ob_aggregate_type = ''payment'', ob_aggregate_id = ''p'',
     ob_event_type = ''payment.succeeded'', ob_payload = ''body '' @ i, ob_status = ''PENDING'',
     ob_retry_count = 0, ob_created_at = t, ob_processed_at = None\<rparr>"

definition outbox_db0 :: db where
  "outbox_db0 = empty_db\<lparr>tbl_outbox := [outbox_row0 ''b'' 2, outbox_row0 ''a'' 1]\<rparr>"

lemmas outbox_witness_defs = pg0_def outbox_row0_def outbox_db0_def empty_db_def

theorem poll_marks_only_queued_witness:
  "task_queue (list_enqueue (\<lambda>t. snd t = ''body b'')) (\<lambda>q. q) \<and> outbox_ok pg0 outbox_db0
   \<and> ob_status (tbl_outbox (fst (ProcessPendingEvents pg0 (list_enqueue (\<lambda>t. snd t = ''body b''))
        (\<lambda>_. False) (\<lambda>_. False) (\<lambda>_. 7) outbox_db0 [])) ! 0) = ''FAILED''
   \<and> list_all2 (row_step (snd (ProcessPendingEvents pg0 (list_enqueue (\<lambda>t. snd t = ''body b''))
        (\<lambda>_. False) (\<lambda>_. False) (\<lambda>_. 7) outbox_db0 [])))
       (tbl_outbox outbox_db0)
       (tbl_outbox (fst (ProcessPendingEvents pg0 (list_enqueue (\<lambda>t. snd t = ''body b''))
        (\<lambda>_. False) (\<lambda>_. False) (\<lambda>_. 7) outbox_db0 [])))"
proof -
  let ?enq = "list_enqueue (\<lambda>t. snd t = ''body b'')"
  have q: "task_queue ?enq (\<lambda>q. q)" by (rule list_queue.task_queue_axioms)
  have ok: "outbox_ok pg0 outbox_db0" by (simp add: outbox_ok_def outbox_witness_defs)
  obtain d' q' where run: "ProcessPendingEvents pg0 ?enq (\<lambda>_. False) (\<lambda>_. False) (\<lambda>_. 7) outbox_db0 [] = (d', q')"
    by fastforce
  have "ob_status (tbl_outbox (fst (ProcessPendingEvents pg0 ?enq
        (\<lambda>_. False) (\<lambda>_. False) (\<lambda>_. 7) outbox_db0 [])) ! 0) = ''FAILED''"
    by (simp add: ProcessPendingEvents_def sql_defs outbox_witness_defs scan_event_def
        list_enqueue_def Let_def TypeWebhookRetryEvent_def)
  with q ok poll_marks_only_queued[OF q ok run] show ?thesis by (simp add: run)
qed

text \<open>
  A healthy poll takes at most ten unlocked pending rows, oldest first, queues exactly
  their payloads in that order, marks exactly them and commits; every pending row it leaves
  is at least as new as every row it took.
\<close>

theorem poll_oldest_first:
  assumes "reliable_queue enq tasks" and "healthy pg" and "outbox_ok pg d"
  shows "\<exists>q'. ProcessPendingEvents pg enq (\<lambda>_. False) (\<lambda>_. False) now d q =
      (d\<lparr>tbl_outbox := map (mark pg now (ob_id ` set (selected (\<lambda>_. False) d))) (tbl_outbox d)\<rparr>, q')
    \<and> tasks q' = tasks q @ map (\<lambda>r. (TypeWebhookRetryEvent, ob_payload r)) (selected (\<lambda>_. False) d)
    \<and> sorted (map ob_created_at (selected (\<lambda>_. False) d))
    \<and> length (selected (\<lambda>_. False) d) = min 10 (length (filter is_pending (tbl_outbox d)))
    \<and> (\<forall>r \<in> set (selected (\<lambda>_. False) d). \<forall>r' \<in> set (tbl_outbox d).
         is_pending r' \<and> r' \<notin> set (selected (\<lambda>_. False) d) \<longrightarrow> ob_created_at r \<le> ob_created_at r')"
proof -
  let ?pend = "sort_key ob_created_at (filter is_pending (tbl_outbox d))"
  have sel: "selected (\<lambda>_. False) d = take 10 ?pend" by (simp add: selected_def)
  have srt: "sorted (map ob_created_at ?pend)" by simp
  have split: "map ob_created_at ?pend = map ob_created_at (take 10 ?pend) @ map ob_created_at (drop 10 ?pend)"
    by (simp add: map_append[symmetric] del: map_append)
  have order: "ob_created_at r \<le> ob_created_at r'"
    if "r \<in> set (take 10 ?pend)" "r' \<in> set ?pend" "r' \<notin> set (take 10 ?pend)" for r r'
  proof -
    have "set ?pend = set (take 10 ?pend) \<union> set (drop 10 ?pend)"
      by (metis append_take_drop_id set_append)
    with that have "r' \<in> set (drop 10 ?pend)" by blast
    with that srt show ?thesis by (subst (asm) split) (auto simp: sorted_append)
  qed
  have "sorted (map ob_created_at (take 10 ?pend))"
    using srt by (simp add: sorted_wrt_take take_map[symmetric])
  with reliable_queue.poll_healthy[OF assms, of now q] order show ?thesis
    unfolding sel by (fastforce simp: min.commute)
qed

theorem poll_oldest_first_witness:
  "reliable_queue (list_enqueue (\<lambda>_. False)) (\<lambda>q. q) \<and> healthy pg0 \<and> outbox_ok pg0 outbox_db0
   \<and> snd (ProcessPendingEvents pg0 (list_enqueue (\<lambda>_. False)) (\<lambda>_. False) (\<lambda>_. False) (\<lambda>_. 7) outbox_db0 [])
     = [(TypeWebhookRetryEvent, ''body a''), (TypeWebhookRetryEvent, ''body b'')]"
proof -
  have h: "healthy pg0" by (simp add: healthy_def pg0_def)
  have ok: "outbox_ok pg0 outbox_db0" by (simp add: outbox_ok_def outbox_witness_defs)
  have "selected (\<lambda>_. False) outbox_db0 = [outbox_row0 ''a'' 1, outbox_row0 ''b'' 2]"
    by (simp add: selected_def outbox_witness_defs)
  then show ?thesis
    using h ok open_queue.reliable_queue_axioms
      poll_oldest_first[OF open_queue.reliable_queue_axioms h ok, of "\<lambda>_. 7" "[]"]
    by (auto simp: outbox_row0_def)
qed

text \<open>
  C16. The outbox drains: with a healthy database and queue, \<open>n\<close> polls leave no pending row when
  there were at most \<open>10 * n\<close>, and every event that was pending has its task in the queue.
\<close>

theorem outbox_drains:
  assumes Q: "reliable_queue enq tasks" and h: "healthy pg" and ok: "outbox_ok pg d"
    and few: "length (filter is_pending (tbl_outbox d)) \<le> 10 * n"
    and run: "((\<lambda>s. ProcessPendingEvents pg enq (\<lambda>_. False) (\<lambda>_. False) now (fst s) (snd s)) ^^ n) (d, q)
      = (d', q')"
  shows "filter is_pending (tbl_outbox d') = []
    \<and> (\<forall>r \<in> set (tbl_outbox d). is_pending r \<longrightarrow> (TypeWebhookRetryEvent, ob_payload r) \<in> set (tasks q'))"
proof -
  have "reliable_queue.drained tasks pg d d' q' n"
    using reliable_queue.polls_drained[OF Q h ok, of n now q] run by simp
  then have rows: "list_all2 (\<lambda>r r'. (r' = r \<or> is_pending r \<and> ob_status r' = ''PROCESSED''
        \<and> ob_payload r' = ob_payload r \<and> (TypeWebhookRetryEvent, ob_payload r) \<in> set (tasks q')))
      (tbl_outbox d) (tbl_outbox d')"
    and "length (filter is_pending (tbl_outbox d')) = 0"
    using few by (simp_all add: reliable_queue.drained_def[OF Q])
  then have none: "filter is_pending (tbl_outbox d') = []" by simp
  have "(TypeWebhookRetryEvent, ob_payload r) \<in> set (tasks q')"
    if r: "r \<in> set (tbl_outbox d)" "is_pending r" for r
  proof -
    from r(1) obtain i where i: "i < length (tbl_outbox d)" "tbl_outbox d ! i = r"
      by (auto simp: in_set_conv_nth)
    with rows have "i < length (tbl_outbox d')" by (simp add: list_all2_lengthD)
    then have "\<not> is_pending (tbl_outbox d' ! i)" using none by (auto simp: filter_empty_conv)
    with list_all2_nthD[OF rows i(1)] i(2) r(2) show ?thesis by auto
  qed
  with none show ?thesis by blast
qed

theorem outbox_drains_witness:
  "healthy pg0 \<and> outbox_ok pg0 outbox_db0 \<and> length (filter is_pending (tbl_outbox outbox_db0)) = 2
   \<and> filter is_pending (tbl_outbox (fst (ProcessPendingEvents pg0 (list_enqueue (\<lambda>_. False))
       (\<lambda>_. False) (\<lambda>_. False) (\<lambda>_. 7) outbox_db0 []))) = []"
proof -
  have h: "healthy pg0" by (simp add: healthy_def pg0_def)
  have ok: "outbox_ok pg0 outbox_db0" by (simp add: outbox_ok_def outbox_witness_defs)
  have two: "length (filter is_pending (tbl_outbox outbox_db0)) = 2"
    by (simp add: outbox_witness_defs)
  obtain d' q' where run: "ProcessPendingEvents pg0 (list_enqueue (\<lambda>_. False))
      (\<lambda>_. False) (\<lambda>_. False) (\<lambda>_. 7) outbox_db0 [] = (d', q')" by fastforce
  show ?thesis
    using h ok two run
      outbox_drains[OF open_queue.reliable_queue_axioms h ok, of 1 "\<lambda>_. 7" "[]" d' q'] by simp
qed

text \<open>A history of polls, each with its own engine behaviour, over one input syntax of \<^verbatim>\<open>uuid\<close>.\<close>

inductive polls :: "(string \<Rightarrow> string option) \<Rightarrow> 'q enqueue \<Rightarrow> db \<times> 'q \<Rightarrow> db \<times> 'q \<Rightarrow> bool"
  for uin :: "string \<Rightarrow> string option" and enq :: "'q enqueue" and s :: "db \<times> 'q" where
  polls_none: "polls uin enq s s"
| polls_more: "polls uin enq s (d, q) \<Longrightarrow> uuid_in pg = uin \<Longrightarrow>
    polls uin enq s (ProcessPendingEvents pg enq locked bad now d q)"

lemma outbox_ok_row_step:
  assumes "outbox_ok pg d" and "list_all2 (row_step ts) (tbl_outbox d) (tbl_outbox d')"
  shows "outbox_ok pg d'"
proof -
  have "map ob_id (tbl_outbox d') = map ob_id (tbl_outbox d)"
    using assms(2) by (induction rule: list_all2_induct) (auto simp: row_step_def)
  with assms(1) show ?thesis
    unfolding outbox_ok_def by (metis (no_types, lifting) imageE imageI list.set_map)
qed

lemma outbox_ok_uin: "outbox_ok pg d \<Longrightarrow> uuid_in pg' = uuid_in pg \<Longrightarrow> outbox_ok pg' d"
  by (simp add: outbox_ok_def)

text \<open>
  The goroutine of \<^verbatim>\<open>Start\<close>: what its \<^verbatim>\<open>select\<close> receives, ticks or the closing of the stop channel by
  \<^verbatim>\<open>Stop\<close>, in that order. A tick runs one poll, with the engine behaviour it meets; the stop
  signal ends the loop, whatever else is pending.
\<close>

datatype wake =
    Tick pg "string \<Rightarrow> bool" "string \<Rightarrow> bool" "string \<Rightarrow> int"
  | StopSignal

fun Start :: "'q enqueue \<Rightarrow> wake list \<Rightarrow> db \<times> 'q \<Rightarrow> db \<times> 'q" where
  "Start enq [] s = s"
| "Start enq (Tick pg locked bad now # ws) s = Start enq ws (ProcessPendingEvents pg enq locked bad now (fst s) (snd s))"
| "Start enq (StopSignal # ws) s = s"

fun tick_uses :: "(string \<Rightarrow> string option) \<Rightarrow> wake \<Rightarrow> bool" where
  "tick_uses uin (Tick pg locked bad now) \<longleftrightarrow> uuid_in pg = uin"
| "tick_uses uin StopSignal \<longleftrightarrow> True"

lemma Start_polls: "polls uin enq s0 s \<Longrightarrow> list_all (tick_uses uin) ws \<Longrightarrow> polls uin enq s0 (Start enq ws s)"
proof (induction enq ws s rule: Start.induct)
  case (2 enq pg locked bad now ws s)
  then have "polls uin enq s0 (fst s, snd s)" "uuid_in pg = uin" by simp_all
  then have "polls uin enq s0 (ProcessPendingEvents pg enq locked bad now (fst s) (snd s))" by (rule polls_more)
  with 2 show ?case by simp
qed simp_all

text \<open>A row whose task the queue refuses is left alone by a poll or becomes \<^verbatim>\<open>FAILED\<close>.\<close>

lemma dispatch_refused:
  assumes "outbox_ok pg tx" and "batch_of evs tx" and "dispatch pg enq now evs q tx = (q', Some tx')"
    and "i < length (tbl_outbox tx)" and "\<And>q. snd (enq (TypeWebhookRetryEvent, ob_payload (tbl_outbox tx ! i)) q) \<noteq> None"
  shows "tbl_outbox tx' ! i \<in> {tbl_outbox tx ! i, (tbl_outbox tx ! i)\<lparr>ob_status := ''FAILED'', ob_processed_at := None\<rparr>}"
  using assms
proof (induction evs arbitrary: q tx)
  case (Cons ev evs)
  let ?r = "tbl_outbox tx ! i"
  obtain q1 err where e: "enq (TypeWebhookRetryEvent, fe_Payload ev) q = (q1, err)" by fastforce
  from Cons.prems(3) e obtain tx1 where rest: "dispatch pg enq now evs q1 tx1 = (q', Some tx')"
    and up: "sql_update_outbox pg tx (if err = None then ''PROCESSED'' else ''FAILED'')
        (if err = None then Some (now (fe_ID ev)) else None) (fe_ID ev) = Inr tx1"
    by (auto simp: Let_def split: sum.splits)
  obtain r0 where r0: "r0 \<in> set (tbl_outbox tx)" "scan_event r0 = ev" using Cons.prems(2) by (auto simp: batch_of_def)
  have "uuid_in pg (fe_ID ev) = Some (fe_ID ev)" using Cons.prems(1) r0 by (auto simp: outbox_ok_def)
  note tx1 = sql_update_outbox_Inr[OF up this]
  note nxt = update_outbox_batch[OF Cons.prems(1,2) tx1]
  have payload: "fe_Payload ev = ob_payload ?r" if "ob_id ?r = fe_ID ev"
  proof -
    have "r0 = ?r" using Cons.prems(1,4) r0 that by (auto simp: outbox_ok_def distinct_map inj_on_def)
    with r0(2) show ?thesis by auto
  qed
  have row: "tbl_outbox tx1 ! i \<in> {?r, ?r\<lparr>ob_status := ''FAILED'', ob_processed_at := None\<rparr>}"
  proof (cases "ob_id ?r = fe_ID ev")
    case True
    with payload e Cons.prems(5)[of q] have "err \<noteq> None" by auto
    with True Cons.prems(4) show ?thesis by (simp add: tx1 update_where_def)
  next
    case False
    with Cons.prems(4) show ?thesis by (simp add: tx1 update_where_def)
  qed
  then have "ob_payload (tbl_outbox tx1 ! i) = ob_payload ?r" "i < length (tbl_outbox tx1)"
    using Cons.prems(4) by (auto simp: tx1)
  with Cons.IH[OF nxt rest] Cons.prems(5)
  have "tbl_outbox tx' ! i \<in> {tbl_outbox tx1 ! i, (tbl_outbox tx1 ! i)\<lparr>ob_status := ''FAILED'', ob_processed_at := None\<rparr>}" by simp
  with row show ?case by auto
qed simp

lemma poll_refused:
  assumes ok: "outbox_ok pg d" and run: "ProcessPendingEvents pg enq locked bad now d q = (d', q')"
    and "i < length (tbl_outbox d)" and "\<And>q. snd (enq (TypeWebhookRetryEvent, ob_payload (tbl_outbox d ! i)) q) \<noteq> None"
  shows "tbl_outbox d' ! i \<in> {tbl_outbox d ! i, (tbl_outbox d ! i)\<lparr>ob_status := ''FAILED'', ob_processed_at := None\<rparr>}"
proof -
  obtain q1 otx where D: "dispatch pg enq now (events_of pg locked bad d) q d = (q1, otx)" by fastforce
  have b: "batch_of (events_of pg locked bad d) d" unfolding events_of_def using ok by (rule selected_batch)
  have "d' = d \<or> (\<exists>tx'. otx = Some tx' \<and> d' = fst (tx_Commit pg tx' d))"
    using run D by (auto simp: ProcessPendingEvents_eq split: if_splits option.splits)
  then have "d' = d \<or> otx = Some d'" using tx_Commit_cases(1)[of pg _ d] by metis
  then show ?thesis
  proof
    assume "otx = Some d'"
    with dispatch_refused[OF ok b, where enq = enq and i = i] D assms(3,4) show ?thesis by blast
  qed simp
qed

text \<open>The rows and the queue over a run of the worker.\<close>

lemma worker_run:
  assumes Q: "task_queue enq tasks" and ok: "outbox_ok pg d" and "polls (uuid_in pg) enq (d, q) s"
  shows "outbox_ok pg (fst s) \<and> length (tbl_outbox (fst s)) = length (tbl_outbox d)
    \<and> (\<forall>i < length (tbl_outbox d). tbl_outbox (fst s) ! i = tbl_outbox d ! i
        \<or> is_pending (tbl_outbox d ! i) \<and> \<not> is_pending (tbl_outbox (fst s) ! i))
    \<and> (\<exists>ts. tasks (snd s) = tasks q @ ts
        \<and> set ts \<subseteq> (\<lambda>r. (TypeWebhookRetryEvent, ob_payload r)) ` {r \<in> set (tbl_outbox d). is_pending r})"
  using assms(3)
proof (induction rule: polls.induct)
  case polls_none
  then show ?case using ok by simp
next
  case (polls_more d1 q1 pg1 locked bad now)
  obtain d2 q2 where run: "ProcessPendingEvents pg1 enq locked bad now d1 q1 = (d2, q2)" by fastforce
  have IH: "outbox_ok pg d1" "length (tbl_outbox d1) = length (tbl_outbox d)"
    and rows: "\<And>i. i < length (tbl_outbox d) \<Longrightarrow> tbl_outbox d1 ! i = tbl_outbox d ! i
        \<or> is_pending (tbl_outbox d ! i) \<and> \<not> is_pending (tbl_outbox d1 ! i)"
    using polls_more.IH by auto
  obtain ts where ts: "tasks q1 = tasks q @ ts" "set ts \<subseteq> (\<lambda>r. (TypeWebhookRetryEvent, ob_payload r)) ` {r \<in> set (tbl_outbox d). is_pending r}"
    using polls_more.IH by auto
  have "outbox_ok pg1 d1" using IH(1) polls_more(2) by (auto intro: outbox_ok_uin)
  note R = conjunct1[OF task_queue.poll_rows[OF Q this run]]
  have step: "row_step (tasks q2) (tbl_outbox d1 ! i) (tbl_outbox d2 ! i)" if "i < length (tbl_outbox d)" for i
    using list_all2_nthD[OF R, of i] that IH(2) by simp
  have rows2: "tbl_outbox d2 ! i = tbl_outbox d ! i \<or> is_pending (tbl_outbox d ! i) \<and> \<not> is_pending (tbl_outbox d2 ! i)"
    if "i < length (tbl_outbox d)" for i
    using rows[OF that] step[OF that] by (auto simp: row_step_def)
  have old: "{r \<in> set (tbl_outbox d1). is_pending r} \<subseteq> {r \<in> set (tbl_outbox d). is_pending r}"
  proof
    fix r assume "r \<in> {r \<in> set (tbl_outbox d1). is_pending r}"
    then obtain i where i: "i < length (tbl_outbox d)" "r = tbl_outbox d1 ! i" "is_pending r"
      using IH(2) by (auto simp: in_set_conv_nth)
    with rows[OF i(1)] have "r = tbl_outbox d ! i" by auto
    with nth_mem[OF i(1)] i(3) show "r \<in> {r \<in> set (tbl_outbox d). is_pending r}" by simp
  qed
  obtain ts2 where ts2: "tasks q2 = tasks q1 @ ts2"
    "set ts2 \<subseteq> (\<lambda>r. (TypeWebhookRetryEvent, ob_payload r)) ` {r \<in> set (tbl_outbox d1). is_pending r}"
    using task_queue.poll_new_tasks[OF Q run] by blast
  have "set ts2 \<subseteq> (\<lambda>r. (TypeWebhookRetryEvent, ob_payload r)) ` {r \<in> set (tbl_outbox d). is_pending r}"
    using ts2(2) image_mono[OF old] by (rule subset_trans)
  with ts ts2(1) have "\<exists>ts. tasks q2 = tasks q @ ts
      \<and> set ts \<subseteq> (\<lambda>r. (TypeWebhookRetryEvent, ob_payload r)) ` {r \<in> set (tbl_outbox d). is_pending r}"
    by (intro exI[of _ "ts @ ts2"]) simp
  moreover have "outbox_ok pg d2" by (rule outbox_ok_row_step[OF IH(1) R])
  ultimately show ?case using rows2 list_all2_lengthD[OF R] IH(2) by (simp add: run)
qed

text \<open>
  C17. A failed hand-over to the queue is final. Take a poll in which the queue answered the task of a
  pending row with an error and which committed the row's new state: the row is \<^verbatim>\<open>FAILED\<close>, and it
  stays exactly as it is in every further run of the worker, however many ticks follow and even if the
  queue accepts everything from then on. What the worker still queues are tasks of rows that are
  pending; so the task of the failed row is not queued again, unless one of these has the same payload.
  The comment at the place where the code sets \<^verbatim>\<open>FAILED\<close> speaks of trying again later.
\<close>

theorem failed_event_never_retried:
  assumes down: "task_queue enq0 tasks" "\<And>q. snd (enq0 (TypeWebhookRetryEvent, ob_payload (tbl_outbox d0 ! i)) q) \<noteq> None"
    and Q: "task_queue enq tasks" and ok: "outbox_ok pg d0"
    and i: "i < length (tbl_outbox d0)" "is_pending (tbl_outbox d0 ! i)"
    and poll: "ProcessPendingEvents pg enq0 locked bad now d0 q0 = (d, q)" and taken: "\<not> is_pending (tbl_outbox d ! i)"
    and run: "Start enq ws (d, q) = (d', q')" "list_all (tick_uses (uuid_in pg)) ws"
  shows "tbl_outbox d' ! i = (tbl_outbox d0 ! i)\<lparr>ob_status := ''FAILED'', ob_processed_at := None\<rparr>
    \<and> (\<exists>ts. tasks q' = tasks q @ ts
        \<and> set ts \<subseteq> (\<lambda>r. (TypeWebhookRetryEvent, ob_payload r)) ` {r \<in> set (tbl_outbox d). is_pending r}
        \<and> ((\<forall>r \<in> set (tbl_outbox d). is_pending r \<longrightarrow> ob_payload r \<noteq> ob_payload (tbl_outbox d0 ! i)) \<longrightarrow>
            (TypeWebhookRetryEvent, ob_payload (tbl_outbox d0 ! i)) \<notin> set ts))"
proof -
  have failed: "tbl_outbox d ! i = (tbl_outbox d0 ! i)\<lparr>ob_status := ''FAILED'', ob_processed_at := None\<rparr>"
    using poll_refused[OF ok poll i(1) down(2)] taken i(2) by auto
  note R = conjunct1[OF task_queue.poll_rows[OF down(1) ok poll]]
  have len: "i < length (tbl_outbox d)" using list_all2_lengthD[OF R] i(1) by simp
  have "polls (uuid_in pg) enq (d, q) (d', q')" using Start_polls[OF polls_none[of _ enq "(d, q)"] run(2)] by (simp only: run(1))
  note W = worker_run[OF Q outbox_ok_row_step[OF ok R] this]
  then obtain ts where ts: "tasks q' = tasks q @ ts"
    "set ts \<subseteq> (\<lambda>r. (TypeWebhookRetryEvent, ob_payload r)) ` {r \<in> set (tbl_outbox d). is_pending r}" by auto
  then have "(TypeWebhookRetryEvent, ob_payload (tbl_outbox d0 ! i)) \<notin> set ts"
    if "\<forall>r \<in> set (tbl_outbox d). is_pending r \<longrightarrow> ob_payload r \<noteq> ob_payload (tbl_outbox d0 ! i)"
    using that by fastforce
  moreover have "tbl_outbox d' ! i = tbl_outbox d ! i" using W len taken by auto
  ultimately show ?thesis using ts failed by auto
qed

text \<open>The queue is down during the first poll and accepts everything afterwards.\<close>

theorem failed_event_never_retried_witness:
  "case ProcessPendingEvents pg0 (list_enqueue (\<lambda>_. True)) (\<lambda>_. False) (\<lambda>_. False) (\<lambda>_. 7) outbox_db0 [] of (d, q) \<Rightarrow>
   (case Start (list_enqueue (\<lambda>_. False)) [Tick pg0 (\<lambda>_. False) (\<lambda>_. False) (\<lambda>_. 9), StopSignal] (d, q) of (d', q') \<Rightarrow>
     tbl_outbox d' ! 0 = (outbox_row0 ''b'' 2)\<lparr>ob_status := ''FAILED''\<rparr> \<and> q' = [])"
proof -
  obtain d q where poll: "ProcessPendingEvents pg0 (list_enqueue (\<lambda>_. True)) (\<lambda>_. False) (\<lambda>_. False) (\<lambda>_. 7) outbox_db0 [] = (d, q)"
    by fastforce
  obtain d' q' where run: "Start (list_enqueue (\<lambda>_. False)) [Tick pg0 (\<lambda>_. False) (\<lambda>_. False) (\<lambda>_. 9), StopSignal] (d, q) = (d', q')"
    by fastforce
  have d: "map ob_status (tbl_outbox d) = [''FAILED'', ''FAILED'']" "q = []"
    using poll by (auto simp: ProcessPendingEvents_def sql_defs outbox_witness_defs scan_event_def
        list_enqueue_def Let_def TypeWebhookRetryEvent_def)
  then have none: "\<not> is_pending r" if "r \<in> set (tbl_outbox d)" for r using that by (auto simp: map_eq_Cons_conv)
  have "tbl_outbox d ! 0 \<in> set (tbl_outbox d)" using d(1) by (intro nth_mem) (auto simp: map_eq_Cons_conv)
  then have taken: "\<not> is_pending (tbl_outbox d ! 0)" by (rule none)
  have "outbox_ok pg0 outbox_db0" by (simp add: outbox_ok_def outbox_witness_defs)
  from failed_event_never_retried[OF list_queue.task_queue_axioms _ list_queue.task_queue_axioms this _ _ poll taken run]
  have "tbl_outbox d' ! 0 = (tbl_outbox outbox_db0 ! 0)\<lparr>ob_status := ''FAILED'', ob_processed_at := None\<rparr>"
    "\<exists>ts. q' = q @ ts \<and> set ts \<subseteq> (\<lambda>r. (TypeWebhookRetryEvent, ob_payload r)) ` {r \<in> set (tbl_outbox d). is_pending r}"
    by (auto simp: list_enqueue_def outbox_db0_def outbox_row0_def)
  moreover from none have "{r \<in> set (tbl_outbox d). is_pending r} = {}" by blast
  ultimately have "tbl_outbox d' ! 0 = (outbox_row0 ''b'' 2)\<lparr>ob_status := ''FAILED''\<rparr> \<and> q' = []"
    by (auto simp: d(2) outbox_db0_def outbox_row0_def)
  with poll run show ?thesis by simp
qed

text \<open>
  The webhook worker acknowledges a task exactly when the merchant answered with a 2xx
  status; every other answer, and no answer, returns an error, which makes Asynq retry.
\<close>

lemma webhook_acknowledged_iff_2xx:
  "ProcessWebhookTask http_post t = None \<longleftrightarrow>
     (\<exists>code. http_post ''http://httpbin.org/post'' (snd t) = Inr code \<and> 200 \<le> code \<and> code < 300)"
  by (auto simp: ProcessWebhookTask_def split: sum.splits)

end
