(* ===== verification/Accounts.thy ===== *)
theory Accounts
  imports PaymentRepo
begin

text \<open>
  Users and API keys: \<^verbatim>\<open>internal/repository/user_repo.go\<close>, \<^verbatim>\<open>internal/repository/key_repo.go\<close>,
  \<^verbatim>\<open>internal/service/auth_service.go\<close> and the seeding calls of \<^verbatim>\<open>cmd/api/main.go\<close>. The random
  bytes and the bcrypt hash are arguments.
\<close>

section \<open>Users\<close>

record User =
  u_ID :: string
  u_Email :: string
  u_Balance :: int
  u_Currency :: string

definition sql_insert_user :: "pg \<Rightarrow> db \<Rightarrow> string \<Rightarrow> int \<Rightarrow> (user_row \<times> db) result" where
  "sql_insert_user pg d email initialBalance =
     exec pg S_insert_user
       (let row = \<lparr>usr_id = gen_uuid pg S_insert_user, usr_email = email, usr_balance = initialBalance,
              usr_currency = ''INR'', usr_created_at = tx_now pg\<rparr>
        in if \<not> is_int64 initialBalance then Inl (pq_error ''bigint out of range'')
           else if usr_id row \<in> usr_id ` set (tbl_users d)
           then Inl (pq_error ''duplicate key value violates unique constraint users_pkey'')
           else if email \<in> usr_email ` set (tbl_users d)
           then Inl (pq_error ''duplicate key value violates unique constraint users_email_key'')
           else Inr (row, d\<lparr>tbl_users := tbl_users d @ [row]\<rparr>))"

definition CreateUser :: "pg \<Rightarrow> db \<Rightarrow> string \<Rightarrow> int \<Rightarrow> db \<times> User result" where
  "CreateUser pg d email initialBalance =
     (case autocommit pg d (sql_insert_user pg d email initialBalance) of
        (d', Inl e) \<Rightarrow> (d', Inl (wrapf ''failed to execute insert user statement'' e))
      | (d', Inr row) \<Rightarrow>
          (d', Inr \<lparr>u_ID = usr_id row, u_Email = usr_email row, u_Balance = usr_balance row,
                    u_Currency = usr_currency row\<rparr>))"

section \<open>API keys\<close>

record APIKey =
  ak_ID :: string
  ak_UserID :: string
  ak_KeyHash :: string
  ak_Label :: string

definition sql_insert_key :: "pg \<Rightarrow> db \<Rightarrow> string \<Rightarrow> string \<Rightarrow> string \<Rightarrow> (unit \<times> db) result" where
  "sql_insert_key pg d userID hash label =
     exec pg S_insert_key (uuid_arg pg userID (\<lambda>u.
       if find_user u d = None
       then Inl (pq_error ''insert or update on table api_keys violates foreign key constraint api_keys_user_id_fkey'')
       else if gen_uuid pg S_insert_key \<in> key_id ` set (tbl_api_keys d)
       then Inl (pq_error ''duplicate key value violates unique constraint api_keys_pkey'')
       else if hash \<in> key_hash ` set (tbl_api_keys d)
       then Inl (pq_error ''duplicate key value violates unique constraint api_keys_key_hash_key'')
       else Inr ((), d\<lparr>tbl_api_keys := tbl_api_keys d @
          [\<lparr>key_id = gen_uuid pg S_insert_key, key_user_id = u, key_hash = hash, key_label = label,
            key_created_at = tx_now pg\<rparr>]\<rparr>)))"

definition InsertKey :: "pg \<Rightarrow> db \<Rightarrow> string \<Rightarrow> string \<Rightarrow> string \<Rightarrow> db \<times> goerr option" where
  "InsertKey pg d userID hash label =
     (case autocommit pg d (sql_insert_key pg d userID hash label) of
        (d', Inl e) \<Rightarrow> (d', Some (wrapf ''failed to write key hash to repository'' e))
      | (d', Inr _) \<Rightarrow> (d', None))"

text \<open>
  \<open>rand\<close> is what \<^verbatim>\<open>rand.Read\<close> does with the 16-byte buffer: an error, or the bytes it filled
  in. \<open>bcrypt\<close> is \<^verbatim>\<open>bcrypt.GenerateFromPassword\<close> at the default cost.
\<close>

definition GenerateAPIKey ::
    "string result \<Rightarrow> (string \<Rightarrow> string result) \<Rightarrow> pg \<Rightarrow> db \<Rightarrow> string \<Rightarrow> string \<Rightarrow> db \<times> string result" where
  "GenerateAPIKey rand bcrypt pg d userID label =
     (case rand of
        Inl e \<Rightarrow> (d, Inl (wrapf ''failed to generate secure random source bytes'' e))
      | Inr bytes \<Rightarrow>
          (let plainKey = ''vpay_live_'' @ hex_EncodeToString bytes in
           case bcrypt plainKey of
             Inl e \<Rightarrow> (d, Inl (wrapf ''failed to cryptographically protect plain key'' e))
           | Inr keyHash \<Rightarrow>
               (case InsertKey pg d userID keyHash label of
                  (d', Some e) \<Rightarrow> (d', Inl (wrapf ''auth_service failed to persist key configuration'' e))
                | (d', None) \<Rightarrow> (d', Inr plainKey))))"

section \<open>Seeding at start-up\<close>

text \<open>
  \<^verbatim>\<open>main\<close> creates the test merchant twice, first with one million minor units (ignoring the
  result), later with ten million (logging the result).
\<close>

definition seed_again :: "pg \<Rightarrow> db \<Rightarrow> db \<times> User result" where
  "seed_again pg d = CreateUser pg d ''merchant_india@gmail.com'' 10000000"

definition seed_users :: "pg \<Rightarrow> pg \<Rightarrow> db \<Rightarrow> db \<times> User result \<times> User result" where
  "seed_users pg1 pg2 d =
     (let (d1, r1) = CreateUser pg1 d ''merchant_india@gmail.com'' 1000000;
          (d2, r2) = seed_again pg2 d1
      in (d2, r1, r2))"

section \<open>Lemmas\<close>

lemma sql_insert_user_Inr:
  assumes "sql_insert_user pg d email b = Inr (row, d')"
  shows "d' = d\<lparr>tbl_users := tbl_users d @ [row]\<rparr>" and "usr_id row \<notin> usr_id ` set (tbl_users d)"
    and "usr_email row \<notin> usr_email ` set (tbl_users d)" and "usr_balance row = b" and "is_int64 b"
    and "usr_email row = email" and "usr_currency row = ''INR''"
  using assms by (auto simp: sql_insert_user_def exec_def Let_def split: option.splits if_splits)

lemma CreateUser_cases:
  assumes "CreateUser pg d email b = (d', res)"
  shows "d' = d \<or> (\<exists>row. sql_insert_user pg d email b = Inr (row, d'))"
    and "res = Inr u \<Longrightarrow> \<exists>row. sql_insert_user pg d email b = Inr (row, d') \<and> u_ID u = usr_id row"
proof -
  obtain d1 r1 where ac: "autocommit pg d (sql_insert_user pg d email b) = (d1, r1)" by fastforce
  have "d' = d1" "res = Inr u \<Longrightarrow> \<exists>row. r1 = Inr row \<and> u_ID u = usr_id row"
    using assms ac by (auto simp: CreateUser_def split: sum.splits)
  with autocommit_cases[OF ac]
  show "d' = d \<or> (\<exists>row. sql_insert_user pg d email b = Inr (row, d'))"
    and "res = Inr u \<Longrightarrow> \<exists>row. sql_insert_user pg d email b = Inr (row, d') \<and> u_ID u = usr_id row"
    by blast+
qed

lemma InsertKey_frame:
  assumes "InsertKey pg d userID h label = (d', e)"
  shows "d' = d\<lparr>tbl_api_keys := tbl_api_keys d'\<rparr>"
proof -
  obtain d1 r1 where ac: "autocommit pg d (sql_insert_key pg d userID h label) = (d1, r1)" by fastforce
  have "d' = d1" using assms ac by (auto simp: InsertKey_def split: sum.splits)
  with autocommit_cases(1)[OF ac] show ?thesis
    by (auto simp: sql_insert_key_def sql_defs split: option.splits if_splits)
qed

subsection \<open>Hexadecimal text\<close>

lemma digit_char_inj: "a < 16 \<Longrightarrow> b < 16 \<Longrightarrow> digit_char a = digit_char b \<Longrightarrow> a = b"
  by (auto split: if_splits simp: char_of_eq_iff take_bit_eq_mod)

lemma length_hex [simp]: "length (hex_EncodeToString bs) = 2 * length bs"
  by (induction bs) (auto simp: hex_EncodeToString_def hex_byte_def)

lemma hex_byte_inj: "hex_byte a = hex_byte b \<Longrightarrow> a = b"
proof -
  assume "hex_byte a = hex_byte b"
  then have "of_char a div 16 = (of_char b div 16 :: nat)" "of_char a mod 16 = (of_char b mod 16 :: nat)"
    using nat_of_char_less_256[of a] nat_of_char_less_256[of b]
    by (auto simp: hex_byte_def simp del: digit_char.simps nat_of_char_less_256 intro!: digit_char_inj)
  then have "of_char a = (of_char b :: nat)" by (metis div_mult_mod_eq)
  then show "a = b" by simp
qed

lemma hex_EncodeToString_inj:
  "hex_EncodeToString xs = hex_EncodeToString ys \<Longrightarrow> xs = ys"
proof (induction xs arbitrary: ys)
  case Nil
  then show ?case by (cases ys) (auto simp: hex_EncodeToString_def hex_byte_def)
next
  case (Cons x xs)
  then obtain y ys' where ys: "ys = y # ys'"
    by (cases ys) (auto simp: hex_EncodeToString_def hex_byte_def)
  have l: "length (hex_byte c) = 2" for c by (simp add: hex_byte_def)
  from Cons.prems have "hex_byte x @ hex_EncodeToString xs = hex_byte y @ hex_EncodeToString ys'"
    by (simp add: ys hex_EncodeToString_def)
  with l have "hex_byte x = hex_byte y" "hex_EncodeToString xs = hex_EncodeToString ys'"
    by (simp_all add: append_eq_append_conv)
  with Cons.IH hex_byte_inj show ?case by (simp add: ys)
qed

section \<open>Properties\<close>

text \<open>
  A key handed out by \<^verbatim>\<open>GenerateAPIKey\<close> is the prefix \<^verbatim>\<open>vpay_live_\<close> and the 32 hexadecimal digits
  of the random bytes, different random bytes give different keys, and what is stored for
  it is one new row for the requested user with the bcrypt hash of the key and the label.
\<close>

theorem GenerateAPIKey_stores_hash:
  assumes "GenerateAPIKey (Inr bytes) bcrypt pg d userID label = (d', Inr k)" and "length bytes = 16"
  shows "length k = 42 \<and> take 10 k = ''vpay_live_''
    \<and> (\<forall>bytes'. k = ''vpay_live_'' @ hex_EncodeToString bytes' \<longrightarrow> bytes' = bytes)
    \<and> (\<exists>u h i. uuid_in pg userID = Some u \<and> find_user u d \<noteq> None \<and> bcrypt k = Inr h
        \<and> d' = d\<lparr>tbl_api_keys := tbl_api_keys d @ [\<lparr>key_id = i, key_user_id = u, key_hash = h,
            key_label = label, key_created_at = tx_now pg\<rparr>]\<rparr>)"
proof -
  obtain h where h: "bcrypt k = Inr h" and k: "k = ''vpay_live_'' @ hex_EncodeToString bytes"
    and ins: "InsertKey pg d userID h label = (d', None)"
    using assms(1) by (auto simp: GenerateAPIKey_def Let_def split: sum.splits prod.splits option.splits)
  from ins have "sql_insert_key pg d userID h label = Inr ((), d')"
    using autocommit_cases(2)[of pg d "sql_insert_key pg d userID h label" d' "Inr ()" "()"]
    by (auto simp: InsertKey_def split: sum.splits prod.splits)
  then have "\<exists>u i. uuid_in pg userID = Some u \<and> find_user u d \<noteq> None
      \<and> d' = d\<lparr>tbl_api_keys := tbl_api_keys d @ [\<lparr>key_id = i, key_user_id = u, key_hash = h,
            key_label = label, key_created_at = tx_now pg\<rparr>]\<rparr>"
    by (auto simp: sql_insert_key_def sql_defs split: option.splits if_splits)
  with h k assms(2) hex_EncodeToString_inj show ?thesis by auto
qed

definition pg_acc :: pg where
  "pg_acc = pg0\<lparr>gen_uuid := \<lambda>_. ''id-1''\<rparr>"

theorem GenerateAPIKey_stores_hash_witness:
  "\<exists>d k. GenerateAPIKey (Inr (replicate 16 CHR 0x0A)) Inr pg_acc
      (empty_db\<lparr>tbl_users := [\<lparr>usr_id = ''u'', usr_email = ''e'', usr_balance = 5, usr_currency = ''INR'',
         usr_created_at = 1\<rparr>]\<rparr>) ''u'' ''live'' = (d, Inr k) \<and> length k = 42"
proof -
  let ?d = "empty_db\<lparr>tbl_users := [\<lparr>usr_id = ''u'', usr_email = ''e'', usr_balance = 5,
      usr_currency = ''INR'', usr_created_at = 1\<rparr>]\<rparr>"
  obtain d k where run: "GenerateAPIKey (Inr (replicate 16 CHR 0x0A)) Inr pg_acc ?d ''u'' ''live'' = (d, Inr k)"
    by (simp add: GenerateAPIKey_def InsertKey_def sql_insert_key_def sql_defs pg_acc_def pg0_def empty_db_def
        find_user_def Let_def)
  from GenerateAPIKey_stores_hash[OF run] run show ?thesis by auto
qed

text \<open>
  Seeding a fresh database: the first call creates the merchant with one million minor
  units, so the second one, which \<^verbatim>\<open>main\<close> means to seed ten million with, is refused by the
  uniqueness of the email and the balance stays one million.
\<close>

theorem seeding_keeps_first_balance:
  assumes "fault pg1 S_insert_user = None" and "commit_out pg1 = CommitOk"
    and "fault pg2 S_insert_user = None" and "gen_uuid pg1 S_insert_user \<noteq> gen_uuid pg2 S_insert_user"
  shows "\<exists>d u e. seed_users pg1 pg2 empty_db = (d, Inr u, Inl e)
    \<and> map (\<lambda>r. (usr_email r, usr_balance r)) (tbl_users d) = [(''merchant_india@gmail.com'', 1000000)]
    \<and> errors_Is e (pq_error ''duplicate key value violates unique constraint users_email_key'')"
  using assms
  by (simp add: seed_users_def seed_again_def CreateUser_def sql_insert_user_def sql_defs empty_db_def Let_def
      is_int64_def int64_bounds pq_error_def)

theorem seeding_keeps_first_balance_witness:
  "\<exists>d u e. seed_users pg_acc (pg_acc\<lparr>gen_uuid := (\<lambda>_. ''id-2'')\<rparr>) empty_db = (d, Inr u, Inl e)
    \<and> map usr_balance (tbl_users d) = [1000000]"
proof -
  let ?pg2 = "pg_acc\<lparr>gen_uuid := (\<lambda>_. ''id-2'')\<rparr>"
  have "\<exists>d u e. seed_users pg_acc ?pg2 empty_db = (d, Inr u, Inl e)
    \<and> map (\<lambda>r. (usr_email r, usr_balance r)) (tbl_users d) = [(''merchant_india@gmail.com'', 1000000)]
    \<and> errors_Is e (pq_error ''duplicate key value violates unique constraint users_email_key'')"
    by (rule seeding_keeps_first_balance) (simp_all add: pg_acc_def pg0_def)
  then show ?thesis by fastforce
qed

end
