(* ===== verification/Ledger.thy ===== *)
theory Ledger
  imports OutboxWorker Accounts
begin

text \<open>
  The properties of payments that span the repositories, the service and the workers: the
  exact effect of a charge, atomicity under every failure, the invariant of all reachable
  databases, conservation of money and the uniqueness of refunds.
\<close>

section \<open>The exact effect of a charge\<close>

definition outbox_row_for :: "pg \<Rightarrow> string \<Rightarrow> string \<Rightarrow> outbox_row" where
  "outbox_row_for pg pid j =
     \<lparr>ob_id = gen_uuid pg S_insert_outbox, ob_aggregate_type = ''payment'', ob_aggregate_id = pid,
      ob_event_type = ''payment.succeeded'', ob_payload = j, ob_status = ''PENDING'',
      ob_retry_count = 0, ob_created_at = tx_now pg, ob_processed_at = None\<rparr>"

text \<open>
  C1. A charge on a healthy database, on every branch: a non-positive amount and an amount
  above the balance are refused and change nothing; otherwise the wallet goes down by the
  amount, one payment with status \<^verbatim>\<open>succeeded\<close> and one pending outbox event for it are added,
  and that payment is returned.
\<close>

theorem charge_exact_effect:
  assumes ok: "db_ok d" and h: "healthy pg"
    and u: "uuid_in pg userID = Some u" and r: "find_user u d = Some r"
    and fresh: "find_payment (gen_uuid pg S_insert_payment) d = None"
      "gen_uuid pg S_insert_outbox \<notin> ob_id ` set (tbl_outbox d)"
      "length (gen_uuid pg S_insert_payment) \<le> 100"
    and j: "jsonb_in pg (json_Marshal (webhookPayload
        (scan_payment (new_payment_row pg u amount currency)) now)) = Some j"
  shows "ChargeOn pg now d userID amount currency =
    (if amount \<le> 0 then (d, Inl (ErrNew ''transaction amount must be strictly positive''))
     else if usr_balance r < amount
     then (d, Inl (ErrNew ''insufficient account balances to clear transaction''))
     else (d\<lparr>tbl_users := update_where (\<lambda>r. usr_id r = u)
                (\<lambda>r. r\<lparr>usr_balance := usr_balance r - amount\<rparr>) (tbl_users d),
             tbl_payments := tbl_payments d @ [new_payment_row pg u amount currency],
             tbl_outbox := tbl_outbox d @ [outbox_row_for pg (gen_uuid pg S_insert_payment) j]\<rparr>,
           Inr (scan_payment (new_payment_row pg u amount currency))))"
proof -
  note unf = ProcessCharge_def sql_service_def NewPaymentService_def NewPaymentRepository_def
    NewOutboxRepository_def BeginTx_def
  have begin_ok: "db_BeginTx pg d = Inr d" using h by (simp add: db_BeginTx_def exec_def healthy_def)
  consider "amount \<le> 0" | "0 < amount" "usr_balance r < amount" | "0 < amount" "amount \<le> usr_balance r"
    by linarith
  then show ?thesis
  proof cases
    case 1
    then show ?thesis by (simp add: unf)
  next
    case 2
    then show ?thesis
      using begin_ok h u r
      by (simp add: unf CreateTransactionRecordTx_def sql_select_balance_def exec_def uuid_arg_def healthy_def)
  next
    case 3
    have nofault: "fault pg st = None" for st using h by (simp add: healthy_def)
    from CreateTransactionRecordTx_succeeds[OF ok nofault u r _ 3(2) fresh(1), of currency] 3
    obtain tx1 where tx1: "add_balance (- amount) u d = Inr tx1"
      and c: "CreateTransactionRecordTx pg d userID amount currency =
        Inr (scan_payment (new_payment_row pg u amount currency),
          tx1\<lparr>tbl_payments := tbl_payments d @ [new_payment_row pg u amount currency]\<rparr>)"
      by auto
    note tx1' = add_balance_Inr(1)[OF tx1]
    have s: "SaveEventTx pg (tx1\<lparr>tbl_payments := tbl_payments d @ [new_payment_row pg u amount currency]\<rparr>)
        ''payment'' (gen_uuid pg S_insert_payment) ''payment.succeeded''
        (webhookPayload (scan_payment (new_payment_row pg u amount currency)) now)
      = Inr (tx1\<lparr>tbl_payments := tbl_payments d @ [new_payment_row pg u amount currency],
               tbl_outbox := tbl_outbox d @ [outbox_row_for pg (gen_uuid pg S_insert_payment) j]\<rparr>)"
      using nofault fresh j
      by (simp add: SaveEventTx_def sql_insert_outbox_def exec_def jsonb_arg_def outbox_row_for_def tx1')
    have pid: "p_ID (scan_payment (new_payment_row pg u amount currency)) = gen_uuid pg S_insert_payment"
      by (simp add: scan_payment_def)
    show ?thesis
      using 3 begin_ok c s h by (simp add: unf pid tx_Commit_def healthy_def tx1')
  qed
qed

text \<open>A concrete wallet for the witnesses: one user with 500 minor units.\<close>

definition user0 :: user_row where
  "user0 = \<lparr>usr_id = ''u1'', usr_email = ''m@x'', usr_balance = 500, usr_currency = ''INR'',
     usr_created_at = 1\<rparr>"

definition wallet_db :: db where
  "wallet_db = empty_db\<lparr>tbl_users := [user0]\<rparr>"

lemmas wallet_defs = wallet_db_def user0_def empty_db_def

text \<open>The definitions a charge on the concrete engine evaluates through.\<close>

lemmas charge_eval = ProcessCharge_def sql_service_def NewPaymentService_def NewPaymentRepository_def
  NewOutboxRepository_def BeginTx_def CreateTransactionRecordTx_def SaveEventTx_def
  sql_insert_outbox_def sql_defs pg0_def find_user_def find_payment_def
  add_balance_def is_int64_def int64_bounds Let_def new_payment_row_def scan_payment_def

lemma wallet_ok: "db_ok wallet_db" "ledger_ok pg0 wallet_db" "healthy pg0"
  by (simp_all add: db_ok_def ledger_ok_def uuid_laws_def wallet_defs pg0_def is_int64_def int64_bounds
      healthy_def)

lemma wallet_user: "uuid_in pg0 ''u1'' = Some ''u1''" "find_user ''u1'' wallet_db = Some user0"
  by (simp_all add: pg0_def find_user_def wallet_defs)

theorem charge_exact_effect_witness:
  "tbl_users (fst (ChargeOn pg0 time_zero wallet_db ''u1'' 200 ''INR'')) = [user0\<lparr>usr_balance := 300\<rparr>]
   \<and> snd (ChargeOn pg0 time_zero wallet_db ''u1'' 501 ''INR'')
     = Inl (ErrNew ''insufficient account balances to clear transaction'')"
proof -
  have j: "jsonb_in pg0 s = Some s" for s by (simp add: pg0_def)
  have f: "find_payment (gen_uuid pg0 S_insert_payment) wallet_db = None"
    "gen_uuid pg0 S_insert_outbox \<notin> ob_id ` set (tbl_outbox wallet_db)"
    "length (gen_uuid pg0 S_insert_payment) \<le> 100"
    by (simp_all add: pg0_def find_payment_def wallet_defs)
  note E = charge_exact_effect[OF wallet_ok(1,3) wallet_user f j]
  have "usr_balance user0 = 500" "tbl_users wallet_db = [user0]" "usr_id user0 = ''u1''"
    by (simp_all add: wallet_defs)
  then show ?thesis by (simp add: E)
qed

section \<open>Atomicity\<close>

text \<open>
  C2. A charge is all or nothing whatever fails on the way (any statement refused, the
  commit refused, or committed with the reply lost): either the database is as before, or
  exactly the wallet of the requested user went down by the positive amount, which it covered, the
  same amount became settled for that user, and one payment and one outbox event for it were
  added. A charge that reports success has done the latter.
\<close>

theorem charge_all_or_nothing:
  assumes "ledger_ok pg d" and "ChargeOn pg now d userID amount currency = (d', res)"
  shows "(d' = d \<or> (\<exists>p. uuid_in pg userID = Some (p_UserID p)
        \<and> charged balance_of settled_of payment_ids notified_ids amount currency p d d'))
    \<and> (\<forall>p. res = Inr p \<longrightarrow> uuid_in pg userID = Some (p_UserID p)
        \<and> charged balance_of settled_of payment_ids notified_ids amount currency p d d')"
  using sql_service.charge_atomic[OF assms(1) assms(2)[unfolded sql_service_def]] by blast

theorem charge_all_or_nothing_witness:
  "\<exists>d' e. ChargeOn (pg0\<lparr>commit_out := CommitLost (ErrNew ''bad connection'')\<rparr>) time_zero wallet_db ''u1'' 200 ''INR''
      = (d', Inl e)
    \<and> (d' = wallet_db \<or> (\<exists>p. charged balance_of settled_of payment_ids notified_ids 200 ''INR'' p wallet_db d'))
    \<and> balance_of ''u1'' d' = 300"
proof -
  let ?pg = "pg0\<lparr>commit_out := CommitLost (ErrNew ''bad connection'')\<rparr>"
  obtain d' res where run: "ChargeOn ?pg time_zero wallet_db ''u1'' 200 ''INR'' = (d', res)" by fastforce
  have ok: "ledger_ok ?pg wallet_db"
    using wallet_ok(2) by (simp add: ledger_ok_def uuid_laws_def)
  have "balance_of ''u1'' d' = 300 \<and> (\<exists>e. res = Inl e)"
    using run
    by (simp add: charge_eval wallet_defs
        balance_of_def) auto
  with charge_all_or_nothing[OF ok run] run show ?thesis by blast
qed

section \<open>All reachable databases\<close>

text \<open>
  What the running program does to the database: charges and refunds through the service,
  polls of the outbox worker, new users and new API keys, each with its own engine behaviour
  (failures, clock, generated ids, and for a poll the answers of the task queue). The engines share one input syntax \<open>uin\<close> of \<^verbatim>\<open>uuid\<close>, under which
  printed and generated values read back as themselves.
\<close>

definition uuid_idem :: "(string \<Rightarrow> string option) \<Rightarrow> bool" where
  "uuid_idem uin \<longleftrightarrow> (\<forall>s u. uin s = Some u \<longrightarrow> uin u = Some u)"

definition engine_for :: "(string \<Rightarrow> string option) \<Rightarrow> pg \<Rightarrow> bool" where
  "engine_for uin pg \<longleftrightarrow> uuid_in pg = uin \<and> (\<forall>st. uin (gen_uuid pg st) = Some (gen_uuid pg st))"

inductive ledger_step :: "(string \<Rightarrow> string option) \<Rightarrow> db \<Rightarrow> db \<Rightarrow> bool"
  for uin :: "string \<Rightarrow> string option" where
  step_charge: "engine_for uin pg \<Longrightarrow> ChargeOn pg now d userID amount currency = (d', res) \<Longrightarrow>
    ledger_step uin d d'"
| step_refund: "engine_for uin pg \<Longrightarrow> RefundOn pg d paymentID = (d', res) \<Longrightarrow> ledger_step uin d d'"
| step_poll: "engine_for uin pg \<Longrightarrow>
    ProcessPendingEvents pg scripted_enqueue locked bad now d ([], outs) = (d', q') \<Longrightarrow> ledger_step uin d d'"
| step_user: "engine_for uin pg \<Longrightarrow> 0 \<le> b \<Longrightarrow> CreateUser pg d email b = (d', ures) \<Longrightarrow>
    ledger_step uin d d'"
| step_key: "engine_for uin pg \<Longrightarrow> GenerateAPIKey rand bcrypt pg d userID label = (d', kres) \<Longrightarrow>
    ledger_step uin d d'"

text \<open>
  The invariant: the schema holds, stored references are printed values, no wallet is
  overdrawn, payments have positive amounts, and the outbox has exactly one event per
  payment, in the order of the payments.
\<close>

definition ledger_inv :: "(string \<Rightarrow> string option) \<Rightarrow> db \<Rightarrow> bool" where
  "ledger_inv uin d \<longleftrightarrow> uuid_idem uin \<and> db_ok d
     \<and> (\<forall>p \<in> set (tbl_payments d). uin (pay_user_id p) = Some (pay_user_id p) \<and> 0 < pay_amount p)
     \<and> (\<forall>r \<in> set (tbl_outbox d). uin (ob_id r) = Some (ob_id r))
     \<and> (\<forall>v. 0 \<le> balance_of v d)
     \<and> notified_ids d = payment_ids d"

lemma ledger_inv_ok:
  "ledger_inv uin d \<Longrightarrow> engine_for uin pg \<Longrightarrow> ledger_ok pg d"
  "ledger_inv uin d \<Longrightarrow> engine_for uin pg \<Longrightarrow> outbox_ok pg d"
  by (auto simp: ledger_inv_def engine_for_def ledger_ok_def uuid_laws_def uuid_idem_def outbox_ok_def db_ok_def)

lemma ChargeOn_cases:
  assumes "ChargeOn pg now d userID amount currency = (d', res)"
  shows "d' = d \<or> (\<exists>p tx1 row. 0 < amount \<and> CreateTransactionRecordTx pg d userID amount currency = Inr (p, tx1)
    \<and> d' = tx1\<lparr>tbl_outbox := tbl_outbox tx1 @ [row]\<rparr> \<and> ob_aggregate_id row = p_ID p
    \<and> ob_id row = gen_uuid pg S_insert_outbox \<and> ob_id row \<notin> ob_id ` set (tbl_outbox tx1))"
proof (cases "0 < amount \<and> (\<exists>p tx1 tx2. db_BeginTx pg d = Inr d
    \<and> CreateTransactionRecordTx pg d userID amount currency = Inr (p, tx1)
    \<and> SaveEventTx pg tx1 ''payment'' (p_ID p) ''payment.succeeded'' (webhookPayload p now) = Inr tx2)")
  case True
  then obtain p tx1 tx2 where pos: "0 < amount" and b: "db_BeginTx pg d = Inr d"
    and c: "CreateTransactionRecordTx pg d userID amount currency = Inr (p, tx1)"
    and s: "SaveEventTx pg tx1 ''payment'' (p_ID p) ''payment.succeeded'' (webhookPayload p now) = Inr tx2"
    by blast
  have "d' = fst (tx_Commit pg tx2 d)"
    using assms pos b c s
    by (auto simp: ProcessCharge_def sql_service_def NewPaymentService_def NewPaymentRepository_def
        NewOutboxRepository_def BeginTx_def split: prod.splits option.splits)
  with tx_Commit_cases(1)[of pg tx2 d] SaveEventTx_Inr[OF s] pos c show ?thesis by auto
next
  case False
  moreover have "db_BeginTx pg d = Inr tx \<Longrightarrow> tx = d" for tx
    by (auto simp: db_BeginTx_def exec_def split: option.splits)
  ultimately have "d' = d"
    using assms
    by (auto simp: ProcessCharge_def sql_service_def NewPaymentService_def NewPaymentRepository_def
        NewOutboxRepository_def BeginTx_def split: if_splits sum.splits)
  then show ?thesis by simp
qed

lemma charge_keeps_inv:
  assumes inv: "ledger_inv uin d" and e: "engine_for uin pg"
    and run: "ChargeOn pg now d userID amount currency = (d', res)"
  shows "ledger_inv uin d'"
proof (cases "d' = d")
  case False
  with ChargeOn_cases[OF run] obtain p tx1 row where pos: "0 < amount"
    and c: "CreateTransactionRecordTx pg d userID amount currency = Inr (p, tx1)"
    and d': "d' = tx1\<lparr>tbl_outbox := tbl_outbox tx1 @ [row]\<rparr>" and agg: "ob_aggregate_id row = p_ID p"
    and oid: "ob_id row = gen_uuid pg S_insert_outbox" "ob_id row \<notin> ob_id ` set (tbl_outbox tx1)"
    by blast
  note eff = CreateTransactionRecordTx_effect[OF ledger_inv_ok(1)[OF inv e] c]
  from CreateTransactionRecordTx_Inr[OF c] obtain u tx0 where
    tx1: "tbl_payments tx1 = tbl_payments d @ [new_payment_row pg u amount currency]"
    by auto
  have bal: "balance_of v d' = balance_of v tx1" for v by (simp add: d' balance_of_def)
  have nonneg: "0 \<le> balance_of v d'" for v
    using eff(3) eff(4)[of v] inv by (simp add: bal ledger_inv_def)
  have uin: "uuid_in pg = uin" "uin (ob_id row) = Some (ob_id row)"
    using e oid by (auto simp: engine_for_def)
  show ?thesis
    using eff(1) nonneg inv uin pos oid agg eff(9,10)
    by (auto simp: ledger_inv_def ledger_ok_def db_ok_def d' tx1 notified_ids_def payment_ids_def)
qed (use inv in simp)

lemma refund_keeps_inv:
  assumes inv: "ledger_inv uin d" and e: "engine_for uin pg" and eff: "refund_effect pg paymentID d d'"
  shows "ledger_inv uin d'"
proof -
  note R = refund_effect_ledger[OF ledger_inv_ok(1)[OF inv e] eff]
  from R(3) obtain i r where r: "find_payment i d = Some r"
    and bal: "\<And>v. balance_of v d' = balance_of v d + (if v = pay_user_id r then pay_amount r else 0)"
    by blast
  have "0 < pay_amount r" using find_payment_Some[OF r] inv by (auto simp: ledger_inv_def)
  with bal inv have nonneg: "0 \<le> balance_of v d'" for v by (simp add: ledger_inv_def add_nonneg_nonneg)
  have rows: "\<forall>p \<in> set (tbl_payments d'). \<exists>p0 \<in> set (tbl_payments d).
      pay_user_id p = pay_user_id p0 \<and> pay_amount p = pay_amount p0"
    using eff by (fastforce simp: refund_effect_def set_status_def set_update_where dest: add_balance_frame(3))
  have "\<forall>p \<in> set (tbl_payments d'). uin (pay_user_id p) = Some (pay_user_id p) \<and> 0 < pay_amount p"
  proof
    fix p assume "p \<in> set (tbl_payments d')"
    with rows obtain p0 where "p0 \<in> set (tbl_payments d)" "pay_user_id p = pay_user_id p0"
      "pay_amount p = pay_amount p0" by blast
    with inv show "uin (pay_user_id p) = Some (pay_user_id p) \<and> 0 < pay_amount p"
      by (auto simp: ledger_inv_def)
  qed
  with R(1,4,5) nonneg inv show ?thesis
    by (simp add: ledger_inv_def ledger_ok_def notified_ids_def payment_ids_def)
qed

lemma poll_keeps_inv:
  assumes inv: "ledger_inv uin d" and e: "engine_for uin pg" and Q: "task_queue enq tasks"
    and run: "ProcessPendingEvents pg enq locked bad now d q = (d', q')"
  shows "ledger_inv uin d' \<and> tbl_users d' = tbl_users d \<and> tbl_payments d' = tbl_payments d"
proof -
  note P = task_queue.poll_rows[OF Q ledger_inv_ok(2)[OF inv e] run]
  then obtain rows where d': "d' = d\<lparr>tbl_outbox := rows\<rparr>" by blast
  have "map ob_id rows = map ob_id (tbl_outbox d) \<and> map ob_aggregate_id rows = map ob_aggregate_id (tbl_outbox d)"
    using conjunct1[OF P] unfolding d' by simp (induction rule: list_all2_induct, auto simp: row_step_def)
  then have ids: "map ob_id rows = map ob_id (tbl_outbox d)"
    and agg: "map ob_aggregate_id rows = map ob_aggregate_id (tbl_outbox d)"
    by auto
  have "\<forall>r \<in> set rows. uin (ob_id r) = Some (ob_id r)"
  proof
    fix r assume "r \<in> set rows"
    then have "ob_id r \<in> set (map ob_id (tbl_outbox d))" unfolding ids[symmetric] by simp
    with inv show "uin (ob_id r) = Some (ob_id r)" by (auto simp: ledger_inv_def)
  qed
  with inv ids agg show ?thesis
    by (simp add: d' ledger_inv_def db_ok_def notified_ids_def payment_ids_def balance_of_def)
qed

lemma user_keeps_inv:
  assumes inv: "ledger_inv uin d" and "0 \<le> b" and ins: "sql_insert_user pg d email b = Inr (row, d')"
  shows "ledger_inv uin d'"
  using inv assms(2) sql_insert_user_Inr[OF ins]
  by (auto simp: ledger_inv_def db_ok_def balance_of_def notified_ids_def payment_ids_def)

lemma GenerateAPIKey_frame:
  assumes "GenerateAPIKey rand bcrypt pg d userID label = (d', res)"
  shows "d' = d\<lparr>tbl_api_keys := tbl_api_keys d'\<rparr>"
  using assms by (auto simp: GenerateAPIKey_def Let_def split: sum.splits prod.splits option.splits
      dest: InsertKey_frame)

lemma key_keeps_inv:
  assumes inv: "ledger_inv uin d" and "GenerateAPIKey rand bcrypt pg d userID label = (d', res)"
  shows "ledger_inv uin d'"
  using inv by (subst GenerateAPIKey_frame[OF assms(2)])
    (simp add: ledger_inv_def db_ok_def balance_of_def notified_ids_def payment_ids_def)

lemma RefundOn_cases:
  assumes "ledger_ok pg d" and "RefundOn pg d paymentID = (d', res)"
  shows "d' = d \<or> refund_effect pg paymentID d d'"
    and "res = Inr p \<Longrightarrow> refund_effect pg paymentID d d' \<and> p_Status p = ''refunded''"
  using assms RefundTransactionRecord_cases[OF assms(1)]
  by (auto simp: ProcessRefund_def sql_service_def NewPaymentService_def NewPaymentRepository_def
      split: if_splits)

interpretation ledger: transition_system
  "\<lambda>d. uuid_idem uin \<and> d = empty_db" "ledger_step uin" "ledger_inv uin" for uin
proof unfold_locales
  show "ledger_inv uin d" if "uuid_idem uin \<and> d = empty_db" for d
    using that by (simp add: ledger_inv_def db_ok_def empty_db_def balance_of_def notified_ids_def payment_ids_def)
  show "ledger_inv uin t" if inv: "ledger_inv uin s" and "ledger_step uin s t" for s t
    using that(2)
  proof (cases rule: ledger_step.cases)
    case step_charge
    then show ?thesis using charge_keeps_inv[OF inv] by blast
  next
    case (step_refund pg paymentID res)
    with RefundOn_cases(1)[OF ledger_inv_ok(1)[OF inv]] show ?thesis
      using inv refund_keeps_inv[OF inv] by blast
  next
    case step_poll
    from poll_keeps_inv[OF inv step_poll(1) scripted.task_queue_axioms step_poll(2)] show ?thesis by simp
  next
    case (step_user pg b email ures)
    with CreateUser_cases(1) show ?thesis using inv user_keeps_inv[OF inv] by blast
  next
    case step_key
    then show ?thesis using key_keeps_inv[OF inv] by blast
  qed
qed

section \<open>Users, holdings and refunds along executions\<close>

lemma ledger_reach:
  assumes "uuid_idem uin" and "reach (\<lambda>d. d = empty_db) (ledger_step uin) d"
  shows "reach (\<lambda>d. uuid_idem uin \<and> d = empty_db) (ledger_step uin) d"
  using assms(2) by (induction rule: reach.induct) (auto intro: reach.intros assms(1))

lemma GenerateAPIKey_tables:
  assumes "GenerateAPIKey rand bcrypt pg d userID label = (d', res)"
  shows "tbl_users d' = tbl_users d" and "tbl_payments d' = tbl_payments d"
  by (subst GenerateAPIKey_frame[OF assms], simp)+

lemma find_payment_cong: "tbl_payments d' = tbl_payments d \<Longrightarrow> find_payment i d' = find_payment i d"
  by (simp add: find_payment_def)

lemma CreateUser_frame:
  assumes "CreateUser pg d email b = (d', res)"
  obtains "d' = d" | row where "d' = d\<lparr>tbl_users := tbl_users d @ [row]\<rparr>"
    "usr_id row \<notin> usr_id ` set (tbl_users d)"
proof -
  consider "d' = d" | row where "sql_insert_user pg d email b = Inr (row, d')"
    using CreateUser_cases(1)[OF assms] by blast
  then show thesis
  proof cases
    case (2 row)
    from sql_insert_user_Inr(1,2)[OF 2] show thesis by (rule that(2))
  qed (rule that(1))
qed

lemma charge_holdings:
  assumes "ledger_inv uin d" and "engine_for uin pg"
    and "ChargeOn pg now d userID amount currency = (d', res)"
  shows "holdings v d' = holdings v d"
  using sql_service.charge_atomic[OF ledger_inv_ok(1)[OF assms(1,2)] assms(3)[unfolded sql_service_def]]
  by (auto simp: charged_def holdings_def)

lemma ledger_step_frame:
  assumes inv: "ledger_inv uin d" and "ledger_step uin d d'" and v: "v \<in> usr_id ` set (tbl_users d)"
  shows "holdings v d' = holdings v d" and "v \<in> usr_id ` set (tbl_users d')"
proof -
  from assms(2) have "holdings v d' = holdings v d \<and> v \<in> usr_id ` set (tbl_users d')"
  proof (cases rule: ledger_step.cases)
    case (step_charge pg now userID amount currency res)
    have "usr_id ` set (tbl_users d') = usr_id ` set (tbl_users d)"
      using ChargeOn_cases[OF step_charge(2)]
      by (auto dest!: CreateTransactionRecordTx_Inr add_balance_frame(9))
    with charge_holdings[OF inv step_charge] v show ?thesis by blast
  next
    case (step_refund pg paymentID res)
    note R = RefundOn_cases(1)[OF ledger_inv_ok(1)[OF inv step_refund(1)] step_refund(2)]
    then have "usr_id ` set (tbl_users d') = usr_id ` set (tbl_users d)"
      by (auto simp: refund_effect_def dest!: add_balance_frame(9))
    with R refund_effect_ledger(2)[OF ledger_inv_ok(1)[OF inv step_refund(1)]] v show ?thesis by blast
  next
    case step_poll
    from poll_keeps_inv[OF inv step_poll(1) scripted.task_queue_axioms step_poll(2)] v show ?thesis
      by (simp add: holdings_def balance_of_def settled_of_def)
  next
    case (step_user pg b email ures)
    from step_user(3) show ?thesis
      by (rule CreateUser_frame) (use v in \<open>auto simp: holdings_def balance_of_def settled_of_def\<close>)
  next
    case step_key
    with v GenerateAPIKey_tables[OF step_key(2)] show ?thesis
      by (simp add: holdings_def balance_of_def settled_of_def)
  qed
  then show "holdings v d' = holdings v d" "v \<in> usr_id ` set (tbl_users d')" by auto
qed

definition refunded :: "string \<Rightarrow> db \<Rightarrow> bool" where
  "refunded i d \<longleftrightarrow> map_option pay_status (find_payment i d) = Some ''refunded''"

lemma refunded_stays:
  assumes inv: "ledger_inv uin d" and "ledger_step uin d d'" and i: "refunded i d"
  shows "refunded i d'"
  using assms(2)
proof (cases rule: ledger_step.cases)
  case (step_charge pg now userID amount currency res)
  with ChargeOn_cases[OF step_charge(2)] i show ?thesis
    by (auto simp: refunded_def find_payment_def find_append_list dest!: CreateTransactionRecordTx_Inr split: option.splits)
next
  case (step_refund pg paymentID res)
  with RefundOn_cases(1)[OF ledger_inv_ok(1)[OF inv step_refund(1)] step_refund(2)] i show ?thesis
    by (auto simp: refund_effect_def refunded_def find_payment_set_status refundable_iff
        dest!: add_balance_frame(3) find_payment_cong[where i = i] split: option.splits)
next
  case step_poll
  from poll_keeps_inv[OF inv step_poll(1) scripted.task_queue_axioms step_poll(2)] i show ?thesis by (simp add: refunded_def find_payment_def)
next
  case (step_user pg b email ures)
  from step_user(3) show ?thesis
    by (rule CreateUser_frame) (use i in \<open>auto simp: refunded_def find_payment_def\<close>)
next
  case step_key
  with i GenerateAPIKey_tables[OF step_key(2)] show ?thesis by (simp add: refunded_def find_payment_def)
qed

lemma refunded_refused:
  assumes inv: "ledger_inv uin d" and e: "engine_for uin pg" and i: "uin paymentID = Some i" "refunded i d"
    and run: "RefundOn pg d paymentID = (d', res)"
  shows "d' = d \<and> (\<exists>err. res = Inl err)"
proof -
  have "\<not> refund_effect pg paymentID d d'"
    using i e by (auto simp: refund_effect_def refunded_def engine_for_def refundable_iff)
  with RefundOn_cases[OF ledger_inv_ok(1)[OF inv e] run] show ?thesis by (cases res) auto
qed

section \<open>The properties of all executions\<close>

text \<open>
  C3. In every database the program can reach from an empty one, whatever fails on the way:
  no wallet is overdrawn, every payment is for a positive amount and belongs to an existing
  user, and the outbox holds exactly one event per payment, in the order of the payments.
\<close>

theorem reachable_ledger_sound:
  assumes "uuid_idem uin" and "reach (\<lambda>d. d = empty_db) (ledger_step uin) d"
  shows "(\<forall>u. 0 \<le> balance_of u d)
    \<and> (\<forall>p \<in> set (tbl_payments d). 0 < pay_amount p \<and> pay_user_id p \<in> usr_id ` set (tbl_users d))
    \<and> notified_ids d = payment_ids d \<and> distinct (payment_ids d)"
  using ledger.reach_inv[OF ledger_reach[OF assms]] by (auto simp: ledger_inv_def db_ok_def payment_ids_def)

text \<open>
  C4. Money is conserved: along every execution, for every user that exists at its start, the
  wallet balance plus the amounts of the charges not refunded stays the same.
\<close>

theorem holdings_conserved:
  assumes "(ledger_step uin)\<^sup>*\<^sup>* d d'" and inv: "ledger_inv uin d" and u: "find_user u d \<noteq> None"
  shows "balance_of u d' + settled_of u d' = balance_of u d + settled_of u d"
proof -
  from assms(1) have "u \<in> usr_id ` set (tbl_users d') \<and> holdings u d' = holdings u d"
  proof (induction rule: rtranclp_induct)
    case base
    with u show ?case by (simp add: find_user_None)
  next
    case (step d1 d2)
    from ledger.steps_inv[OF step(1) inv] have "ledger_inv uin d1" .
    from ledger_step_frame[OF this step(2)] step(3) show ?case by simp
  qed
  then show ?thesis by (simp add: holdings_def)
qed

text \<open>
  C6. A payment is refunded at most once: after a refund that reported success, every later
  refund of the same payment, however its id is spelled and whatever ran in between,
  reports an error and leaves the database unchanged.
\<close>

theorem refund_at_most_once:
  assumes inv: "ledger_inv uin d" and e: "engine_for uin pg" "engine_for uin pg'"
    and first: "RefundOn pg d paymentID = (d1, Inr p)"
    and between: "(ledger_step uin)\<^sup>*\<^sup>* d1 d2"
    and same: "uin paymentID' = uin paymentID"
    and again: "RefundOn pg' d2 paymentID' = (d3, res)"
  shows "d3 = d2 \<and> (\<exists>err. res = Inl err)"
proof -
  note ok = ledger_inv_ok(1)[OF inv e(1)]
  have eff: "refund_effect pg paymentID d d1" using RefundOn_cases(2)[OF ok first] by simp
  from refund_effect_ledger(3)[OF ok eff] e(1) obtain i where
    i: "uin paymentID = Some i" "refunded i d1"
    by (auto simp: engine_for_def refunded_def)
  have inv1: "ledger_inv uin d1" by (rule refund_keeps_inv[OF inv e(1) eff])
  from between have "refunded i d2"
  proof (induction rule: rtranclp_induct)
    case (step x y)
    from ledger.steps_inv[OF step(1) inv1] have "ledger_inv uin x" .
    from refunded_stays[OF this step(2,3)] show ?case .
  qed (rule i(2))
  with refunded_refused[OF ledger.steps_inv[OF between inv1] e(2) _ _ again] i(1) same
  show ?thesis by simp
qed

subsection \<open>A concrete execution\<close>

text \<open>A charge of 200 minor units on the wallet, then a refund of that payment.\<close>

abbreviation uin0 :: "string \<Rightarrow> string option" where
  "uin0 \<equiv> \<lambda>s. if s = '''' then None else Some s"

definition paid_db :: db where
  "paid_db = fst (ChargeOn pg0 time_zero wallet_db ''u1'' 200 ''INR'')"

definition repaid_db :: db where
  "repaid_db = fst (RefundOn pg0 paid_db ''pay-1'')"

lemma engine0: "engine_for uin0 pg0" "uuid_idem uin0"
  by (auto simp: engine_for_def uuid_idem_def pg0_def)

lemma wallet_inv: "ledger_inv uin0 wallet_db"
  using wallet_ok(1) engine0(2)
  by (simp add: ledger_inv_def wallet_defs balance_of_def notified_ids_def payment_ids_def)

lemma paid_db_eq:
  "tbl_users paid_db = [user0\<lparr>usr_balance := 300\<rparr>]"
  "tbl_payments paid_db = [new_payment_row pg0 ''u1'' 200 ''INR'']"
  "map ob_id (tbl_outbox paid_db) = [''evt-1'']"
  by (simp_all add: paid_db_def charge_eval wallet_defs)

lemma paid_db_result: "\<exists>p. ChargeOn pg0 time_zero wallet_db ''u1'' 200 ''INR'' = (paid_db, Inr p)"
  by (simp add: paid_db_def charge_eval wallet_defs)

lemma charge_run: "ledger_step uin0 wallet_db paid_db"
proof -
  have "ChargeOn pg0 time_zero wallet_db ''u1'' 200 ''INR''
      = (paid_db, snd (ChargeOn pg0 time_zero wallet_db ''u1'' 200 ''INR''))"
    by (simp add: paid_db_def)
  from step_charge[OF engine0(1) this] show ?thesis .
qed

lemma paid_inv: "ledger_inv uin0 paid_db"
  by (rule ledger.inv_step[OF wallet_inv charge_run])

lemma repay_run:
  "\<exists>p. RefundOn pg0 paid_db ''pay-1'' = (repaid_db, Inr p)"
  "balance_of ''u1'' repaid_db = 500"
  by (simp_all add: repaid_db_def ProcessRefund_def sql_service_def NewPaymentService_def
      NewPaymentRepository_def RefundTransactionRecord_def sql_defs find_payment_def pg0_def
      paid_db_eq new_payment_row_def refundable_def add_balance_def set_status_def
      user0_def is_int64_def int64_bounds Let_def balance_of_def)

lemma repay_step: "ledger_step uin0 paid_db repaid_db"
  using repay_run(1) step_refund[OF engine0(1)] by blast

theorem holdings_conserved_witness:
  "balance_of ''u1'' paid_db + settled_of ''u1'' paid_db = 500 \<and> balance_of ''u1'' paid_db = 300"
proof -
  have "find_user ''u1'' wallet_db \<noteq> None" by (simp add: wallet_user)
  moreover have "(ledger_step uin0)\<^sup>*\<^sup>* wallet_db paid_db" using charge_run by (rule r_into_rtranclp)
  ultimately have "balance_of ''u1'' paid_db + settled_of ''u1'' paid_db
      = balance_of ''u1'' wallet_db + settled_of ''u1'' wallet_db"
    by (intro holdings_conserved[OF _ wallet_inv])
  then show ?thesis
    by (simp add: balance_of_def settled_of_def wallet_defs paid_db_eq)
qed

theorem refund_at_most_once_witness:
  "snd (RefundOn pg0 repaid_db ''pay-1'') \<in> range Inl \<and> fst (RefundOn pg0 repaid_db ''pay-1'') = repaid_db
   \<and> balance_of ''u1'' repaid_db = 500"
proof -
  obtain p where first: "RefundOn pg0 paid_db ''pay-1'' = (repaid_db, Inr p)" using repay_run(1) by blast
  obtain d3 res where again: "RefundOn pg0 repaid_db ''pay-1'' = (d3, res)" by fastforce
  from refund_at_most_once[OF paid_inv engine0(1) engine0(1) first rtranclp.rtrancl_refl refl again]
  show ?thesis using repay_run(2) by (auto simp: again)
qed

definition born_db :: db where
  "born_db = fst (CreateUser pg0 empty_db ''m@x'' 500)"

definition bought_db :: db where
  "bought_db = fst (ChargeOn pg0 time_zero born_db ''evt-1'' 200 ''INR'')"

lemma bought_run: "reach (\<lambda>d. d = empty_db) (ledger_step uin0) bought_db"
proof -
  have "ledger_step uin0 empty_db born_db"
    by (rule step_user[OF engine0(1), where b = 500]) (auto simp: born_db_def prod_eq_iff)
  moreover have "ledger_step uin0 born_db bought_db"
    by (rule step_charge[OF engine0(1)]) (auto simp: bought_db_def prod_eq_iff)
  moreover have "reach (\<lambda>d. d = empty_db) (ledger_step uin0) empty_db" by (rule reach_init) (rule refl)
  ultimately show ?thesis using reach_step[of _ "ledger_step uin0"] by blast
qed

theorem reachable_ledger_sound_witness:
  "payment_ids bought_db = [''pay-1''] \<and> notified_ids bought_db = [''pay-1'']
   \<and> 0 \<le> balance_of ''evt-1'' bought_db"
proof -
  have "payment_ids bought_db = [''pay-1'']" by (simp add: charge_eval bought_db_def born_db_def CreateUser_def sql_insert_user_def empty_db_def payment_ids_def)
  then show ?thesis using reachable_ledger_sound[OF engine0(2) bought_run] by simp
qed

section \<open>The exact effect of a refund\<close>

text \<open>The payer of a stored payment has one row; the credit is refused only out of the range of the balance.\<close>

lemma credit_range:
  assumes ok: "ledger_ok pg d" and p: "p \<in> set (tbl_payments d)"
  shows "add_balance (pay_amount p) (pay_user_id p) d = (if \<not> is_int64 (balance_of (pay_user_id p) d + pay_amount p)
     then Inl (pq_error ''bigint out of range'')
     else Inr (d\<lparr>tbl_users := map (\<lambda>u. if usr_id u = pay_user_id p then u\<lparr>usr_balance := usr_balance u + pay_amount p\<rparr> else u) (tbl_users d)\<rparr>))"
proof -
  have db: "db_ok d" using ok by (simp add: ledger_ok_def)
  obtain u where u: "u \<in> set (tbl_users d)" "usr_id u = pay_user_id p" using db p by (auto simp: db_ok_def)
  have one: "x = u" if "x \<in> set (tbl_users d)" "usr_id x = pay_user_id p" for x
    using db that u by (auto simp: db_ok_def distinct_map inj_on_def)
  have "find_user (pay_user_id p) d = Some u"
    using find_key_unique[of usr_id "tbl_users d" u] db u by (simp add: db_ok_def find_user_def)
  then have "balance_of (pay_user_id p) d = usr_balance u" using db by (simp add: db_ok_def balance_of_find)
  then have "list_all (\<lambda>r. usr_id r = pay_user_id p \<longrightarrow> is_int64 (usr_balance r + pay_amount p)) (tbl_users d)
      \<longleftrightarrow> is_int64 (balance_of (pay_user_id p) d + pay_amount p)"
    using one u unfolding list_all_iff by metis
  then show ?thesis by (simp add: add_balance_def update_where_def)
qed

text \<open>
  C5. A refund on a healthy database, on every branch: an empty reference, an unknown payment and
  a payment that is not in a refundable state are refused and change nothing, as is a credit
  that would leave the range of the balance; otherwise exactly the row of the payer goes up by the
  amount of the payment, exactly the row of the payment becomes \<^verbatim>\<open>refunded\<close> with the time of the
  transaction, every other row and table stays as it is, and the payment is returned with that status.
\<close>

theorem refund_exact_effect:
  assumes ok: "ledger_ok pg d" and h: "healthy pg" and i: "paymentID = '''' \<or> uuid_in pg paymentID = Some i"
  shows "RefundOn pg d paymentID =
    (if paymentID = '''' then (d, Inl (ErrNew ''payment tracking reference ID cannot be empty''))
     else case List.find (\<lambda>p. pay_id p = i) (tbl_payments d) of
       None \<Rightarrow> (d, Inl (wrapf ''payment record not found or lock acquisition timed out'' sql_ErrNoRows))
     | Some p \<Rightarrow>
         if pay_status p \<noteq> ''succeeded''
         then (d, Inl (ErrNew (''invalid state transition: cannot refund a transaction with status ''
                 @ [CHR 0x27] @ pay_status p @ [CHR 0x27])))
         else if \<not> is_int64 (balance_of (pay_user_id p) d + pay_amount p)
         then (d, Inl (wrapf ''failed to return funds to user wallet balance'' (pq_error ''bigint out of range'')))
         else (d\<lparr>tbl_users := map (\<lambda>u. if usr_id u = pay_user_id p then u\<lparr>usr_balance := usr_balance u + pay_amount p\<rparr> else u) (tbl_users d),
                 tbl_payments := map (\<lambda>r. if pay_id r = i then r\<lparr>pay_status := ''refunded'', pay_updated_at := tx_now pg\<rparr> else r) (tbl_payments d)\<rparr>,
               Inr \<lparr>p_ID = i, p_UserID = pay_user_id p, p_Amount = pay_amount p, p_Currency = pay_currency p, p_Status = ''refunded'',
                 p_CreatedAt = db_time (pay_created_at p), p_UpdatedAt = db_time (tx_now pg)\<rparr>))"
proof -
  have nofault: "fault pg st = None" "commit_out pg = CommitOk" for st using h by (simp_all add: healthy_def)
  have row: "uuid_in pg (pay_user_id p) = Some (pay_user_id p)" "pay_status p \<in> set payment_status_enum" "pay_id p = i"
    "add_balance (pay_amount p) (pay_user_id p) d = (if \<not> is_int64 (balance_of (pay_user_id p) d + pay_amount p)
       then Inl (pq_error ''bigint out of range'')
       else Inr (d\<lparr>tbl_users := map (\<lambda>u. if usr_id u = pay_user_id p then u\<lparr>usr_balance := usr_balance u + pay_amount p\<rparr> else u) (tbl_users d)\<rparr>))"
    if "find_payment i d = Some p" for p
    using ok find_payment_Some[OF that] credit_range[OF ok, of p] by (auto simp: ledger_ok_def db_ok_def)
  have same: "find_payment i (d\<lparr>tbl_users := us\<rparr>) = find_payment i d" for us by (simp add: find_payment_def)
  have marked: "set_status st t i (d\<lparr>tbl_users := us\<rparr>) = d\<lparr>tbl_users := us, tbl_payments :=
      map (\<lambda>r. if pay_id r = i then r\<lparr>pay_status := st, pay_updated_at := t\<rparr> else r) (tbl_payments d)\<rparr>" for st t us
    by (simp add: set_status_def update_where_def)
  have succeeded: "refundable ''succeeded''" by (simp add: refundable_def)
  show ?thesis
  proof (cases "paymentID = ''''")
    case False
    with i have u: "uuid_in pg paymentID = Some i" by simp
    show ?thesis
    proof (cases "find_payment i d")
      case None
      with False u show ?thesis
        by (simp add: ProcessRefund_def sql_service_def NewPaymentService_def NewPaymentRepository_def
            RefundTransactionRecord_def sql_defs nofault find_payment_def[symmetric])
    next
      case (Some p)
      note R = row[OF Some]
      with False u Some show ?thesis
        by (simp add: ProcessRefund_def sql_service_def NewPaymentService_def NewPaymentRepository_def
            RefundTransactionRecord_def sql_defs nofault refundable_enum find_payment_def[symmetric] find_payment_set_status
            same marked succeeded Let_def)
    qed
  qed (simp add: ProcessRefund_def)
qed

theorem refund_exact_effect_witness:
  "tbl_users (fst (RefundOn pg0 paid_db ''pay-1'')) = [user0\<lparr>usr_balance := 500\<rparr>]
   \<and> map pay_status (tbl_payments (fst (RefundOn pg0 paid_db ''pay-1''))) = [''refunded'']
   \<and> snd (RefundOn pg0 paid_db ''pay-9'')
     = Inl (wrapf ''payment record not found or lock acquisition timed out'' sql_ErrNoRows)"
proof -
  have ok: "ledger_ok pg0 paid_db" by (rule ledger_inv_ok(1)[OF paid_inv engine0(1)])
  have u: "uuid_in pg0 i = Some i" if "i \<noteq> ''''" for i using that by (simp add: pg0_def)
  have "List.find (\<lambda>p. pay_id p = ''pay-1'') (tbl_payments paid_db) = Some (new_payment_row pg0 ''u1'' 200 ''INR'')"
    "List.find (\<lambda>p. pay_id p = ''pay-9'') (tbl_payments paid_db) = None"
    and id: "pay_id (new_payment_row pg0 ''u1'' 200 ''INR'') = ''pay-1''"
    by (simp_all add: paid_db_eq new_payment_row_def pg0_def)
  then show ?thesis
    by (simp add: refund_exact_effect[OF ok wallet_ok(3) disjI2[OF u]] paid_db_eq balance_of_def
        user0_def is_int64_def int64_bounds del: new_payment_row_simps) (simp add: new_payment_row_def)
qed

end
