(* ===== verification/AbstractLedger.thy ===== *)
theory AbstractLedger
  imports Ledger
begin

text \<open>
  What the payment core promises, without tables, statements, transactions or failures: a
  book of wallets and payments with three events, each with its guard. The system of
  charges, refunds, polls, new users and new keys over the SQL tables refines it.
\<close>

section \<open>The abstract book\<close>

datatype settlement = Settled | Refunded | OtherStatus string

record book =
  wallet :: "string \<rightharpoonup> int"
  payments :: "string \<rightharpoonup> string \<times> int \<times> settlement"
  announced :: "string list"

definition empty_book :: book where
  "empty_book = \<lparr>wallet = Map.empty, payments = Map.empty, announced = []\<rparr>"

text \<open>
  A charge needs a covering wallet and a fresh id, and announces the payment; a refund needs a
  settled payment and gives its amount back to the wallet it came from; a new wallet is not
  in debt.
\<close>

inductive book_step :: "book \<Rightarrow> book \<Rightarrow> bool" where
  open_wallet: "wallet a u = None \<Longrightarrow> 0 \<le> b \<Longrightarrow> book_step a (a\<lparr>wallet := (wallet a)(u \<mapsto> b)\<rparr>)"
| charge: "wallet a u = Some b \<Longrightarrow> 0 < amount \<Longrightarrow> amount \<le> b \<Longrightarrow> payments a i = None \<Longrightarrow>
    book_step a (a\<lparr>wallet := (wallet a)(u \<mapsto> b - amount), payments := (payments a)(i \<mapsto> (u, amount, Settled)),
                   announced := announced a @ [i]\<rparr>)"
| refund: "payments a i = Some (u, amount, Settled) \<Longrightarrow> wallet a u = Some b \<Longrightarrow>
    book_step a (a\<lparr>wallet := (wallet a)(u \<mapsto> b + amount), payments := (payments a)(i \<mapsto> (u, amount, Refunded))\<rparr>)"

inductive_cases book_stepE: "book_step a a'"

section \<open>The abstraction\<close>

definition settlement_of :: "string \<Rightarrow> settlement" where
  "settlement_of s = (if s = ''succeeded'' then Settled else if s = ''refunded'' then Refunded else OtherStatus s)"

definition book_of :: "db \<Rightarrow> book" where
  "book_of d = \<lparr>wallet = (\<lambda>u. map_option usr_balance (find_user u d)),
     payments = (\<lambda>i. map_option (\<lambda>p. (pay_user_id p, pay_amount p, settlement_of (pay_status p))) (find_payment i d)),
     announced = notified_ids d\<rparr>"

lemma book_of_frame:
  "tbl_users d' = tbl_users d \<Longrightarrow> tbl_payments d' = tbl_payments d \<Longrightarrow> notified_ids d' = notified_ids d \<Longrightarrow>
   book_of d' = book_of d"
  by (simp add: book_of_def find_user_def find_payment_def)

lemma wallet_add_balance:
  assumes "add_balance delta u d = Inr d1" and "find_user u d = Some r"
  shows "(\<lambda>v. map_option usr_balance (find_user v d1)) =
    (\<lambda>v. map_option usr_balance (find_user v d))(u \<mapsto> usr_balance r + delta)"
  using assms(2) unfolding add_balance_Inr[OF assms(1)] find_user_def
  by (auto simp: fun_eq_iff find_update_where_same split: option.splits)

section \<open>Simulation of each operation\<close>

lemma charge_simulated:
  assumes inv: "ledger_inv uin d" and e: "engine_for uin pg"
    and run: "ChargeOn pg now d userID amount currency = (d', res)"
  shows "book_of d' = book_of d \<or> book_step (book_of d) (book_of d')"
proof (cases "d' = d")
  case False
  with ChargeOn_cases[OF run] obtain p tx1 row where pos: "0 < amount"
    and c: "CreateTransactionRecordTx pg d userID amount currency = Inr (p, tx1)"
    and d': "d' = tx1\<lparr>tbl_outbox := tbl_outbox tx1 @ [row]\<rparr>" "ob_aggregate_id row = p_ID p"
    by blast
  from CreateTransactionRecordTx_Inr[OF c] obtain u r tx0 where r: "find_user u d = Some r"
    and le: "amount \<le> usr_balance r" and tx0: "add_balance (- amount) u d = Inr tx0"
    and fresh: "find_payment (gen_uuid pg S_insert_payment) d = None"
    and tx1: "tx1 = tx0\<lparr>tbl_payments := tbl_payments d @ [new_payment_row pg u amount currency]\<rparr>"
    and p: "p = scan_payment (new_payment_row pg u amount currency)"
    by blast
  let ?i = "gen_uuid pg S_insert_payment" and ?a = "book_of d"
  have users: "find_user v d' = find_user v tx0" for v by (simp add: d' tx1 find_user_def)
  have pays: "find_payment j d' = (case find_payment j d of
      None \<Rightarrow> if j = ?i then Some (new_payment_row pg u amount currency) else None | Some q \<Rightarrow> Some q)" for j
    by (simp add: d' tx1 find_payment_def find_append_list split: option.splits)
  have ann: "notified_ids d' = notified_ids d @ [?i]"
    using add_balance_frame(4)[OF tx0] by (simp add: d' tx1 p notified_ids_def scan_payment_def)
  have "book_of d' = ?a\<lparr>wallet := (wallet ?a)(u \<mapsto> usr_balance r - amount),
      payments := (payments ?a)(?i \<mapsto> (u, amount, Settled)), announced := announced ?a @ [?i]\<rparr>"
    using wallet_add_balance[OF tx0 r] fresh
    by (auto simp: book_of_def users pays ann fun_eq_iff settlement_of_def new_payment_row_def split: option.splits)
  moreover have "book_step ?a (?a\<lparr>wallet := (wallet ?a)(u \<mapsto> usr_balance r - amount),
      payments := (payments ?a)(?i \<mapsto> (u, amount, Settled)), announced := announced ?a @ [?i]\<rparr>)"
    using r le pos fresh by (intro book_step.charge) (simp_all add: book_of_def)
  ultimately show ?thesis by simp
qed simp

lemma refund_simulated:
  assumes inv: "ledger_inv uin d" and e: "engine_for uin pg" and eff: "refund_effect pg paymentID d d'"
  shows "book_step (book_of d) (book_of d')"
proof -
  from eff obtain i q d1 where q: "find_payment i d = Some q" and ref: "refundable (pay_status q)"
    and d1: "add_balance (pay_amount q) (pay_user_id q) d = Inr d1"
    and d': "d' = set_status ''refunded'' (tx_now pg) i d1"
    by (auto simp: refund_effect_def)
  have row: "q \<in> set (tbl_payments d)" using find_payment_Some[OF q] by simp
  with inv have enum: "pay_status q \<in> set payment_status_enum" "pay_user_id q \<in> usr_id ` set (tbl_users d)"
    by (auto simp: ledger_inv_def db_ok_def)
  obtain r where r: "find_user (pay_user_id q) d = Some r"
    using enum(2) by (cases "find_user (pay_user_id q) d") (auto simp: find_user_None)
  have succ: "pay_status q = ''succeeded''" using ref enum(1) by (simp add: refundable_enum)
  let ?a = "book_of d" and ?u = "pay_user_id q"
  have users: "find_user v d' = find_user v d1" for v by (simp add: d' find_user_def)
  have pays: "find_payment j d' = (case find_payment j d of None \<Rightarrow> None
      | Some p \<Rightarrow> Some (if j = i then p\<lparr>pay_status := ''refunded'', pay_updated_at := tx_now pg\<rparr> else p))" for j
    unfolding d' find_payment_set_status find_payment_cong[OF add_balance_frame(3)[OF d1]] ..
  have ann: "notified_ids d' = notified_ids d"
    using add_balance_frame(4)[OF d1] by (simp add: d' notified_ids_def)
  have "book_of d' = ?a\<lparr>wallet := (wallet ?a)(?u \<mapsto> usr_balance r + pay_amount q),
      payments := (payments ?a)(i \<mapsto> (?u, pay_amount q, Refunded))\<rparr>"
    using wallet_add_balance[OF d1 r] q
    by (auto simp: book_of_def users ann fun_eq_iff settlement_of_def pays split: option.splits)
  moreover have "book_step ?a (?a\<lparr>wallet := (wallet ?a)(?u \<mapsto> usr_balance r + pay_amount q),
      payments := (payments ?a)(i \<mapsto> (?u, pay_amount q, Refunded))\<rparr>)"
    using q r succ by (intro book_step.refund) (simp_all add: book_of_def settlement_of_def)
  ultimately show ?thesis by simp
qed

lemma user_simulated:
  assumes ins: "sql_insert_user pg d email b = Inr (row, d')" and b: "0 \<le> b"
  shows "book_step (book_of d) (book_of d')"
proof -
  note I = sql_insert_user_Inr[OF ins]
  have fresh: "find_user (usr_id row) d = None" using I(2) by (simp add: find_user_None)
  then have "book_of d' = (book_of d)\<lparr>wallet := (wallet (book_of d))(usr_id row \<mapsto> b)\<rparr>"
    using I(1,4)
    by (auto simp: book_of_def find_user_def find_payment_def find_append_list notified_ids_def fun_eq_iff split: option.splits)
  moreover have "book_step (book_of d) ((book_of d)\<lparr>wallet := (wallet (book_of d))(usr_id row \<mapsto> b)\<rparr>)"
    using fresh b by (intro book_step.open_wallet) (simp_all add: book_of_def)
  ultimately show ?thesis by simp
qed

lemma key_invisible:
  assumes "GenerateAPIKey rand bcrypt pg d userID label = (d', res)"
  shows "book_of d' = book_of d"
  by (intro book_of_frame) (subst GenerateAPIKey_frame[OF assms], simp add: notified_ids_def)+

lemma ledger_step_simulated:
  assumes inv: "ledger_inv uin d" and "ledger_step uin d d'"
  shows "book_of d' = book_of d \<or> book_step (book_of d) (book_of d')"
  using assms(2)
proof (cases rule: ledger_step.cases)
  case step_charge
  then show ?thesis using charge_simulated[OF inv] by blast
next
  case (step_refund pg paymentID res)
  with RefundOn_cases(1)[OF ledger_inv_ok(1)[OF inv]] show ?thesis
    using refund_simulated[OF inv] by blast
next
  case step_poll
  note P = poll_keeps_inv[OF inv step_poll(1) scripted.task_queue_axioms step_poll(2)]
  with inv have "notified_ids d' = notified_ids d" by (simp add: ledger_inv_def payment_ids_def)
  with P show ?thesis by (intro disjI1 book_of_frame) simp_all
next
  case (step_user pg b email ures)
  with CreateUser_cases(1) show ?thesis using user_simulated by blast
next
  case step_key
  then show ?thesis using key_invisible by blast
qed

interpretation ledger_book: refinement
  "\<lambda>d. uuid_idem uin \<and> d = empty_db" "ledger_step uin" "ledger_inv uin" "\<lambda>a. a = empty_book" book_step book_of for uin
proof unfold_locales
  show "book_of d = empty_book" if "uuid_idem uin \<and> d = empty_db" for d
    using that by (simp add: book_of_def empty_book_def empty_db_def find_user_def find_payment_def notified_ids_def)
qed (rule ledger_step_simulated)

text \<open>
  C7. The program refines the abstract book: every database it reaches abstracts to a book the
  three events can build, and every further operation, whatever fails in it, is one of the
  events or changes nothing the book shows.
\<close>

theorem ledger_refines_book:
  assumes "uuid_idem uin" and "reach (\<lambda>d. d = empty_db) (ledger_step uin) d"
  shows "reach (\<lambda>a. a = empty_book) book_step (book_of d)
    \<and> (\<forall>d'. ledger_step uin d d' \<longrightarrow> book_of d' = book_of d \<or> book_step (book_of d) (book_of d'))"
  using ledger_book.reach_refines[OF ledger_reach[OF assms]] ledger_book.step_refines[OF ledger_reach[OF assms]]
  by blast

theorem ledger_refines_book_witness:
  "reach (\<lambda>a. a = empty_book) book_step
     \<lparr>wallet = [''evt-1'' \<mapsto> 300], payments = [''pay-1'' \<mapsto> (''evt-1'', 200, Settled)], announced = [''pay-1'']\<rparr>"
proof -
  have "book_of bought_db =
      \<lparr>wallet = [''evt-1'' \<mapsto> 300], payments = [''pay-1'' \<mapsto> (''evt-1'', 200, Settled)], announced = [''pay-1'']\<rparr>"
    by (simp add: charge_eval bought_db_def born_db_def CreateUser_def sql_insert_user_def empty_db_def
        book_of_def notified_ids_def settlement_of_def fun_eq_iff)
  with ledger_refines_book[OF engine0(2) bought_run] show ?thesis by simp
qed

end
