(* ===== verification/Pagination.thy ===== *)
theory Pagination
  imports OutboxWorker
begin

text \<open>
  Cursor pagination over \<^verbatim>\<open>GetPaginatedTransactions\<close> (\<^verbatim>\<open>internal/repository/payment_repo.go\<close>): what a
  client sees that starts without a cursor and passes on each returned cursor until it is
  empty.
\<close>

text \<open>The client loop; \<open>None\<close> when it is still going after \<open>fuel\<close> pages or a page fails.\<close>

fun all_pages :: "pg \<Rightarrow> db \<Rightarrow> int \<Rightarrow> nat \<Rightarrow> string \<Rightarrow> Transaction list option" where
  "all_pages pg d limit 0 cursor = None"
| "all_pages pg d limit (Suc fuel) cursor =
     (case GetPaginatedTransactions pg d \<lparr>q_Limit = limit, q_NextCursor = cursor\<rparr> of
        Inl e \<Rightarrow> None
      | Inr (page, next) \<Rightarrow>
          if next = '''' then Some page
          else map_option (\<lambda>rest. page @ rest) (all_pages pg d limit fuel next))"

text \<open>The rows newest id first, as \<^verbatim>\<open>ORDER BY id DESC\<close> delivers them.\<close>

definition by_id_desc :: "db \<Rightarrow> payment_row list" where
  "by_id_desc d = rev (sort_key pay_id (tbl_payments d))"

lemma by_id_desc_sorted:
  assumes "distinct (map pay_id (tbl_payments d))"
  shows "sorted_wrt (\<lambda>a b. pay_id b < pay_id a) (by_id_desc d)"
proof -
  let ?xs = "sort_key pay_id (tbl_payments d)"
  have "distinct (map pay_id ?xs)" using assms by (simp add: distinct_map)
  moreover have "sorted (map pay_id ?xs)" by simp
  ultimately have "sorted_wrt (<) (map pay_id ?xs)" by (simp add: strict_sorted_iff)
  then show ?thesis by (simp add: by_id_desc_def sorted_wrt_rev sorted_wrt_map)
qed

lemma filter_after:
  assumes "sorted_wrt (\<lambda>a b. k b < k a) (pre @ x # rest)"
  shows "filter (\<lambda>r. k r < (k x :: 'b :: linorder)) (pre @ x # rest) = rest"
proof -
  have "filter (\<lambda>r. k r < k x) pre = []"
    using assms by (auto simp: filter_empty_conv sorted_wrt_append dest: less_asym)
  moreover have "filter (\<lambda>r. k r < k x) rest = rest"
    using assms by (simp add: filter_id_conv sorted_wrt_append)
  ultimately show ?thesis by simp
qed

lemma page_of_rest:
  assumes "fault pg S_select_page = None" and "rows_lost pg S_select_page = None" and "0 \<le> limit"
    and "rev (sort_key pay_id (filter (\<lambda>r. cursor = '''' \<or> text_less pg (pay_id r) cursor) (tbl_payments d))) = rest"
  shows "GetPaginatedTransactions pg d \<lparr>q_Limit = limit, q_NextCursor = cursor\<rparr> =
    Inr (map scan_transaction (take (nat limit) rest),
      if int (length (take (nat limit) rest)) = limit \<and> take (nat limit) rest \<noteq> []
      then pay_id (last (take (nat limit) rest)) else '''')"
proof -
  have sel: "sql_select_page pg d (if cursor \<noteq> '''' then Some cursor else None) limit = Inr (take (nat limit) rest)"
    using assms by (auto simp: sql_select_page_def exec_def)
  show ?thesis
    using assms(2,3) sel by (cases "cursor = ''''")
      (simp_all add: GetPaginatedTransactions_def fetched_def Let_def last_map scan_transaction_def)
qed

lemma filter_by_id_desc:
  "rev (sort_key pay_id (filter P (tbl_payments d))) = filter P (by_id_desc d)"
  by (simp add: by_id_desc_def rev_filter flip: filter_sort)

lemma all_pages_rest:
  assumes h: "fault pg S_select_page = None" "rows_lost pg S_select_page = None" and lim: "0 < limit"
    and dist: "distinct (map pay_id (tbl_payments d))"
    and ids: "\<And>r. r \<in> set (tbl_payments d) \<Longrightarrow> pay_id r \<noteq> ''''"
    and coll: "\<And>r s. r \<in> set (tbl_payments d) \<Longrightarrow> s \<in> set (tbl_payments d) \<Longrightarrow>
      text_less pg (pay_id r) (pay_id s) = (pay_id r < pay_id s)"
    and split: "by_id_desc d = pre @ rest"
    and cursor: "cursor = (if pre = [] then '''' else pay_id (last pre))"
    and fuel: "length rest < fuel"
  shows "all_pages pg d limit fuel cursor = Some (map scan_transaction rest)"
  using split cursor fuel
proof (induction fuel arbitrary: pre rest cursor)
  case (Suc fuel)
  have mem: "set (by_id_desc d) = set (tbl_payments d)" by (simp add: by_id_desc_def)
  have sorted: "sorted_wrt (\<lambda>a b. pay_id b < pay_id a) (pre @ rest)"
    using by_id_desc_sorted[OF dist] Suc.prems(1) by simp
  have "filter (\<lambda>r. cursor = '''' \<or> text_less pg (pay_id r) cursor) (by_id_desc d) = rest"
  proof (cases pre rule: rev_cases)
    case Nil
    with Suc.prems show ?thesis by simp
  next
    case (snoc pre' x)
    have x: "x \<in> set (tbl_payments d)" using mem Suc.prems(1) snoc by auto
    have "filter (\<lambda>r. cursor = '''' \<or> text_less pg (pay_id r) cursor) (by_id_desc d)
        = filter (\<lambda>r. pay_id r < pay_id x) (pre' @ x # rest)"
      using Suc.prems snoc ids[OF x] coll[OF _ x] mem by (intro filter_cong) auto
    with filter_after[of pay_id pre' x rest] sorted snoc show ?thesis by simp
  qed
  then have page: "GetPaginatedTransactions pg d \<lparr>q_Limit = limit, q_NextCursor = cursor\<rparr> =
    Inr (map scan_transaction (take (nat limit) rest),
      if int (length (take (nat limit) rest)) = limit \<and> take (nat limit) rest \<noteq> []
      then pay_id (last (take (nat limit) rest)) else '''')"
    using h lim by (intro page_of_rest) (auto simp: filter_by_id_desc)
  show ?case
  proof (cases "nat limit \<le> length rest")
    case True
    let ?page = "take (nat limit) rest"
    have ne: "?page \<noteq> []" and len: "int (length ?page) = limit" using True lim by (auto simp: min_def)
    have "last ?page \<in> set (tbl_payments d)"
      using last_in_set[OF ne] Suc.prems(1) mem by (auto dest: in_set_takeD)
    then have nonempty: "pay_id (last ?page) \<noteq> ''''" by (rule ids)
    have "all_pages pg d limit fuel (pay_id (last ?page)) = Some (map scan_transaction (drop (nat limit) rest))"
      using Suc.prems ne lim True by (intro Suc.IH[of "pre @ ?page"]) auto
    then have "all_pages pg d limit (Suc fuel) cursor
        = Some (map scan_transaction ?page @ map scan_transaction (drop (nat limit) rest))"
      using page ne len nonempty by simp
    then show ?thesis by (simp flip: map_append)
  next
    case False
    then have "take (nat limit) rest = rest" "int (length rest) \<noteq> limit" by auto
    then show ?thesis using page by simp
  qed
qed simp

text \<open>
  C20. Following the cursors enumerates the transactions: with a positive limit, on a replica
  that answers and does not change meanwhile, the client loop ends, and the pages together
  are every payment exactly once, by descending id.
\<close>

theorem pagination_enumerates_all:
  assumes "healthy pg" and "0 < limit" and "distinct (map pay_id (tbl_payments d))"
    and "\<And>r. r \<in> set (tbl_payments d) \<Longrightarrow> pay_id r \<noteq> ''''"
    and "\<And>r s. r \<in> set (tbl_payments d) \<Longrightarrow> s \<in> set (tbl_payments d) \<Longrightarrow>
      text_less pg (pay_id r) (pay_id s) = (pay_id r < pay_id s)"
    and "length (tbl_payments d) < fuel"
  shows "all_pages pg d limit fuel '''' =
    Some (map scan_transaction (rev (sort_key pay_id (tbl_payments d))))"
  using all_pages_rest[of pg limit d "[]" "by_id_desc d" "''''" fuel] assms
  by (simp add: healthy_def by_id_desc_def)

theorem pagination_enumerates_all_witness:
  "map_option (map t_ID) (all_pages pg0
     (empty_db\<lparr>tbl_payments := map (\<lambda>i. new_payment_row (pg0\<lparr>gen_uuid := \<lambda>_. i\<rparr>) ''u1'' 5 ''INR'')
        [''b'', ''c'', ''a'']\<rparr>) 2 4 '''')
   = Some [''c'', ''b'', ''a'']"
proof -
  let ?row = "\<lambda>i. new_payment_row (pg0\<lparr>gen_uuid := \<lambda>_. i\<rparr>) ''u1'' 5 ''INR''"
  let ?d = "empty_db\<lparr>tbl_payments := map ?row [''b'', ''c'', ''a'']\<rparr>"
  have "sort_key pay_id (map ?row [''b'', ''c'', ''a'']) = map ?row [''a'', ''b'', ''c'']"
    by (simp add: less_char_def less_eq_char_def)
  moreover have "all_pages pg0 ?d 2 4 '''' = Some (map scan_transaction (rev (sort_key pay_id (tbl_payments ?d))))"
    by (rule pagination_enumerates_all) (auto simp: healthy_def pg0_def)
  ultimately show ?thesis by (simp add: scan_transaction_def)
qed

end
