(* ===== verification/AuditTrail.thy ===== *)
theory AuditTrail
  imports PaymentRepo "HOL-Library.Multiset" "HOL-Library.Sublist"
begin

text \<open>
  The audit trail (\<^verbatim>\<open>internal/repository/audit_repository.go\<close>): events appended to
  \<^verbatim>\<open>payment_events\<close> on the master, read back in order and analysed with window functions on the
  replica. The table is the one of \<^verbatim>\<open>migrations/000001_init_schema.up.sql\<close>.
\<close>

section \<open>Events\<close>

record PaymentEvent =
  pe_ID :: int
  pe_PaymentID :: string
  pe_EventType :: string
  pe_Payload :: string
  pe_CreatedAt :: string

text \<open>
  The insert. The number comes from the sequence of the \<^verbatim>\<open>SERIAL\<close> column, which is drawn outside
  the transaction: a value is used up even when the statement then fails.
\<close>

definition sql_insert_event :: "pg \<Rightarrow> db \<Rightarrow> string \<Rightarrow> string \<Rightarrow> string \<Rightarrow> db \<times> unit result" where
  "sql_insert_event pg d paymentID eventType payload =
     (case exec pg S_insert_event (jsonb_arg pg payload (\<lambda>j. Inr j)) of
        Inl e \<Rightarrow> (d, Inl e)
      | Inr j \<Rightarrow>
          if 2147483647 < seq_events d
          then (d, Inl (pq_error ''nextval: reached maximum value of sequence payment_events_id_seq''))
          else (let d1 = d\<lparr>seq_events := seq_events d + 1\<rparr> in
            autocommit pg d1
              (if 50 < char_len pg paymentID \<or> 50 < char_len pg eventType
               then Inl (pq_error ''value too long for type character varying'')
               else if seq_events d \<in> ev_id ` set (tbl_events d)
               then Inl (pq_error ''duplicate key value violates unique constraint payment_events_pkey'')
               else Inr ((), d1\<lparr>tbl_events := tbl_events d @
                  [\<lparr>ev_id = seq_events d, ev_payment_id = paymentID, ev_event_type = eventType,
                    ev_payload = j, ev_created_at = tx_now pg\<rparr>]\<rparr>))))"

text \<open>\<open>payloadData\<close> is the value \<^verbatim>\<open>json.Marshal\<close> finds in its argument, or its error.\<close>

definition LogEvent :: "pg \<Rightarrow> db \<Rightarrow> string \<Rightarrow> string \<Rightarrow> json result \<Rightarrow> db \<times> goerr option" where
  "LogEvent pg d paymentID eventType payloadData =
     (case payloadData of
        Inl e \<Rightarrow> (d, Some (wrapf ''failed to marshal event payload'' e))
      | Inr v \<Rightarrow> (case sql_insert_event pg d paymentID eventType (json_Marshal v) of
          (d', Inl e) \<Rightarrow> (d', Some e) | (d', Inr _) \<Rightarrow> (d', None)))"

definition sql_select_events :: "pg \<Rightarrow> db \<Rightarrow> string \<Rightarrow> event_row list result" where
  "sql_select_events pg d paymentID =
     exec pg S_select_events (Inr (sort_key ev_id (filter (\<lambda>r. ev_payment_id r = paymentID) (tbl_events d))))"

text \<open>A timestamp scanned into a string is printed by \<^verbatim>\<open>database/sql\<close> in RFC 3339 form.\<close>

definition scan_event_row :: "event_row \<Rightarrow> PaymentEvent" where
  "scan_event_row r = \<lparr>pe_ID = ev_id r, pe_PaymentID = ev_payment_id r, pe_EventType = ev_event_type r,
     pe_Payload = ev_payload r, pe_CreatedAt = format_RFC3339Nano (db_time (ev_created_at r))\<rparr>"

definition ReplayHistory :: "pg \<Rightarrow> db \<Rightarrow> string \<Rightarrow> PaymentEvent list result" where
  "ReplayHistory pg d paymentID =
     (case sql_select_events pg d paymentID of
        Inl e \<Rightarrow> Inl e
      | Inr rows \<Rightarrow> Inr (map scan_event_row (fetched pg S_select_events rows)))"

section \<open>Transitions\<close>

record StateTransitionAnalysis =
  ta_ID :: int
  ta_EventType :: string
  ta_CreatedAt :: string
  ta_SequenceNumber :: int
  ta_PreviousState :: string

text \<open>\<^verbatim>\<open>ROW_NUMBER()\<close> and \<^verbatim>\<open>LAG(event_type, 1, 'START')\<close> over the rows of the partition by id.\<close>

fun windowed :: "pg \<Rightarrow> int \<Rightarrow> string \<Rightarrow> event_row list \<Rightarrow> StateTransitionAnalysis list" where
  "windowed pg n previous [] = []"
| "windowed pg n previous (r # rows) =
     \<lparr>ta_ID = ev_id r, ta_EventType = ev_event_type r, ta_CreatedAt = ts_text pg (ev_created_at r),
      ta_SequenceNumber = n, ta_PreviousState = previous\<rparr> # windowed pg (n + 1) (ev_event_type r) rows"

text \<open>The windows are ordered, the result is not.\<close>

definition sql_select_transitions :: "pg \<Rightarrow> db \<Rightarrow> string \<Rightarrow> StateTransitionAnalysis list result" where
  "sql_select_transitions pg d paymentID =
     exec pg S_select_transitions (Inr (unordered pg (windowed pg 1 ''START''
       (sort_key ev_id (filter (\<lambda>r. ev_payment_id r = paymentID) (tbl_events d))))))"

definition AnalyzeTransitions :: "pg \<Rightarrow> db \<Rightarrow> string \<Rightarrow> StateTransitionAnalysis list result" where
  "AnalyzeTransitions pg d paymentID =
     (case sql_select_transitions pg d paymentID of
        Inl e \<Rightarrow> Inl e
      | Inr rows \<Rightarrow> Inr (fetched pg S_select_transitions rows))"

section \<open>The log is append-only and complete\<close>

text \<open>What keeps the numbers of the events increasing.\<close>

definition events_ok :: "db \<Rightarrow> bool" where
  "events_ok d \<longleftrightarrow> sorted_wrt (<) (map ev_id (tbl_events d)) \<and> (\<forall>r \<in> set (tbl_events d). ev_id r < seq_events d)"

lemma LogEvent_cases:
  assumes "LogEvent pg d paymentID eventType payloadData = (d', out)"
  obtains k where "d' = d\<lparr>seq_events := k\<rparr>" "seq_events d \<le> k" "out \<noteq> None"
  | row where "d' = d\<lparr>seq_events := seq_events d + 1, tbl_events := tbl_events d @ [row]\<rparr>"
      "ev_id row = seq_events d" "ev_payment_id row = paymentID" "ev_event_type row = eventType"
proof -
  show thesis
    using assms that(1)[of "seq_events d"] that(1)[of "seq_events d + 1"] that(2)
    by (auto simp: LogEvent_def sql_insert_event_def sql_defs Let_def
        split: sum.splits option.splits if_splits commit_outcome.splits)
qed

lemma LogEvent_events_ok:
  assumes "events_ok d" and "LogEvent pg d paymentID eventType payloadData = (d', out)"
  shows "events_ok d'"
  using assms(2)
proof (cases rule: LogEvent_cases)
  case (1 k)
  with assms(1) show ?thesis by (auto simp: events_ok_def)
next
  case (2 row)
  with assms(1) show ?thesis by (auto simp: events_ok_def sorted_wrt_append)
qed

lemma sort_key_sorted_wrt:
  "sorted_wrt (<) (map f xs) \<Longrightarrow> sort_key f (filter P xs) = filter P (xs :: 'a list)"
  for f :: "'a \<Rightarrow> 'b :: linorder"
  by (intro sort_key_id_if_sorted) (auto simp: sorted_wrt_map sorted_map intro: sorted_wrt_filter sorted_wrt_mono_rel[rotated])

text \<open>The rows of one payment, in order.\<close>

definition trail :: "db \<Rightarrow> string \<Rightarrow> event_row list" where
  "trail d paymentID = filter (\<lambda>r. ev_payment_id r = paymentID) (tbl_events d)"

lemma ReplayHistory_trail:
  assumes "events_ok d" and "fault pg S_select_events = None" and "rows_lost pg S_select_events = None"
  shows "ReplayHistory pg d paymentID = Inr (map scan_event_row (trail d paymentID))"
  using assms by (simp add: ReplayHistory_def sql_select_events_def exec_def fetched_def trail_def
      events_ok_def sort_key_sorted_wrt)

text \<open>A sequence of calls, each with its own engine behaviour, and what each reported.\<close>

type_synonym log_call = "pg \<times> string \<times> string \<times> json result"

fun log_all :: "log_call list \<Rightarrow> db \<Rightarrow> db \<times> (log_call \<times> goerr option) list" where
  "log_all [] d = (d, [])"
| "log_all ((pg, paymentID, eventType, payload) # calls) d =
     (case LogEvent pg d paymentID eventType payload of (d1, out) \<Rightarrow>
        (case log_all calls d1 of (d', outs) \<Rightarrow> (d', ((pg, paymentID, eventType, payload), out) # outs)))"

text \<open>The event types the calls for a payment asked to log, and those of the calls that reported success.\<close>

definition asked :: "string \<Rightarrow> log_call list \<Rightarrow> string list" where
  "asked i calls = [t. (pg, j, t, p) \<leftarrow> calls, j = i]"

definition confirmed :: "string \<Rightarrow> (log_call \<times> goerr option) list \<Rightarrow> string list" where
  "confirmed i outs = [t. ((pg, j, t, p), out) \<leftarrow> outs, j = i \<and> out = None]"

lemma log_defs_simps [simp]:
  "asked i [] = []" "asked i ((pg, j, t, p) # calls) = (if j = i then [t] else []) @ asked i calls"
  "confirmed i [] = []"
  "confirmed i (((pg, j, t, p), out) # outs) = (if j = i \<and> out = None then [t] else []) @ confirmed i outs"
  by (simp_all add: asked_def confirmed_def)

lemma log_all_trail:
  assumes "events_ok d" and "log_all calls d = (d', outs)"
  shows "events_ok d' \<and> (\<exists>ext. trail d' i = trail d i @ ext
    \<and> subseq (confirmed i outs) (map ev_event_type ext) \<and> subseq (map ev_event_type ext) (asked i calls))"
  using assms
proof (induction calls d arbitrary: d' outs rule: log_all.induct)
  case (2 pg j t p calls d)
  obtain d1 out outs1 where log: "LogEvent pg d j t p = (d1, out)" and rest: "log_all calls d1 = (d', outs1)"
    and outs: "outs = ((pg, j, t, p), out) # outs1"
    using 2(3) by (auto split: prod.splits)
  from 2(1)[OF log[symmetric] LogEvent_events_ok[OF 2(2) log] rest] obtain ext where ok: "events_ok d'"
    and ext: "trail d' i = trail d1 i @ ext" and sub: "subseq (confirmed i outs1) (map ev_event_type ext)"
      "subseq (map ev_event_type ext) (asked i calls)" by blast
  show ?case
    using log
  proof (cases rule: LogEvent_cases)
    case (1 k)
    then have "trail d1 i = trail d i" by (simp add: trail_def)
    with ok ext sub 1 show ?thesis by (auto simp: outs intro: list_emb_Cons exI[of _ ext])
  next
    case (2 row)
    then have "trail d1 i = trail d i @ (if j = i then [row] else [])" by (simp add: trail_def)
    with ok ext sub 2 show ?thesis
      by (intro conjI exI[of _ "(if j = i then [row] else []) @ ext"]) (auto simp: outs)
  qed
qed simp

text \<open>
  C38. The audit log is append-only and complete: after any sequence of \<^verbatim>\<open>LogEvent\<close> calls for any
  payments, whatever fails in them, replaying a payment on an up-to-date replica gives its
  earlier history unchanged followed by new events in the order of the calls; every call that
  reported success is among them, and nothing is that was not asked for.
\<close>

theorem audit_log_append_only:
  assumes ok: "events_ok d" and run: "log_all calls d = (d', outs)"
    and up: "fault pgr S_select_events = None" "rows_lost pgr S_select_events = None"
  shows "\<exists>old new. ReplayHistory pgr d paymentID = Inr old \<and> ReplayHistory pgr d' paymentID = Inr (old @ new)
    \<and> subseq (confirmed paymentID outs) (map pe_EventType new)
    \<and> subseq (map pe_EventType new) (asked paymentID calls)"
proof -
  from log_all_trail[OF ok run, of paymentID] obtain ext where ok': "events_ok d'"
    and ext: "trail d' paymentID = trail d paymentID @ ext"
    and sub: "subseq (confirmed paymentID outs) (map ev_event_type ext)"
      "subseq (map ev_event_type ext) (asked paymentID calls)" by blast
  have types: "map pe_EventType (map scan_event_row ext) = map ev_event_type ext" by (simp add: scan_event_row_def)
  show ?thesis
    using ReplayHistory_trail[OF ok up] ReplayHistory_trail[OF ok' up] ext sub
    by (intro exI[of _ "map scan_event_row (trail d paymentID)"] exI[of _ "map scan_event_row ext"])
      (simp add: scan_event_row_def comp_def)
qed

theorem audit_log_append_only_witness:
  "\<exists>d' outs new. log_all [(pg0, ''p1'', ''CREATED'', Inr (JObject [])), (pg0, ''p2'', ''CREATED'', Inr (JObject [])),
      (pg0, ''p1'', ''FAILED'', Inl (ErrNew ''x'')), (pg0, ''p1'', ''PAID'', Inr (JObject []))] empty_db = (d', outs)
    \<and> ReplayHistory pg0 d' ''p1'' = Inr new \<and> map pe_EventType new = [''CREATED'', ''PAID'']"
proof -
  let ?calls = "[(pg0, ''p1'', ''CREATED'', Inr (JObject [])), (pg0, ''p2'', ''CREATED'', Inr (JObject [])),
      (pg0, ''p1'', ''FAILED'', Inl (ErrNew ''x'')), (pg0, ''p1'', ''PAID'', Inr (JObject []))]"
  obtain d' outs where run: "log_all ?calls empty_db = (d', outs)" by fastforce
  have ok: "events_ok empty_db" by (simp add: events_ok_def empty_db_def)
  have conf: "confirmed ''p1'' outs = [''CREATED'', ''PAID'']"
    using run by (auto simp: LogEvent_def sql_insert_event_def sql_defs Let_def pg0_def empty_db_def)
  have old: "ReplayHistory pg0 empty_db ''p1'' = Inr []"
    by (simp add: ReplayHistory_def sql_select_events_def exec_def fetched_def empty_db_def pg0_def)
  from audit_log_append_only[OF ok run, of pg0 "''p1''"] old obtain new where
    new: "ReplayHistory pg0 d' ''p1'' = Inr new" "subseq [''CREATED'', ''PAID''] (map pe_EventType new)"
    by (auto simp: pg0_def conf)
  have "map pe_EventType new = [''CREATED'', ''PAID'']"
    using new(1) run by (auto simp: LogEvent_def sql_insert_event_def sql_defs Let_def pg0_def empty_db_def
        ReplayHistory_def sql_select_events_def fetched_def scan_event_row_def)
  with run new(1) show ?thesis by (intro exI conjI)
qed

section \<open>The analysis agrees with the replay\<close>

lemma windowed_columns:
  "map ta_ID (windowed pg n s rows) = map ev_id rows"
  "map ta_EventType (windowed pg n s rows) = map ev_event_type rows"
  "map ta_PreviousState (windowed pg n s rows) = butlast (s # map ev_event_type rows)"
  "map ta_SequenceNumber (windowed pg n s rows) = map (\<lambda>k. n + int k) [0..<length rows]"
proof (induction rows arbitrary: n s)
  case (Cons r rows)
  case 4
  have "map (\<lambda>k. n + int k) [0..<Suc (length rows)] = n # map (\<lambda>k. n + 1 + int k) [0..<length rows]"
    by (simp add: upt_conv_Cons flip: map_Suc_upt del: upt_Suc)
  with Cons(4)[of "n + 1" "ev_event_type r"] show ?case by simp
qed auto

lemma unordered_windowed:
  "sort_key ta_SequenceNumber (unordered pg (windowed pg n s rows)) = windowed pg n s rows"
proof (rule sort_key_inj_key_eq)
  let ?w = "windowed pg n s rows"
  have "distinct (map ta_SequenceNumber ?w)" by (auto simp: windowed_columns(4) distinct_map inj_on_def)
  moreover have "set (unordered pg ?w) = set ?w" by (rule mset_eq_setD) simp
  ultimately show "inj_on ta_SequenceNumber (set (unordered pg ?w))" by (simp add: distinct_map)
  show "sorted (map ta_SequenceNumber ?w)" by (simp add: windowed_columns(4) sorted_map sorted_wrt_upt sorted_wrt_mono_rel[OF _ sorted_wrt_upt])
qed simp

text \<open>
  C39. The analysis of a payment is its replay: in the order of the sequence numbers, whatever
  order the rows arrive in, it lists the same events with the numbers 1, 2, 3, ... and each
  event is preceded by the type of the one before, the first by \<^verbatim>\<open>START\<close>.
\<close>

theorem transitions_follow_history:
  assumes "ReplayHistory pg d paymentID = Inr history" and "AnalyzeTransitions pg d paymentID = Inr analysis"
    and "rows_lost pg S_select_events = None" and "rows_lost pg S_select_transitions = None"
  shows "let a = sort_key ta_SequenceNumber analysis; types = map pe_EventType history in
    map ta_ID a = map pe_ID history \<and> map ta_EventType a = types
    \<and> map ta_SequenceNumber a = map (\<lambda>k. int k + 1) [0..<length history]
    \<and> map ta_PreviousState a = butlast (''START'' # types)"
proof -
  let ?rows = "sort_key ev_id (filter (\<lambda>r. ev_payment_id r = paymentID) (tbl_events d))"
  have hist: "history = map scan_event_row ?rows"
    using assms(1,3) by (auto simp: ReplayHistory_def sql_select_events_def exec_def fetched_def split: option.splits)
  have an: "analysis = unordered pg (windowed pg 1 ''START'' ?rows)"
    using assms(2,4) by (auto simp: AnalyzeTransitions_def sql_select_transitions_def exec_def fetched_def split: option.splits)
  have cols: "map pe_ID history = map ev_id ?rows" "map pe_EventType history = map ev_event_type ?rows"
    by (simp_all add: hist scan_event_row_def)
  show ?thesis
    unfolding Let_def an unordered_windowed windowed_columns cols by (simp add: hist add.commute)
qed

theorem transitions_follow_history_witness:
  "case AnalyzeTransitions (pg0\<lparr>row_rank := \<lambda>i. 9 - i\<rparr>)
      (fst (log_all [(pg0, ''p1'', ''CREATED'', Inr (JObject [])), (pg0, ''p1'', ''PAID'', Inr (JObject []))] empty_db)) ''p1'' of
    Inr analysis \<Rightarrow> map ta_PreviousState (sort_key ta_SequenceNumber analysis) = [''START'', ''CREATED'']
  | Inl e \<Rightarrow> False"
proof -
  let ?pg = "pg0\<lparr>row_rank := \<lambda>i. 9 - i\<rparr>"
  let ?d = "fst (log_all [(pg0, ''p1'', ''CREATED'', Inr (JObject [])), (pg0, ''p1'', ''PAID'', Inr (JObject []))] empty_db)"
  obtain history where h: "ReplayHistory ?pg ?d ''p1'' = Inr history"
    by (auto simp: ReplayHistory_def sql_select_events_def exec_def pg0_def)
  have types: "map pe_EventType history = [''CREATED'', ''PAID'']"
    using h by (auto simp: LogEvent_def sql_insert_event_def sql_defs Let_def pg0_def empty_db_def
        ReplayHistory_def sql_select_events_def fetched_def scan_event_row_def)
  obtain analysis where a: "AnalyzeTransitions ?pg ?d ''p1'' = Inr analysis"
    by (auto simp: AnalyzeTransitions_def sql_select_transitions_def exec_def pg0_def)
  from transitions_follow_history[OF h a] types a show ?thesis by (simp add: pg0_def Let_def)
qed

end
