(* ===== verification/GoFloat.thy ===== *)
theory GoFloat
  imports Complex_Main "HOL-Library.Log_Nat" Prelude
begin

text \<open>
  The \<^verbatim>\<open>float64\<close> arithmetic the sources use. A finite double is the rational number it denotes;
  every operation computes the exact rational result and rounds it to 53 significant bits,
  ties to even. The operands in the sources are conversions of \<^verbatim>\<open>int64\<close> values, constants of
  moderate size and a ratio that is 0 or at least \<open>2\<^sup>-\<^sup>5\<^sup>3\<close>, so no result comes near the exponent
  range of the format: there are no infinities, NaNs or subnormal numbers, and the sign of
  zero is never observed.
\<close>

type_synonym float64 = rat

text \<open>The exponent of a positive rational: \<open>2\<^sup>e \<le> x < 2\<^sup>e\<^sup>+\<^sup>1\<close>.\<close>

definition expo :: "rat \<Rightarrow> int" where
  "expo x = (let (p, q) = quotient_of x; k = bitlen p - bitlen q
     in if 2 powi k \<le> x then k else k - 1)"

definition round_half_even :: "rat \<Rightarrow> int" where
  "round_half_even x = (let f = \<lfloor>x\<rfloor>; r = x - of_int f
     in if r < 1 / 2 then f else if r > 1 / 2 then f + 1 else if even f then f else f + 1)"

definition ulp :: "rat \<Rightarrow> rat" where
  "ulp x = 2 powi (expo \<bar>x\<bar> - 52)"

definition fl :: "rat \<Rightarrow> float64" where
  "fl x = (if x = 0 then 0 else of_int (round_half_even (x / ulp x)) * ulp x)"

text \<open>Conversion to \<^verbatim>\<open>int64\<close> truncates; the result for a value out of range is up to the platform.\<close>

definition trunc :: "rat \<Rightarrow> int" where
  "trunc x = (if x < 0 then \<lceil>x\<rceil> else \<lfloor>x\<rfloor>)"

definition int64_of_float :: "(float64 \<Rightarrow> int) \<Rightarrow> float64 \<Rightarrow> int" where
  "int64_of_float out_of_range x = (if is_int64 (trunc x) then trunc x else out_of_range x)"

section \<open>The exponent\<close>

lemma expo_bounds:
  assumes "0 < x" shows "2 powi (expo x) \<le> x" and "x < 2 powi (expo x + 1)"
proof -
  obtain p q where pq: "quotient_of x = (p, q)" by fastforce
  have q: "0 < q" using quotient_of_denom_pos[OF pq] .
  have x: "x = of_int p / of_int q" by (rule quotient_of_div[OF pq])
  with assms q have p: "0 < p" by (simp add: zero_less_divide_iff)
  define k where "k = bitlen p - bitlen q"
  have bl: "0 < bitlen p" "0 < bitlen q" using p q bitlen_nonneg[of p] bitlen_nonneg[of q]
    by (metis bitlen_eq_zero_iff linorder_not_le order_le_less)+
  have pow: "of_int (2 ^ nat (bitlen n)) = (2 powi bitlen n :: rat)"
    "of_int (2 ^ nat (bitlen n - 1)) = (2 powi (bitlen n - 1) :: rat)" if "0 < bitlen n" for n
    using that by (simp_all add: power_int_def)
  have P: "2 powi (bitlen p - 1) \<le> (of_int p :: rat)" "(of_int p :: rat) < 2 powi bitlen p"
    using bitlen_bounds[OF p] pow[OF bl(1)] by (metis of_int_le_iff, metis of_int_less_iff)
  have Q: "2 powi (bitlen q - 1) \<le> (of_int q :: rat)" "(of_int q :: rat) < 2 powi bitlen q"
    using bitlen_bounds[OF q] pow[OF bl(2)] by (metis of_int_le_iff, metis of_int_less_iff)
  have "2 powi (bitlen p - 1) / 2 powi bitlen q \<le> x" unfolding x
    using P(1) Q(2) p q by (intro frac_le) auto
  then have lo: "2 powi (k - 1) \<le> x" by (simp add: k_def algebra_simps flip: power_int_diff)
  have "x < 2 powi bitlen p / 2 powi (bitlen q - 1)" unfolding x
    using P(2) Q(1) p by (intro frac_less) auto
  then have hi: "x < 2 powi (k + 1)" by (simp add: k_def algebra_simps flip: power_int_diff)
  show "2 powi (expo x) \<le> x" "x < 2 powi (expo x + 1)"
    using lo hi by (auto simp: expo_def pq k_def Let_def)
qed

lemma powi_le_iff: "(2::rat) powi a \<le> 2 powi b \<longleftrightarrow> a \<le> b"
  using power_int_strict_increasing[of a b "2::rat"] power_int_strict_increasing[of b a "2::rat"]
  by (cases a b rule: linorder_cases) auto

lemma expo_unique:
  assumes "2 powi e \<le> x" and "x < 2 powi (e + 1)" shows "expo x = e"
proof -
  have x: "0 < x" using assms(1) by (rule less_le_trans[rotated]) simp
  from expo_bounds[OF x] assms have "(2::rat) powi expo x < 2 powi (e + 1)" "(2::rat) powi e < 2 powi (expo x + 1)"
    by linarith+
  then have "expo x < e + 1" "e < expo x + 1" by (metis linorder_not_le powi_le_iff)+
  then show ?thesis by simp
qed

lemma expo_mono: "0 < x \<Longrightarrow> x \<le> y \<Longrightarrow> expo x \<le> expo y"
proof -
  assume "0 < x" "x \<le> y"
  with expo_bounds(1)[of x] expo_bounds(2)[of y] have "(2::rat) powi expo x < 2 powi (expo y + 1)" by linarith
  then show "expo x \<le> expo y" by (metis linorder_not_le powi_le_iff zle_add1_eq_le)
qed

section \<open>Rounding to an integer\<close>

lemma rhe_of_int [simp]: "round_half_even (of_int n) = n"
  by (simp add: round_half_even_def)

lemma rhe_bounds: "\<lfloor>x\<rfloor> \<le> round_half_even x" "round_half_even x \<le> \<lfloor>x\<rfloor> + 1"
  by (simp_all add: round_half_even_def Let_def)

lemma rhe_mono: assumes "x \<le> y" shows "round_half_even x \<le> round_half_even y"
proof (cases "\<lfloor>x\<rfloor> = \<lfloor>y\<rfloor>")
  case True
  with assms show ?thesis by (auto simp: round_half_even_def Let_def)
next
  case False
  with assms have "\<lfloor>x\<rfloor> + 1 \<le> \<lfloor>y\<rfloor>" using floor_mono[OF assms] by linarith
  with rhe_bounds(2)[of x] rhe_bounds(1)[of y] show ?thesis by linarith
qed

lemma rhe_error: "\<bar>of_int (round_half_even x) - x\<bar> \<le> 1 / 2"
proof -
  have "of_int \<lfloor>x\<rfloor> \<le> x" "x < of_int \<lfloor>x\<rfloor> + 1" using floor_correct[of x] by simp_all
  then show ?thesis by (auto simp: round_half_even_def Let_def abs_le_iff)
qed

lemma rhe_minus: "round_half_even (- x) = - round_half_even x"
proof (cases "x = of_int \<lfloor>x\<rfloor>")
  case True
  then obtain n where "x = of_int n" by blast
  then show ?thesis using rhe_of_int[of n] rhe_of_int[of "- n"] by simp
next
  case False
  then have x: "of_int \<lfloor>x\<rfloor> < x" "x < of_int \<lfloor>x\<rfloor> + 1" using floor_correct[of x] by linarith+
  then have "\<lfloor>- x\<rfloor> = - \<lfloor>x\<rfloor> - 1" by (simp add: floor_eq_iff)
  with x show ?thesis by (auto simp: round_half_even_def Let_def)
qed

section \<open>Rounding to 53 bits\<close>

lemma fl_0 [simp]: "fl 0 = 0"
  by (simp add: fl_def)

lemma ulp_pos [simp]: "0 < ulp x"
  by (simp add: ulp_def)

lemma fl_minus: "fl (- x) = - fl x"
  by (simp add: fl_def ulp_def rhe_minus)

lemma fl_eq: "fl x = of_int (round_half_even (x / ulp x)) * ulp x"
  using rhe_of_int[of 0] by (simp add: fl_def)

lemma fl_error: "\<bar>fl x - x\<bar> \<le> \<bar>x\<bar> / 2 ^ 53"
proof (cases "x = 0")
  case False
  have "\<bar>fl x - x\<bar> = \<bar>of_int (round_half_even (x / ulp x)) - x / ulp x\<bar> * ulp x"
  proof -
    have "fl x - x = (of_int (round_half_even (x / ulp x)) - x / ulp x) * ulp x"
      using ulp_pos[of x] by (simp add: fl_eq left_diff_distrib less_imp_neq[symmetric])
    then show ?thesis using ulp_pos[of x] by (simp add: abs_mult abs_of_pos del: ulp_pos)
  qed
  also have "\<dots> \<le> 1 / 2 * ulp x" by (rule mult_right_mono[OF rhe_error]) (simp add: less_imp_le)
  also have "\<dots> = 2 powi (expo \<bar>x\<bar>) / 2 ^ 53" by (simp add: ulp_def power_int_diff)
  also have "\<dots> \<le> \<bar>x\<bar> / 2 ^ 53" using expo_bounds(1)[of "\<bar>x\<bar>"] False by (intro divide_right_mono) auto
  finally show ?thesis .
qed simp

lemma fl_nonneg: assumes "0 \<le> x" shows "0 \<le> fl x"
proof -
  have "x - fl x \<le> \<bar>fl x - x\<bar>" by simp
  also have "\<dots> \<le> x / 2 ^ 53" using fl_error[of x] assms by simp
  also have "\<dots> \<le> x" using assms by simp
  finally show ?thesis by simp
qed

lemma fl_nonpos: "x \<le> 0 \<Longrightarrow> fl x \<le> 0"
  using fl_nonneg[of "- x"] by (simp add: fl_minus)

lemma fl_binade:
  assumes "0 < x" shows "2 powi (expo x) \<le> fl x" and "fl x \<le> 2 powi (expo x + 1)"
proof -
  have scale: "2 powi (expo x) = 2 ^ 52 * ulp x" "2 powi (expo x + 1) = 2 ^ 53 * ulp x"
    using assms by (simp_all add: ulp_def power_int_diff power_int_add)
  have "of_int (2 ^ 52) \<le> x / ulp x" "x / ulp x \<le> of_int (2 ^ 53)"
    using expo_bounds[OF assms] scale ulp_pos[of x] by (simp_all add: pos_le_divide_eq pos_divide_le_eq)
  then have "2 ^ 52 \<le> round_half_even (x / ulp x)" "round_half_even (x / ulp x) \<le> 2 ^ 53"
    using rhe_mono rhe_of_int by metis+
  then have "of_int (2 ^ 52) \<le> (of_int (round_half_even (x / ulp x)) :: rat)"
    "of_int (round_half_even (x / ulp x)) \<le> (of_int (2 ^ 53) :: rat)"
    by (simp_all only: of_int_le_iff)
  then show "2 powi (expo x) \<le> fl x" "fl x \<le> 2 powi (expo x + 1)"
    unfolding fl_eq scale using ulp_pos[of x] by (simp_all add: mult_right_mono less_imp_le)
qed

lemma fl_mono_pos: assumes "0 < x" "x \<le> y" shows "fl x \<le> fl y"
proof (cases "expo x = expo y")
  case True
  then have "ulp x = ulp y" using assms by (simp add: ulp_def)
  moreover have "round_half_even (x / ulp y) \<le> round_half_even (y / ulp y)"
    using assms by (intro rhe_mono divide_right_mono) (auto simp: less_imp_le)
  ultimately show ?thesis by (simp add: fl_eq mult_right_mono less_imp_le)
next
  case False
  with expo_mono[OF assms] have "(2::rat) powi (expo x + 1) \<le> 2 powi (expo y)" by (simp add: powi_le_iff)
  with fl_binade(2)[OF assms(1)] fl_binade(1)[of y] assms show ?thesis by linarith
qed

lemma fl_mono: assumes "x \<le> y" shows "fl x \<le> fl y"
proof -
  consider "0 < x" | "x \<le> 0" "0 \<le> y" | "y < 0" by linarith
  then show ?thesis
  proof cases
    case 2
    with fl_nonpos[of x] fl_nonneg[of y] show ?thesis by linarith
  next
    case 3
    with fl_mono_pos[of "- y" "- x"] assms show ?thesis by (simp add: fl_minus)
  qed (use assms fl_mono_pos in blast)
qed

text \<open>A number with at most 53 significant bits is not changed.\<close>

lemma fl_exact_pos:
  assumes "0 < n" and "n \<le> 2 ^ 53" shows "fl (of_int n * 2 powi k) = of_int n * 2 powi k"
proof (cases "n = 2 ^ 53")
  case True
  then have x: "of_int n * 2 powi k = (2::rat) powi (k + 53)" by (simp add: power_int_add)
  have "expo (2 powi (k + 53)) = k + 53" by (rule expo_unique) (auto simp: powi_le_iff power_int_add)
  then have "2 powi (k + 53) / ulp (2 powi (k + 53)) = of_int (2 ^ 52)"
    by (simp add: ulp_def flip: power_int_diff)
  moreover have "ulp (2 powi (k + 53)) * of_int (2 ^ 52) = (2::rat) powi (k + 53)"
    using calculation ulp_pos[of "2 powi (k + 53)"] by (simp add: field_simps)
  ultimately show ?thesis unfolding x fl_eq by (simp only: rhe_of_int mult.commute)
next
  case False
  let ?x = "of_int n * 2 powi k :: rat"
  have pos: "0 < ?x" using assms by simp
  have "(of_int n :: rat) < of_int (2 ^ 53)" using False assms by (simp only: of_int_less_iff)
  then have "?x < 2 powi (k + 53)" by (simp add: power_int_add)
  with expo_bounds(1)[OF pos] have "(2::rat) powi expo ?x < 2 powi (k + 53)" by linarith
  then have e: "expo ?x < k + 53" by (metis linorder_not_le powi_le_iff)
  define m where "m = nat (k - (expo ?x - 52))"
  have "(2::rat) powi (k - (expo ?x - 52)) = 2 ^ m" using e by (simp add: m_def power_int_def)
  then have q: "?x / ulp ?x = of_int (n * 2 ^ m)"
    using pos by (simp add: ulp_def flip: power_int_diff times_divide_eq_right)
  then have "?x = of_int (n * 2 ^ m) * ulp ?x" using ulp_pos[of ?x] by (simp add: field_simps)
  then show ?thesis using q by (metis fl_eq rhe_of_int)
qed

lemma fl_exact:
  assumes "\<bar>n\<bar> \<le> 2 ^ 53" shows "fl (of_int n * 2 powi k) = of_int n * 2 powi k"
proof -
  consider "n = 0" | "0 < n" | "0 < - n" by linarith
  then show ?thesis
  proof cases
    case 3
    with fl_exact_pos[of "- n" k] assms show ?thesis by (simp add: fl_minus)
  qed (use fl_exact_pos[of n k] assms in auto)
qed

lemma fl_int: "\<bar>n\<bar> \<le> 2 ^ 53 \<Longrightarrow> fl (of_int n) = of_int n"
  using fl_exact[of n 0] by simp

lemma fl_half_int: "\<bar>n\<bar> \<le> 2 ^ 53 \<Longrightarrow> fl (of_int n / 2) = of_int n / 2"
  using fl_exact[of n "- 1"] by (simp add: field_simps)

section \<open>Truncation\<close>

lemma trunc_minus: "trunc (- x) = - trunc x"
  by (auto simp: trunc_def ceiling_def)

lemma trunc_of_int [simp]: "trunc (of_int n) = n"
  by (simp add: trunc_def)

lemma trunc_mono: assumes "x \<le> y" shows "trunc x \<le> trunc y"
proof (cases "x < 0 \<and> 0 \<le> y")
  case True
  have "\<lceil>x\<rceil> \<le> 0" using True by (simp add: ceiling_le_iff)
  also have "0 \<le> \<lfloor>y\<rfloor>" using True by (simp add: le_floor_iff)
  finally show ?thesis using True by (simp add: trunc_def)
next
  case False
  with assms show ?thesis by (auto simp: trunc_def intro: floor_mono ceiling_mono)
qed

lemma int64_of_float_in [simp]: "is_int64 (trunc x) \<Longrightarrow> int64_of_float oor x = trunc x"
  by (simp add: int64_of_float_def)

end
