(* ===== verification/Currency.thy ===== *)
theory Currency
  imports GoFloat
begin

text \<open>
  \<^verbatim>\<open>internal/service/currency.go\<close>: conversion between minor units through \<^verbatim>\<open>float64\<close>, and printing in
  major units. \<open>oor\<close> is the platform's result for a conversion to \<^verbatim>\<open>int64\<close> out of range.
\<close>

definition CurrencyUSD :: string where "CurrencyUSD = ''USD''"
definition CurrencyINR :: string where "CurrencyINR = ''INR''"

definition ErrUnsupportedCurrency :: goerr where
  "ErrUnsupportedCurrency = ErrNew ''unsupported currency asset type''"

record CurrencyService =
  usdToInrRateFloat :: float64

definition NewCurrencyService :: CurrencyService where
  "NewCurrencyService = \<lparr>usdToInrRateFloat = fl (8350 / 100)\<rparr>"

definition ConvertMinorUnits ::
    "(float64 \<Rightarrow> int) \<Rightarrow> CurrencyService \<Rightarrow> int \<Rightarrow> string \<Rightarrow> string \<Rightarrow> int result" where
  "ConvertMinorUnits oor s amountMinor fromCurrency toCurrency =
     (if fromCurrency = toCurrency then Inr amountMinor
      else if fromCurrency = CurrencyUSD \<and> toCurrency = CurrencyINR
      then Inr (int64_of_float oor (fl (fl (of_int amountMinor) * usdToInrRateFloat s)))
      else if fromCurrency = CurrencyINR \<and> toCurrency = CurrencyUSD
      then Inr (int64_of_float oor (fl (fl (of_int amountMinor) / usdToInrRateFloat s)))
      else Inl (Errorf '''' ErrUnsupportedCurrency
        ('': cannot convert from '' @ fromCurrency @ '' to '' @ toCurrency)))"

text \<open>
  The verb \<^verbatim>\<open>%.2f\<close>: the exact value of the double, rounded to hundredths, ties to even.
\<close>

definition format_2f :: "float64 \<Rightarrow> string" where
  "format_2f x =
     (let h = nat (round_half_even (\<bar>x\<bar> * 100))
      in (if x < 0 then ''-'' else '''') @ string_of_nat (h div 100) @ ''.''
         @ [digit_char (h mod 100 div 10), digit_char (h mod 10)])"

definition FormatToMajorUnits :: "int \<Rightarrow> string" where
  "FormatToMajorUnits amountMinor = (let major = fl (fl (of_int amountMinor) / 100) in format_2f major)"

section \<open>The conversions are exact divisions\<close>

lemma rate_exact [simp]: "usdToInrRateFloat NewCurrencyService = 167 / 2"
  using fl_half_int[of 167] by (simp add: NewCurrencyService_def)

text \<open>Rounding a fraction with a small denominator does not carry it over an integer.\<close>

lemma trunc_fl_quotient:
  assumes "0 \<le> p" and "p < 2 ^ 53" and "0 < q"
  shows "trunc (fl (of_int p / of_int q)) = p div q"
proof -
  let ?x = "of_int p / of_int q :: rat"
  define m where "m = p div q"
  have m: "0 \<le> m" "m \<le> p" using assms zdiv_mono2[of p 1 q] by (simp_all add: m_def pos_imp_zdiv_nonneg_iff)
  have "q * m + p mod q = p" "0 \<le> p mod q" "p mod q < q" using assms(3) by (simp_all add: m_def)
  then have "q * m \<le> p" "p + 1 \<le> q * (m + 1)" by (simp_all only: distrib_left mult_1_right)
  then have "of_int (q * m) \<le> (of_int p :: rat)" "of_int (p + 1) \<le> (of_int (q * (m + 1)) :: rat)"
    by (simp_all only: of_int_le_iff)
  then have lo: "of_int m \<le> ?x" and hi: "?x + 1 / of_int q \<le> of_int m + 1"
    using assms by (simp_all add: field_simps)
  have "(of_int p :: rat) < of_int (2 ^ 53)" using assms(2) by (simp only: of_int_less_iff)
  then have "?x / 2 ^ 53 < 1 / of_int q" using assms(3) by (simp add: field_simps)
  with fl_error[of ?x] hi assms have "fl ?x < of_int m + 1" by (simp add: abs_le_iff)
  moreover have "of_int m \<le> fl ?x" using fl_mono[OF lo] m assms by (simp add: fl_int)
  ultimately have "\<lfloor>fl ?x\<rfloor> = m" by (simp add: floor_eq_iff)
  then show ?thesis using fl_nonneg[of ?x] assms by (simp add: trunc_def m_def)
qed

lemma trunc_fl_ratio:
  assumes "\<bar>n\<bar> < 2 ^ 53" and "0 < q"
  shows "trunc (fl (of_int n / of_int q)) = sgn n * (\<bar>n\<bar> div q)"
proof (cases "0 \<le> n")
  case True
  with trunc_fl_quotient[of n q] assms show ?thesis by (cases "n = 0") (auto simp: sgn_if)
next
  case False
  with trunc_fl_quotient[of "- n" q] assms show ?thesis by (simp add: fl_minus trunc_minus sgn_if)
qed

lemma is_int64_quot:
  assumes "\<bar>n\<bar> < 2 ^ 53" and "0 < q" shows "is_int64 (sgn n * (\<bar>n\<bar> div q))"
proof -
  have "0 \<le> \<bar>n\<bar> div q" "\<bar>n\<bar> div q \<le> \<bar>n\<bar>"
    using assms(2) zdiv_mono2[of "\<bar>n\<bar>" 1 q] by (simp_all add: pos_imp_zdiv_nonneg_iff)
  with assms(1) show ?thesis by (auto simp: is_int64_def int64_bounds sgn_if)
qed

lemma ConvertMinorUnits_exact:
  assumes "\<bar>n\<bar> * 167 < 2 ^ 53"
  shows "ConvertMinorUnits oor NewCurrencyService n CurrencyUSD CurrencyINR = Inr (sgn n * (\<bar>n\<bar> * 167 div 2))"
    and "ConvertMinorUnits oor NewCurrencyService n CurrencyINR CurrencyUSD = Inr (sgn n * (\<bar>n\<bar> * 2 div 167))"
proof -
  have neq: "CurrencyUSD \<noteq> CurrencyINR" by (simp add: CurrencyUSD_def CurrencyINR_def)
  have n: "fl (of_int n) = of_int n" using assms by (intro fl_int) auto
  have b: "\<bar>n * 167\<bar> < 2 ^ 53" "\<bar>n * 2\<bar> < 2 ^ 53" using assms by (auto simp: abs_mult)
  have sg: "sgn (n * 167) = sgn n" "\<bar>n * 167\<bar> = \<bar>n\<bar> * 167" "sgn (n * 2) = sgn n" "\<bar>n * 2\<bar> = \<bar>n\<bar> * 2"
    by (simp_all add: sgn_mult abs_mult)
  show "ConvertMinorUnits oor NewCurrencyService n CurrencyUSD CurrencyINR = Inr (sgn n * (\<bar>n\<bar> * 167 div 2))"
    using neq trunc_fl_ratio[OF b(1), of 2] is_int64_quot[OF b(1), of 2]
    by (simp add: ConvertMinorUnits_def n int64_of_float_def sg)
  show "ConvertMinorUnits oor NewCurrencyService n CurrencyINR CurrencyUSD = Inr (sgn n * (\<bar>n\<bar> * 2 div 167))"
    using neq trunc_fl_ratio[OF b(2), of 167] is_int64_quot[OF b(2), of 167]
    by (simp add: ConvertMinorUnits_def n int64_of_float_def sg)
qed

text \<open>
  C33. Below \<open>2\<^sup>5\<^sup>3 / 167\<close> minor units (about 54 trillion) the detour through \<^verbatim>\<open>float64\<close> does not
  matter: cents become paise by the factor 167/2 and paise become cents by its inverse, each
  truncated toward zero.
\<close>

theorem convert_is_exact:
  assumes "\<bar>n\<bar> * 167 < 2 ^ 53"
  shows "ConvertMinorUnits oor NewCurrencyService n CurrencyUSD CurrencyINR = Inr (sgn n * (\<bar>n\<bar> * 167 div 2))
    \<and> ConvertMinorUnits oor NewCurrencyService n CurrencyINR CurrencyUSD = Inr (sgn n * (\<bar>n\<bar> * 2 div 167))"
  using ConvertMinorUnits_exact[OF assms] by blast

theorem convert_is_exact_witness:
  "ConvertMinorUnits (\<lambda>_. 0) NewCurrencyService 100 CurrencyUSD CurrencyINR = Inr 8350
   \<and> ConvertMinorUnits (\<lambda>_. 0) NewCurrencyService 8350 CurrencyINR CurrencyUSD = Inr 100
   \<and> ConvertMinorUnits (\<lambda>_. 0) NewCurrencyService (- 1) CurrencyUSD CurrencyINR = Inr (- 83)"
  using convert_is_exact[of 100] convert_is_exact[of 8350] convert_is_exact[of "- 1"] by simp

text \<open>
  Converting cents to paise and back: an even amount survives, an odd amount loses one
  cent.
\<close>

theorem convert_round_trip:
  assumes "0 \<le> n" and "n * 167 * 167 < 2 ^ 53"
  shows "(case ConvertMinorUnits oor NewCurrencyService n CurrencyUSD CurrencyINR of
      Inr paise \<Rightarrow> ConvertMinorUnits oor NewCurrencyService paise CurrencyINR CurrencyUSD | Inl e \<Rightarrow> Inl e)
    = Inr (if even n then n else n - 1)"
proof -
  let ?p = "n * 167 div 2"
  have "0 \<le> ?p" "?p \<le> n * 167" using assms(1) by (auto simp: pos_imp_zdiv_nonneg_iff)
  with assms have b: "\<bar>n\<bar> * 167 < 2 ^ 53" "\<bar>?p\<bar> * 167 < 2 ^ 53" "0 \<le> ?p" by auto
  have "sgn n * (\<bar>n\<bar> * 167 div 2) = ?p" using assms(1) by (cases "n = 0") auto
  moreover have "sgn ?p * (\<bar>?p\<bar> * 2 div 167) = (if even n then n else n - 1)"
  proof -
    have "sgn ?p * (\<bar>?p\<bar> * 2 div 167) = ?p * 2 div 167" using b(3) by (cases "?p = 0") auto
    moreover have "?p * 2 div 167 = (if even n then n else n - 1)"
    proof (cases "even n")
      case True
      then obtain k where "n = 2 * k" by (rule evenE)
      then show ?thesis by simp
    next
      case False
      then obtain k where k: "n = 2 * k + 1" by (rule oddE)
      have "n * 167 = 2 * (167 * k + 83) + 1" using k by simp
      then have "?p = 167 * k + 83" by (metis even_two_times_div_two odd_two_times_div_two_succ div_mult_self1_is_m
            even_mult_iff even_numeral add_right_cancel odd_one even_add nonzero_mult_div_cancel_left zero_neq_numeral)
      then have "?p * 2 = 166 + 2 * k * 167" by simp
      then have "?p * 2 div 167 = 2 * k" by (simp only: div_mult_self1)
      with k show ?thesis by simp
    qed
    ultimately show ?thesis by simp
  qed
  ultimately show ?thesis
    using ConvertMinorUnits_exact(1)[OF b(1), of oor] ConvertMinorUnits_exact(2)[OF b(2), of oor] by simp
qed

theorem convert_round_trip_witness:
  "(case ConvertMinorUnits (\<lambda>_. 0) NewCurrencyService 3 CurrencyUSD CurrencyINR of
      Inr paise \<Rightarrow> ConvertMinorUnits (\<lambda>_. 0) NewCurrencyService paise CurrencyINR CurrencyUSD | Inl e \<Rightarrow> Inl e)
    = Inr 2"
  using convert_round_trip[of 3 "\<lambda>_. 0"] by simp

section \<open>Printing\<close>

lemma rhe_near: assumes "\<bar>y - of_int m\<bar> < 1 / 2" shows "round_half_even y = m"
proof -
  have "\<bar>of_int (round_half_even y) - (of_int m :: rat)\<bar> < 1" using rhe_error[of y] assms by linarith
  then have "\<bar>of_int (round_half_even y - m)\<bar> < (1 :: rat)" by simp
  then show ?thesis by (simp flip: of_int_abs)
qed

lemma abs_fl: "\<bar>fl x\<bar> = fl \<bar>x\<bar>"
  using fl_nonneg[of x] fl_nonpos[of x] by (cases "0 \<le> x") (simp_all add: fl_minus abs_of_nonpos)

text \<open>
  Below \<open>2\<^sup>5\<^sup>1\<close> minor units the printed text is exact: sign, the units, a point, and the two
  digits of the hundredths.
\<close>

theorem FormatToMajorUnits_exact:
  assumes "\<bar>n\<bar> < 2 ^ 51"
  shows "FormatToMajorUnits n = (if n < 0 then ''-'' else '''') @ string_of_nat (nat \<bar>n\<bar> div 100) @ ''.''
    @ [digit_char (nat \<bar>n\<bar> mod 100 div 10), digit_char (nat \<bar>n\<bar> mod 10)]"
proof -
  let ?x = "of_int n / 100 :: rat"
  have n: "fl (of_int n) = of_int n" using assms by (intro fl_int) auto
  have "(of_int \<bar>n\<bar> :: rat) < of_int (2 ^ 51)" using assms by (simp only: of_int_less_iff)
  then have small: "\<bar>?x\<bar> / 2 ^ 53 < 1 / 400" by (simp add: abs_divide)
  have "abs (abs (fl ?x) - abs ?x) \<le> abs ?x / 2 ^ 53" using fl_error[of "\<bar>?x\<bar>"] unfolding abs_fl by simp
  with small have "abs (abs (fl ?x) - of_int (abs n) / 100) < 1 / 400" by (simp add: abs_divide)
  then have near: "abs (abs (fl ?x) * 100 - of_int (abs n)) < 1 / 2" unfolding abs_less_iff by linarith
  have "fl ?x < 0 \<longleftrightarrow> n < 0"
  proof
    assume "fl ?x < 0"
    then show "n < 0" using fl_nonneg[of ?x] by (cases "n < 0") auto
  next
    assume neg: "n < 0"
    then have "1 \<le> \<bar>n\<bar>" by simp
    then have "of_int 1 \<le> (of_int \<bar>n\<bar> :: rat)" by (simp only: of_int_le_iff)
    with near have "fl ?x \<noteq> 0" by auto
    moreover have "fl ?x \<le> 0" using neg by (intro fl_nonpos) simp
    ultimately show "fl ?x < 0" by simp
  qed
  then show ?thesis
    using rhe_near[OF near] by (simp add: FormatToMajorUnits_def format_2f_def n Let_def)
qed

theorem FormatToMajorUnits_exact_witness: "FormatToMajorUnits (- 12305) = ''-123.05''"
  using FormatToMajorUnits_exact[of "- 12305"] by (simp add: string_of_nat.simps del: digit_char.simps)

end
