(* ===== verification/Subscription.thy ===== *)
theory Subscription
  imports PaymentRepo GoFloat
begin

text \<open>
  Subscriptions: the in-memory service (\<^verbatim>\<open>internal/service/subscription.go\<close>) with its billing
  periods and proration, and the SQL repository (\<^verbatim>\<open>internal/repository/postgres_subscription.go\<close>).
  The \<^verbatim>\<open>sync.Map\<close> of the service is a map from ids to records.
\<close>

section \<open>The service\<close>

definition ErrSubscriptionNotFound :: goerr where
  "ErrSubscriptionNotFound = ErrNew ''subscription record not found''"

definition ErrInvalidBillingPeriod :: goerr where
  "ErrInvalidBillingPeriod = ErrNew ''billing period must be monthly or annual''"

record Subscription =
  sub_ID :: string
  sub_UserID :: string
  sub_PlanID :: string
  sub_Amount :: int
  sub_BillingPeriod :: string
  CurrentPeriodStart :: gotime
  CurrentPeriodEnd :: gotime

type_synonym sub_store = "string \<rightharpoonup> Subscription"

text \<open>\<open>now\<close> is the reading of \<^verbatim>\<open>time.Now\<close>.\<close>

definition CreateSubscription ::
    "gotime \<Rightarrow> sub_store \<Rightarrow> string \<Rightarrow> string \<Rightarrow> string \<Rightarrow> int \<Rightarrow> string \<Rightarrow> sub_store \<times> Subscription result" where
  "CreateSubscription now store subID userID planID amount period =
     (if period \<noteq> ''monthly'' \<and> period \<noteq> ''annual'' then (store, Inl ErrInvalidBillingPeriod)
      else (let startTime = now;
                endTime = (if period = ''monthly'' then time_AddDate startTime 0 1 0
                           else time_AddDate startTime 1 0 0);
                sub = \<lparr>sub_ID = subID, sub_UserID = userID, sub_PlanID = planID, sub_Amount = amount,
                       sub_BillingPeriod = period, CurrentPeriodStart = startTime,
                       CurrentPeriodEnd = endTime\<rparr>
            in (store(subID \<mapsto> sub), Inr sub)))"

definition CalculateProration ::
    "(float64 \<Rightarrow> int) \<Rightarrow> gotime \<Rightarrow> sub_store \<Rightarrow> string \<Rightarrow> int \<Rightarrow> int result" where
  "CalculateProration oor now store subID newAmount =
     (case store subID of
        None \<Rightarrow> Inl ErrSubscriptionNotFound
      | Some sub \<Rightarrow>
          (let totalDuration = time_Sub (CurrentPeriodEnd sub) (CurrentPeriodStart sub);
               remainingDuration = time_Sub (CurrentPeriodEnd sub) now
           in if remainingDuration \<le> 0 then Inr newAmount
              else (let usedRatio = fl (fl (of_int (time_Sub now (CurrentPeriodStart sub))) / fl (of_int totalDuration));
                        unusedRatio = fl (1 - usedRatio);
                        currentPlanUnusedCredit = fl (fl (of_int (sub_Amount sub)) * unusedRatio);
                        newPlanRemainingCost = fl (fl (of_int newAmount) * unusedRatio);
                        proratedCharge = fl (newPlanRemainingCost - currentPlanUnusedCredit)
                    in if proratedCharge < 0 then Inr 0 else Inr (int64_of_float oor proratedCharge))))"

subsection \<open>Billing periods\<close>

lemma AddDate_month:
  "\<exists>k \<in> {28..31}. wall (time_AddDate t 0 1 0) = wall t + k * day_ns"
proof -
  obtain y m d where c: "civil_of_days (wall t div day_ns) = (y, m, d)" by (metis prod_cases3)
  note C = civil_roundtrip[OF c]
  have "wall (time_AddDate t 0 1 0) = (wall t div day_ns + month_lengths y ! (m - 1)) * day_ns + wall t mod day_ns"
    using days_next_month[OF C(2,3), of y d] C(1) by (simp add: time_AddDate_def c)
  also have "\<dots> = wall t + month_lengths y ! (m - 1) * day_ns"
    by (simp add: distrib_right)
  finally show ?thesis
    using month_lengths_nth[of "m - 1" y] C(2,3) by auto
qed

lemma AddDate_year:
  "\<exists>k \<in> {365, 366}. wall (time_AddDate t 1 0 0) = wall t + k * day_ns"
proof -
  obtain y m d where c: "civil_of_days (wall t div day_ns) = (y, m, d)" by (metis prod_cases3)
  note C = civil_roundtrip[OF c]
  define k where "k = days_of_date (y + 1) (int m) d - days_of_date y (int m) d"
  have "wall (time_AddDate t 1 0 0) = (wall t div day_ns + k) * day_ns + wall t mod day_ns"
    using C(1) by (simp add: time_AddDate_def c k_def)
  then have "wall (time_AddDate t 1 0 0) = wall t + k * day_ns" by (simp add: distrib_right)
  moreover have "k \<in> {365, 366}" unfolding k_def by (rule days_next_year[OF C(2,3)])
  ultimately show ?thesis by blast
qed

lemma mono_AddDate [simp]: "mono (time_AddDate t y m d) = None"
  by (simp add: time_AddDate_def split: prod.splits)

text \<open>
  Creating a subscription: a period other than \<^verbatim>\<open>monthly\<close> and \<^verbatim>\<open>annual\<close> is refused and stores
  nothing; otherwise the record is stored under its id, every other id keeps its record, and
  the period runs from now for 28 to 31 days when monthly and 365 or 366 days when annual.
\<close>

theorem CreateSubscription_period:
  "case CreateSubscription now store subID userID planID amount period of
     (store', Inl e) \<Rightarrow> period \<notin> {''monthly'', ''annual''} \<and> e = ErrInvalidBillingPeriod \<and> store' = store
   | (store', Inr sub) \<Rightarrow> store' = store(subID \<mapsto> sub)
       \<and> sub_ID sub = subID \<and> sub_UserID sub = userID \<and> sub_PlanID sub = planID \<and> sub_Amount sub = amount
       \<and> sub_BillingPeriod sub = period \<and> CurrentPeriodStart sub = now
       \<and> (\<exists>k. time_Sub (CurrentPeriodEnd sub) now = k * day_ns
            \<and> (period = ''monthly'' \<and> 28 \<le> k \<and> k \<le> 31 \<or> period = ''annual'' \<and> (k = 365 \<or> k = 366)))"
proof -
  have sub: "time_Sub t' now = k * day_ns"
    if "wall t' = wall now + k * day_ns" "mono t' = None" "0 \<le> k" "k \<le> 366" for t' k
    using that by (simp add: time_Sub_def is_int64_def int64_bounds day_ns_def duration_defs)
  obtain k where k: "28 \<le> k" "k \<le> 31" "wall (time_AddDate now 0 1 0) = wall now + k * day_ns"
    using AddDate_month[of now] by auto
  obtain j where j: "j = 365 \<or> j = 366" "wall (time_AddDate now 1 0 0) = wall now + j * day_ns"
    using AddDate_year[of now] by auto
  have "time_Sub (time_AddDate now 0 1 0) now = k * day_ns" using k by (intro sub) auto
  moreover have "time_Sub (time_AddDate now 1 0 0) now = j * day_ns" using j by (intro sub) auto
  ultimately show ?thesis
    using k(1,2) j(1) by (auto simp: CreateSubscription_def Let_def)
qed

subsection \<open>Proration\<close>

text \<open>The share of the period that is left, as the code computes it, lies between 0 and 1.\<close>

lemma unused_ratio_bounds:
  assumes "0 \<le> a" and "a \<le> b" and "0 < b" and "b \<le> 2 ^ 60"
  defines "u \<equiv> fl (1 - fl (fl (of_int a) / fl (of_int b)))"
  shows "0 \<le> u" and "u \<le> 1"
proof -
  have mono: "fl (of_int a) \<le> fl (of_int b)" using assms by (intro fl_mono) simp
  have a0: "0 \<le> fl (of_int a)" using assms by (intro fl_nonneg) simp
  have "fl 1 \<le> fl (of_int b)" using assms by (intro fl_mono) simp
  moreover have one: "fl 1 = 1" using fl_int[of 1] by simp
  ultimately have b1: "1 \<le> fl (of_int b)" by simp
  have r: "0 \<le> fl (of_int a) / fl (of_int b)" "fl (of_int a) / fl (of_int b) \<le> 1"
    using a0 b1 mono by (auto simp: divide_le_eq_1)
  have "0 \<le> fl (fl (of_int a) / fl (of_int b))" using r(1) by (rule fl_nonneg)
  moreover have "fl (fl (of_int a) / fl (of_int b)) \<le> 1" using fl_mono[OF r(2)] one by simp
  ultimately show "0 \<le> u" "u \<le> 1"
    using fl_nonneg[of "1 - fl (fl (of_int a) / fl (of_int b))"]
      fl_mono[of "1 - fl (fl (of_int a) / fl (of_int b))" 1] one by (auto simp: u_def)
qed

lemma prorated_downgrade:
  assumes "0 \<le> u" and "newAmount \<le> amount"
  shows "fl (fl (fl (of_int newAmount) * u) - fl (fl (of_int amount) * u)) \<le> 0"
proof -
  have "fl (of_int newAmount) * u \<le> fl (of_int amount) * u"
    using assms by (intro mult_right_mono fl_mono) auto
  from fl_mono[OF this] show ?thesis by (intro fl_nonpos) simp
qed

lemma prorated_upgrade:
  assumes u: "0 \<le> u" "u \<le> 1" and amt: "0 \<le> amount" "amount \<le> newAmount" "newAmount \<le> 2 ^ 51"
  defines "c \<equiv> fl (fl (fl (of_int newAmount) * u) - fl (fl (of_int amount) * u))"
  shows "0 \<le> c" and "trunc c \<le> newAmount - amount"
proof -
  let ?N = "of_int newAmount * u" and ?A = "of_int amount * u"
  have ex: "fl (of_int newAmount) = of_int newAmount" "fl (of_int amount) = of_int amount"
    using amt by (auto intro!: fl_int)
  have le: "?A \<le> ?N" using u amt by (intro mult_right_mono) auto
  show "0 \<le> c" unfolding c_def ex using fl_mono[OF le] by (intro fl_nonneg) simp
  have small: "of_int n * u \<le> 2 ^ 51" if "0 \<le> n" "n \<le> 2 ^ 51" for n
  proof -
    have "of_int n * u \<le> of_int n * 1" using u that by (intro mult_left_mono) auto
    also have "\<dots> \<le> of_int (2 ^ 51)" using that(2) by (simp only: mult_1_right of_int_le_iff)
    finally show ?thesis by simp
  qed
  have "\<bar>fl ?N - ?N\<bar> \<le> 1 / 4" "\<bar>fl ?A - ?A\<bar> \<le> 1 / 4"
    using fl_error[of ?N] fl_error[of ?A] small[of newAmount] small[of amount] u amt by auto
  then have "fl ?N - fl ?A \<le> (?N - ?A) + 1 / 2" unfolding abs_le_iff by linarith
  moreover have "?N - ?A \<le> of_int (newAmount - amount)"
    using mult_left_mono[OF u(2), of "of_int (newAmount - amount)"] amt by (simp add: left_diff_distrib)
  ultimately have "fl ?N - fl ?A \<le> of_int (2 * (newAmount - amount) + 1) / 2" by simp
  moreover have "fl (of_int (2 * (newAmount - amount) + 1) / 2) = of_int (2 * (newAmount - amount) + 1) / 2"
    using amt by (intro fl_half_int) auto
  ultimately have "c \<le> of_int (2 * (newAmount - amount) + 1) / 2"
    unfolding c_def ex by (metis fl_mono)
  then have "trunc c \<le> trunc (of_int (2 * (newAmount - amount) + 1) / 2)" by (rule trunc_mono)
  also have "\<dots> = newAmount - amount" using amt by (simp add: trunc_def floor_eq_iff)
  finally show "trunc c \<le> newAmount - amount" .
qed

text \<open>
  C32. Proration while the period runs and the wall clock is not adjusted meanwhile, for
  amounts up to \<open>2\<^sup>5\<^sup>1\<close> minor units: a downgrade costs nothing, an upgrade costs at least nothing
  and at most the difference of the amounts, and exactly that difference at the start of the
  period. From the end of the period on the full new amount is due.
\<close>

theorem proration_bounds:
  assumes sub: "store subID = Some sub"
    and amt: "0 \<le> sub_Amount sub" "sub_Amount sub \<le> 2 ^ 51" "0 \<le> newAmount" "newAmount \<le> 2 ^ 51"
    and total: "0 < time_Sub (CurrentPeriodEnd sub) (CurrentPeriodStart sub)"
      "time_Sub (CurrentPeriodEnd sub) (CurrentPeriodStart sub) \<le> 2 ^ 60"
    and elapsed: "0 \<le> time_Sub now (CurrentPeriodStart sub)"
    and clock: "time_Sub (CurrentPeriodEnd sub) now =
      time_Sub (CurrentPeriodEnd sub) (CurrentPeriodStart sub) - time_Sub now (CurrentPeriodStart sub)"
  shows "\<exists>c. CalculateProration oor now store subID newAmount = Inr c
    \<and> (if time_Sub (CurrentPeriodEnd sub) now \<le> 0 then c = newAmount
       else 0 \<le> c \<and> c \<le> max 0 (newAmount - sub_Amount sub)
         \<and> (time_Sub now (CurrentPeriodStart sub) = 0 \<longrightarrow> c = max 0 (newAmount - sub_Amount sub)))"
proof (cases "time_Sub (CurrentPeriodEnd sub) now \<le> 0")
  case True
  then show ?thesis by (simp add: CalculateProration_def sub)
next
  case False
  let ?a = "time_Sub now (CurrentPeriodStart sub)"
  let ?b = "time_Sub (CurrentPeriodEnd sub) (CurrentPeriodStart sub)"
  let ?u = "fl (1 - fl (fl (of_int ?a) / fl (of_int ?b)))"
  let ?c = "fl (fl (fl (of_int newAmount) * ?u) - fl (fl (of_int (sub_Amount sub)) * ?u))"
  have u: "0 \<le> ?u" "?u \<le> 1" using unused_ratio_bounds[of ?a ?b] elapsed total clock False by auto
  have run: "CalculateProration oor now store subID newAmount =
      Inr (if ?c < 0 then 0 else int64_of_float oor ?c)"
    using False by (simp add: CalculateProration_def sub Let_def)
  show ?thesis
  proof (cases "newAmount \<le> sub_Amount sub")
    case True
    with prorated_downgrade[OF u(1)] have "?c \<le> 0" by blast
    then have "(if ?c < 0 then 0 else int64_of_float oor ?c) = 0"
      by (auto simp: int64_of_float_def trunc_def is_int64_def int64_bounds)
    with run True False show ?thesis by (simp add: max_def)
  next
    case up: False
    then have le: "sub_Amount sub \<le> newAmount" by simp
    note P = prorated_upgrade[OF u amt(1) le amt(4)]
    have "0 \<le> trunc ?c" using trunc_mono[OF P(1)] by (simp add: trunc_def)
    moreover have "is_int64 (trunc ?c)" using calculation P(2) amt by (auto simp: is_int64_def int64_bounds)
    moreover have "trunc ?c = newAmount - sub_Amount sub" if "?a = 0"
    proof -
      have "fl 1 = 1" using fl_int[of 1] by simp
      moreover have "fl (of_int newAmount) = of_int newAmount" "fl (of_int (sub_Amount sub)) = of_int (sub_Amount sub)"
        "fl (of_int newAmount - of_int (sub_Amount sub)) = of_int (newAmount - sub_Amount sub)"
        using amt le fl_int[of "newAmount - sub_Amount sub"] by (auto intro!: fl_int)
      ultimately have "?c = of_int (newAmount - sub_Amount sub)" by (simp add: that)
      then show ?thesis by (metis trunc_of_int)
    qed
    ultimately show ?thesis using run P False up by (simp add: max_def)
  qed
qed

text \<open>A 30-day subscription of 100 minor units that starts at time 0.\<close>

definition sub0 :: Subscription where
  "sub0 = \<lparr>sub_ID = ''s'', sub_UserID = ''u1'', sub_PlanID = ''basic'', sub_Amount = 100,
     sub_BillingPeriod = ''monthly'', CurrentPeriodStart = \<lparr>wall = 0, mono = Some 0\<rparr>,
     CurrentPeriodEnd = \<lparr>wall = 30 * day_ns, mono = None\<rparr>\<rparr>"

theorem proration_bounds_witness:
  "CalculateProration (\<lambda>_. 0) \<lparr>wall = 0, mono = Some 0\<rparr> [''s'' \<mapsto> sub0] ''s'' 250 = Inr 150"
proof -
  let ?now = "\<lparr>wall = 0, mono = Some 0\<rparr> :: gotime"
  have t: "time_Sub (CurrentPeriodEnd sub0) (CurrentPeriodStart sub0) = 30 * day_ns"
    "time_Sub ?now (CurrentPeriodStart sub0) = 0" "time_Sub (CurrentPeriodEnd sub0) ?now = 30 * day_ns"
    by (simp_all add: sub0_def time_Sub_def sat64_def int64_bounds day_ns_def duration_defs)
  have "\<exists>c. CalculateProration (\<lambda>_. 0) ?now [''s'' \<mapsto> sub0] ''s'' 250 = Inr c
    \<and> (if time_Sub (CurrentPeriodEnd sub0) ?now \<le> 0 then c = 250
       else 0 \<le> c \<and> c \<le> max 0 (250 - sub_Amount sub0)
         \<and> (time_Sub ?now (CurrentPeriodStart sub0) = 0 \<longrightarrow> c = max 0 (250 - sub_Amount sub0)))"
    by (rule proration_bounds) (simp_all only: t, simp_all add: sub0_def day_ns_def duration_defs)
  then show ?thesis unfolding t by (auto simp: sub0_def day_ns_def duration_defs)
qed

text \<open>
  The elapsed time is measured on the monotonic clock, the period and the remaining time
  on the wall clock. When the wall clock is set back during the period the two disagree and
  a downgrade is charged: 60 days after the start of a 30-day period, with the wall clock set
  back to day 10, changing from 100 to 50 minor units costs 50.
\<close>

theorem downgrade_charged_after_clock_step:
  "CalculateProration oor \<lparr>wall = 10 * day_ns, mono = Some (60 * day_ns)\<rparr> [''s'' \<mapsto> sub0] ''s'' 50 = Inr 50"
proof -
  let ?now = "\<lparr>wall = 10 * day_ns, mono = Some (60 * day_ns)\<rparr> :: gotime"
  have t: "time_Sub (CurrentPeriodEnd sub0) (CurrentPeriodStart sub0) = 2592000000000000"
    "time_Sub ?now (CurrentPeriodStart sub0) = 5184000000000000"
    "time_Sub (CurrentPeriodEnd sub0) ?now = 1728000000000000" "sub_Amount sub0 = 100"
    by (simp_all add: sub0_def time_Sub_def sat64_def int64_bounds day_ns_def duration_defs)
  have f: "fl 5184000000000000 = 5184000000000000" "fl 2592000000000000 = 2592000000000000"
    "fl 2 = 2" "fl 50 = 50" "fl 100 = 100"
    using fl_int[of 5184000000000000] fl_int[of 2592000000000000] fl_int[of 2] fl_int[of 50] fl_int[of 100]
    by simp_all
  have g: "fl (- 1) = - 1" "fl (- 50) = - 50" "fl (- 100) = - 100"
    using f fl_int[of "- 1"] by (simp_all add: fl_minus)
  have "trunc 50 = 50" using trunc_of_int[of 50] by simp
  then show ?thesis
    by (simp add: CalculateProration_def t f g Let_def is_int64_def int64_bounds)
qed

section \<open>The repository\<close>

record RepoSubscription =
  rs_ID :: string
  rs_MerchantID :: string
  rs_PlanName :: string
  rs_BillingPeriod :: string
  rs_Status :: string
  rs_CurrentPeriodStart :: gotime
  rs_CurrentPeriodEnd :: gotime
  rs_CreatedAt :: gotime
  rs_UpdatedAt :: gotime

definition sub_columns_fit :: "pg \<Rightarrow> RepoSubscription \<Rightarrow> bool" where
  "sub_columns_fit pg sub \<longleftrightarrow> char_len pg (rs_PlanName sub) \<le> 50
     \<and> char_len pg (rs_BillingPeriod sub) \<le> 20 \<and> char_len pg (rs_Status sub) \<le> 20"

definition sql_insert_subscription :: "pg \<Rightarrow> db \<Rightarrow> RepoSubscription \<Rightarrow> (subscription_row \<times> db) result" where
  "sql_insert_subscription pg d sub =
     exec pg S_insert_subscription (uuid_arg pg (rs_MerchantID sub) (\<lambda>u.
       let row = \<lparr>sbr_id = gen_uuid pg S_insert_subscription, sbr_merchant_id = u,
             sbr_plan_name = rs_PlanName sub, sbr_billing_period = rs_BillingPeriod sub,
             sbr_status = rs_Status sub, sbr_period_start = ts_in pg (wall (rs_CurrentPeriodStart sub)),
             sbr_period_end = ts_in pg (wall (rs_CurrentPeriodEnd sub)),
             sbr_created_at = tx_now pg, sbr_updated_at = tx_now pg\<rparr>
       in if \<not> sub_columns_fit pg sub then Inl (pq_error ''value too long for type character varying'')
          else if find_user u d = None
          then Inl (pq_error ''insert or update on table subscriptions violates foreign key constraint subscriptions_merchant_id_fkey'')
          else if sbr_id row \<in> sbr_id ` set (tbl_subscriptions d)
          then Inl (pq_error ''duplicate key value violates unique constraint subscriptions_pkey'')
          else Inr (row, d\<lparr>tbl_subscriptions := tbl_subscriptions d @ [row]\<rparr>)))"

text \<open>\<^verbatim>\<open>Create\<close> fills the id and the timestamps of the caller's record.\<close>

definition Create :: "pg \<Rightarrow> db \<Rightarrow> RepoSubscription \<Rightarrow> db \<times> RepoSubscription \<times> goerr option" where
  "Create pg d sub =
     (case autocommit pg d (sql_insert_subscription pg d sub) of
        (d', Inl e) \<Rightarrow> (d', sub, Some e)
      | (d', Inr row) \<Rightarrow> (d', sub\<lparr>rs_ID := sbr_id row, rs_CreatedAt := db_time (sbr_created_at row),
                               rs_UpdatedAt := db_time (sbr_updated_at row)\<rparr>, None))"

definition scan_subscription :: "subscription_row \<Rightarrow> RepoSubscription" where
  "scan_subscription r = \<lparr>rs_ID = sbr_id r, rs_MerchantID = sbr_merchant_id r, rs_PlanName = sbr_plan_name r,
     rs_BillingPeriod = sbr_billing_period r, rs_Status = sbr_status r,
     rs_CurrentPeriodStart = db_time (sbr_period_start r), rs_CurrentPeriodEnd = db_time (sbr_period_end r),
     rs_CreatedAt = db_time (sbr_created_at r), rs_UpdatedAt = db_time (sbr_updated_at r)\<rparr>"

definition sql_select_subscription :: "pg \<Rightarrow> db \<Rightarrow> string \<Rightarrow> subscription_row result" where
  "sql_select_subscription pg d merchantID =
     exec pg S_select_subscription (uuid_arg pg merchantID (\<lambda>u.
       let rows = filter (\<lambda>r. sbr_merchant_id r = u) (tbl_subscriptions d)
       in if rows = [] then Inl sql_ErrNoRows else Inr (rows ! (row_pick pg (length rows) mod length rows))))"

definition GetByMerchantID :: "pg \<Rightarrow> db \<Rightarrow> string \<Rightarrow> RepoSubscription option result" where
  "GetByMerchantID pg d merchantID =
     (case sql_select_subscription pg d merchantID of
        Inl e \<Rightarrow> if errors_Is e sql_ErrNoRows then Inr None else Inl e
      | Inr row \<Rightarrow> Inr (Some (scan_subscription row)))"

definition sql_update_subscription :: "pg \<Rightarrow> db \<Rightarrow> RepoSubscription \<Rightarrow> (unit \<times> db) result" where
  "sql_update_subscription pg d sub =
     exec pg S_update_subscription (uuid_arg pg (rs_ID sub) (\<lambda>i.
       if \<not> sub_columns_fit pg sub \<and> i \<in> sbr_id ` set (tbl_subscriptions d)
       then Inl (pq_error ''value too long for type character varying'')
       else Inr ((), d\<lparr>tbl_subscriptions := update_where (\<lambda>r. sbr_id r = i)
         (\<lambda>r. r\<lparr>sbr_plan_name := rs_PlanName sub, sbr_billing_period := rs_BillingPeriod sub,
                sbr_status := rs_Status sub,
                sbr_period_start := ts_in pg (wall (rs_CurrentPeriodStart sub)),
                sbr_period_end := ts_in pg (wall (rs_CurrentPeriodEnd sub)),
                sbr_updated_at := tx_now pg\<rparr>) (tbl_subscriptions d)\<rparr>)))"

definition Update :: "pg \<Rightarrow> db \<Rightarrow> RepoSubscription \<Rightarrow> db \<times> goerr option" where
  "Update pg d sub =
     (case autocommit pg d (sql_update_subscription pg d sub) of
        (d', Inl e) \<Rightarrow> (d', Some e) | (d', Inr _) \<Rightarrow> (d', None))"

lemmas subscription_stmt_defs [sql_defs] = sql_insert_subscription_def sql_select_subscription_def
  sql_update_subscription_def

text \<open>
  What \<^verbatim>\<open>Create\<close> stores, \<^verbatim>\<open>GetByMerchantID\<close> reads back, for a merchant without an earlier
  subscription: the same plan, period and status, the id and timestamps \<^verbatim>\<open>Create\<close> reported, and
  the period bounds at the resolution of the database.
\<close>

theorem subscription_round_trip:
  assumes "healthy pg" and "fault pg' S_select_subscription = None" and "uuid_in pg' = uuid_in pg"
    and "uuid_in pg (rs_MerchantID sub) = Some u" and "find_user u d \<noteq> None"
    and "sub_columns_fit pg sub" and "gen_uuid pg S_insert_subscription \<notin> sbr_id ` set (tbl_subscriptions d)"
    and "\<And>r. r \<in> set (tbl_subscriptions d) \<Longrightarrow> sbr_merchant_id r \<noteq> u"
  shows "\<exists>d' sub'. Create pg d sub = (d', sub', None)
    \<and> GetByMerchantID pg' d' (rs_MerchantID sub) = Inr (Some (sub'\<lparr>rs_MerchantID := u,
        rs_CurrentPeriodStart := db_time (ts_in pg (wall (rs_CurrentPeriodStart sub))),
        rs_CurrentPeriodEnd := db_time (ts_in pg (wall (rs_CurrentPeriodEnd sub)))\<rparr>))
    \<and> rs_ID sub' = gen_uuid pg S_insert_subscription \<and> rs_PlanName sub' = rs_PlanName sub"
proof -
  have "filter (\<lambda>r. sbr_merchant_id r = u) (tbl_subscriptions d) = []"
    using assms(8) by (auto simp: filter_empty_conv)
  then show ?thesis
    using assms(1-7)
    by (auto simp: Create_def GetByMerchantID_def sql_defs healthy_def Let_def scan_subscription_def)
qed

definition merchant_sub0 :: RepoSubscription where
  "merchant_sub0 = \<lparr>rs_ID = '''', rs_MerchantID = ''u1'', rs_PlanName = ''basic'', rs_BillingPeriod = ''monthly'',
     rs_Status = ''active'', rs_CurrentPeriodStart = db_time 1234567, rs_CurrentPeriodEnd = db_time 7654321,
     rs_CreatedAt = time_zero, rs_UpdatedAt = time_zero\<rparr>"

theorem subscription_round_trip_witness:
  "\<exists>d' sub'. Create pg0 (empty_db\<lparr>tbl_users := [\<lparr>usr_id = ''u1'', usr_email = ''m'', usr_balance = 0,
      usr_currency = ''INR'', usr_created_at = 0\<rparr>]\<rparr>) merchant_sub0 = (d', sub', None)
    \<and> map_option rs_CurrentPeriodStart (projr (GetByMerchantID pg0 d' ''u1'')) = Some (db_time 1234000)"
proof -
  let ?d = "empty_db\<lparr>tbl_users := [\<lparr>usr_id = ''u1'', usr_email = ''m'', usr_balance = 0,
      usr_currency = ''INR'', usr_created_at = 0\<rparr>]\<rparr>"
  have "\<exists>d' sub'. Create pg0 ?d merchant_sub0 = (d', sub', None)
    \<and> GetByMerchantID pg0 d' (rs_MerchantID merchant_sub0) = Inr (Some (sub'\<lparr>rs_MerchantID := ''u1'',
        rs_CurrentPeriodStart := db_time (ts_in pg0 (wall (rs_CurrentPeriodStart merchant_sub0))),
        rs_CurrentPeriodEnd := db_time (ts_in pg0 (wall (rs_CurrentPeriodEnd merchant_sub0)))\<rparr>))
    \<and> rs_ID sub' = gen_uuid pg0 S_insert_subscription \<and> rs_PlanName sub' = rs_PlanName merchant_sub0"
    by (rule subscription_round_trip)
      (auto simp: healthy_def pg0_def merchant_sub0_def find_user_def empty_db_def sub_columns_fit_def)
  then show ?thesis by (auto simp: merchant_sub0_def pg0_def db_time_def)
qed

text \<open>The row \<^verbatim>\<open>Update\<close> writes over.\<close>

definition updated_row :: "pg \<Rightarrow> RepoSubscription \<Rightarrow> subscription_row \<Rightarrow> subscription_row" where
  "updated_row pg sub r = r\<lparr>sbr_plan_name := rs_PlanName sub, sbr_billing_period := rs_BillingPeriod sub,
     sbr_status := rs_Status sub, sbr_period_start := ts_in pg (wall (rs_CurrentPeriodStart sub)),
     sbr_period_end := ts_in pg (wall (rs_CurrentPeriodEnd sub)), sbr_updated_at := tx_now pg\<rparr>"

lemma Update_rows:
  assumes "healthy pg" and "uuid_in pg (rs_ID sub) = Some i" and "sub_columns_fit pg sub"
  shows "Update pg d sub = (d\<lparr>tbl_subscriptions := update_where (\<lambda>r. sbr_id r = i) (updated_row pg sub) (tbl_subscriptions d)\<rparr>, None)"
  using assms by (simp add: Update_def sql_defs healthy_def updated_row_def [abs_def])

text \<open>
  \<^verbatim>\<open>Update\<close> by id: when the merchant's one subscription is updated, \<^verbatim>\<open>GetByMerchantID\<close> reads back
  the plan, period and status of the argument, its period bounds at the resolution of the
  database, the old id, merchant and creation time and the new time of update. For an id that
  no row has, \<^verbatim>\<open>Update\<close> reports success too and changes nothing.
\<close>

theorem subscription_update_round_trip:
  assumes "healthy pg" and "fault pg' S_select_subscription = None" and "uuid_in pg' = uuid_in pg"
    and "uuid_in pg (rs_ID sub) = Some i" and "uuid_in pg m = Some u" and "sub_columns_fit pg sub"
  shows "(\<forall>r. filter (\<lambda>r. sbr_merchant_id r = u) (tbl_subscriptions d) = [r] \<and> sbr_id r = i \<longrightarrow>
      (\<exists>d'. Update pg d sub = (d', None)
        \<and> GetByMerchantID pg' d' m = Inr (Some (sub\<lparr>rs_ID := i, rs_MerchantID := u,
            rs_CurrentPeriodStart := db_time (ts_in pg (wall (rs_CurrentPeriodStart sub))),
            rs_CurrentPeriodEnd := db_time (ts_in pg (wall (rs_CurrentPeriodEnd sub))),
            rs_CreatedAt := db_time (sbr_created_at r), rs_UpdatedAt := db_time (tx_now pg)\<rparr>))))
    \<and> (i \<notin> sbr_id ` set (tbl_subscriptions d) \<longrightarrow> Update pg d sub = (d, None))"
proof (intro conjI allI impI)
  fix r
  assume r: "filter (\<lambda>r. sbr_merchant_id r = u) (tbl_subscriptions d) = [r] \<and> sbr_id r = i"
  let ?rows = "update_where (\<lambda>r. sbr_id r = i) (updated_row pg sub) (tbl_subscriptions d)"
  have "filter (\<lambda>r. sbr_merchant_id r = u) ?rows
      = update_where (\<lambda>r. sbr_id r = i) (updated_row pg sub) (filter (\<lambda>r. sbr_merchant_id r = u) (tbl_subscriptions d))"
    by (rule filter_update_where) (simp add: updated_row_def)
  then have "filter (\<lambda>r. sbr_merchant_id r = u) ?rows = [updated_row pg sub r]"
    using r by (simp add: update_where_def)
  moreover have "sbr_merchant_id r = u"
    using r filter_set [of "\<lambda>r. sbr_merchant_id r = u" "tbl_subscriptions d"] by auto
  ultimately show "\<exists>d'. Update pg d sub = (d', None)
        \<and> GetByMerchantID pg' d' m = Inr (Some (sub\<lparr>rs_ID := i, rs_MerchantID := u,
            rs_CurrentPeriodStart := db_time (ts_in pg (wall (rs_CurrentPeriodStart sub))),
            rs_CurrentPeriodEnd := db_time (ts_in pg (wall (rs_CurrentPeriodEnd sub))),
            rs_CreatedAt := db_time (sbr_created_at r), rs_UpdatedAt := db_time (tx_now pg)\<rparr>))"
    using assms r unfolding Update_rows [OF assms(1,4,6)]
    by (simp add: GetByMerchantID_def sql_defs scan_subscription_def updated_row_def)
next
  assume "i \<notin> sbr_id ` set (tbl_subscriptions d)"
  then have "update_where (\<lambda>r. sbr_id r = i) (updated_row pg sub) (tbl_subscriptions d) = tbl_subscriptions d"
    unfolding update_where_def by (intro map_idI) auto
  then show "Update pg d sub = (d, None)"
    unfolding Update_rows [OF assms(1,4,6)] by simp
qed

theorem subscription_update_round_trip_witness:
  "Update pg0 empty_db (merchant_sub0\<lparr>rs_ID := ''s9''\<rparr>) = (empty_db, None)
   \<and> (\<exists>d'. Update pg0 (empty_db\<lparr>tbl_subscriptions := [\<lparr>sbr_id = ''s1'', sbr_merchant_id = ''u1'', sbr_plan_name = ''old'',
        sbr_billing_period = ''annual'', sbr_status = ''active'', sbr_period_start = 0, sbr_period_end = 0, sbr_created_at = 7,
        sbr_updated_at = 7\<rparr>]\<rparr>) (merchant_sub0\<lparr>rs_ID := ''s1''\<rparr>) = (d', None)
      \<and> map_option rs_PlanName (projr (GetByMerchantID pg0 d' ''u1'')) = Some ''basic'')"
proof -
  let ?d = "empty_db\<lparr>tbl_subscriptions := [\<lparr>sbr_id = ''s1'', sbr_merchant_id = ''u1'', sbr_plan_name = ''old'',
        sbr_billing_period = ''annual'', sbr_status = ''active'', sbr_period_start = 0, sbr_period_end = 0, sbr_created_at = 7,
        sbr_updated_at = 7\<rparr>]\<rparr>"
  have h: "healthy pg0" "fault pg0 S_select_subscription = None" "uuid_in pg0 ''u1'' = Some ''u1''"
    "sub_columns_fit pg0 (merchant_sub0\<lparr>rs_ID := x\<rparr>)" "x \<noteq> '''' \<Longrightarrow> uuid_in pg0 (rs_ID (merchant_sub0\<lparr>rs_ID := x\<rparr>)) = Some x" for x
    by (simp_all add: healthy_def pg0_def sub_columns_fit_def merchant_sub0_def)
  note T = subscription_update_round_trip [OF h(1,2) refl h(5) h(3,4)]
  have "Update pg0 empty_db (merchant_sub0\<lparr>rs_ID := ''s9''\<rparr>) = (empty_db, None)"
    using T [of "''s9''" empty_db] by (simp add: empty_db_def)
  moreover have "filter (\<lambda>r. sbr_merchant_id r = ''u1'') (tbl_subscriptions ?d) = tbl_subscriptions ?d"
    by simp
  then have "\<exists>d'. Update pg0 ?d (merchant_sub0\<lparr>rs_ID := ''s1''\<rparr>) = (d', None)
      \<and> map_option rs_PlanName (projr (GetByMerchantID pg0 d' ''u1'')) = Some ''basic''"
    using T [of "''s1''" ?d] by (auto simp: merchant_sub0_def)
  ultimately show ?thesis
    by blast
qed

end
