(* ===== verification/Dispute.thy ===== *)
theory Dispute
  imports GoTime
begin

text \<open>
  The dispute service (\<^verbatim>\<open>internal/service/dispute.go\<close>). Its two \<^verbatim>\<open>sync.Map\<close> values make each load
  and store atomic but not their composition, so \<open>CreateDispute\<close> exists twice: as one
  operation, and as the sequence of its atomic accesses that goroutines interleave.
\<close>

definition ErrPaymentAlreadyDisputed :: goerr where
  "ErrPaymentAlreadyDisputed = ErrNew ''payment is already locked in an active dispute case''"

definition ErrPaymentNotFound :: goerr where
  "ErrPaymentNotFound = ErrNew ''target payment transaction reference does not exist''"

record Dispute =
  d_ID :: string
  d_PaymentID :: string
  d_Reason :: string
  d_Status :: string
  d_CreatedAt :: gotime

record DisputeService =
  disputesMap :: "string \<rightharpoonup> Dispute"
  paymentsMap :: "string \<rightharpoonup> string"

definition NewDisputeService :: DisputeService where
  "NewDisputeService = \<lparr>disputesMap = Map.empty, paymentsMap = [''ch_test_99'' \<mapsto> ''SUCCESS'']\<rparr>"

text \<open>The check on the loaded status: the error to return, if any.\<close>

definition check_status :: "string option \<Rightarrow> goerr option" where
  "check_status loaded = (case loaded of
     None \<Rightarrow> Some ErrPaymentNotFound
   | Some status \<Rightarrow> if status = ''DISPUTED'' then Some ErrPaymentAlreadyDisputed else None)"

definition new_dispute :: "gotime \<Rightarrow> string \<Rightarrow> string \<Rightarrow> string \<Rightarrow> Dispute" where
  "new_dispute now disputeID paymentID reason =
     \<lparr>d_ID = disputeID, d_PaymentID = paymentID, d_Reason = reason, d_Status = ''OPEN'', d_CreatedAt = now\<rparr>"

definition CreateDispute ::
    "gotime \<Rightarrow> DisputeService \<Rightarrow> string \<Rightarrow> string \<Rightarrow> string \<Rightarrow> DisputeService \<times> Dispute result" where
  "CreateDispute now s disputeID paymentID reason =
     (case check_status (paymentsMap s paymentID) of
        Some e \<Rightarrow> (s, Inl e)
      | None \<Rightarrow>
          (let s1 = s\<lparr>paymentsMap := (paymentsMap s)(paymentID \<mapsto> ''DISPUTED'')\<rparr>;
               dispute = new_dispute now disputeID paymentID reason
           in (s1\<lparr>disputesMap := (disputesMap s1)(disputeID \<mapsto> dispute)\<rparr>, Inr dispute)))"

section \<open>One request at a time\<close>

inductive dispute_call :: "DisputeService \<Rightarrow> DisputeService \<Rightarrow> bool" where
  "dispute_call s (fst (CreateDispute now s disputeID paymentID reason))"

inductive_cases dispute_callE: "dispute_call s s'"

text \<open>
  The invariant: only the seeded reference is a payment, a recorded dispute has locked its
  payment, and a payment has at most one dispute.
\<close>

definition only_seeded :: "(string \<rightharpoonup> string) \<Rightarrow> bool" where
  "only_seeded m \<longleftrightarrow> (\<forall>p. m p = None \<longleftrightarrow> p \<noteq> ''ch_test_99'')"

lemma only_seeded_update: "only_seeded m \<Longrightarrow> m p = Some st \<Longrightarrow> only_seeded (m(p \<mapsto> st'))"
  unfolding only_seeded_def by (metis fun_upd_apply option.distinct(1))

lemma only_seeded_None: "only_seeded m \<Longrightarrow> m p = None \<longleftrightarrow> p \<noteq> ''ch_test_99''"
  by (simp add: only_seeded_def)

lemma only_seeded_init: "only_seeded (paymentsMap NewDisputeService)"
  by (simp add: only_seeded_def NewDisputeService_def)

lemma check_status_None:
  "check_status loaded = None \<longleftrightarrow> (\<exists>st. loaded = Some st \<and> st \<noteq> ''DISPUTED'')"
  by (cases loaded) (simp_all add: check_status_def)

definition dispute_inv :: "DisputeService \<Rightarrow> bool" where
  "dispute_inv s \<longleftrightarrow> only_seeded (paymentsMap s)
     \<and> (\<forall>i d. disputesMap s i = Some d \<longrightarrow> d_ID d = i \<and> paymentsMap s (d_PaymentID d) = Some ''DISPUTED'')
     \<and> (\<forall>i j d e. disputesMap s i = Some d \<longrightarrow> disputesMap s j = Some e \<longrightarrow> d_PaymentID d = d_PaymentID e \<longrightarrow> i = j)"

lemma CreateDispute_keeps_inv:
  assumes inv: "dispute_inv s" shows "dispute_inv (fst (CreateDispute now s disputeID paymentID reason))"
proof (cases "check_status (paymentsMap s paymentID)")
  case (Some e)
  with inv show ?thesis by (simp add: CreateDispute_def)
next
  case None
  then obtain st where st: "paymentsMap s paymentID = Some st" "st \<noteq> ''DISPUTED''"
    by (auto simp: check_status_None)
  define s' where "s' = s\<lparr>paymentsMap := (paymentsMap s)(paymentID \<mapsto> ''DISPUTED''),
      disputesMap := (disputesMap s)(disputeID \<mapsto> new_dispute now disputeID paymentID reason)\<rparr>"
  have old: "d_PaymentID d \<noteq> paymentID" if "disputesMap s i = Some d" for i d
    using inv that st by (auto simp: dispute_inv_def)
  have "only_seeded (paymentsMap s')"
    using inv st by (simp add: s'_def dispute_inv_def only_seeded_update)
  moreover have "d_ID d = i \<and> paymentsMap s' (d_PaymentID d) = Some ''DISPUTED''"
    if "disputesMap s' i = Some d" for i d
    using that inv by (auto simp: s'_def dispute_inv_def new_dispute_def split: if_splits)
  moreover have "i = j" if "disputesMap s' i = Some d" "disputesMap s' j = Some e" "d_PaymentID d = d_PaymentID e"
    for i j d e
    using that inv old[of i d] old[of j e]
    by (auto simp: s'_def dispute_inv_def new_dispute_def split: if_splits)
  ultimately have "dispute_inv s'" unfolding dispute_inv_def by blast
  with None show ?thesis by (simp add: CreateDispute_def Let_def s'_def)
qed

interpretation disputes: transition_system "\<lambda>s. s = NewDisputeService" dispute_call dispute_inv
proof unfold_locales
  show "dispute_inv s" if "s = NewDisputeService" for s
    using that only_seeded_init by (simp add: dispute_inv_def) (simp add: NewDisputeService_def)
  show "dispute_inv t" if "dispute_inv s" "dispute_call s t" for s t
    using that(2,1) by (auto elim!: dispute_callE intro: CreateDispute_keeps_inv)
qed

text \<open>
  Served one at a time, from the seeded service: a dispute is opened exactly when the
  reference is the seeded one and not yet disputed, every other reference is reported as
  missing, and a payment never has two disputes.
\<close>

theorem dispute_sequential:
  assumes "reach (\<lambda>s. s = NewDisputeService) dispute_call s"
  shows "snd (CreateDispute now s disputeID paymentID reason) =
      (if paymentID \<noteq> ''ch_test_99'' then Inl ErrPaymentNotFound
       else if paymentsMap s paymentID = Some ''DISPUTED'' then Inl ErrPaymentAlreadyDisputed
       else Inr (new_dispute now disputeID paymentID reason))
    \<and> inj_on (\<lambda>i. map_option d_PaymentID (disputesMap s i)) (dom (disputesMap s))
    \<and> (\<forall>d \<in> ran (disputesMap s). paymentsMap s (d_PaymentID d) = Some ''DISPUTED'')"
proof -
  have inv: "dispute_inv s" using assms by (rule disputes.reach_inv)
  then have none: "paymentsMap s paymentID = None \<longleftrightarrow> paymentID \<noteq> ''ch_test_99''"
    by (simp add: dispute_inv_def only_seeded_None)
  have "snd (CreateDispute now s disputeID paymentID reason) =
      (if paymentID \<noteq> ''ch_test_99'' then Inl ErrPaymentNotFound
       else if paymentsMap s paymentID = Some ''DISPUTED'' then Inl ErrPaymentAlreadyDisputed
       else Inr (new_dispute now disputeID paymentID reason))"
    unfolding none[symmetric]
    by (cases "paymentsMap s paymentID") (simp_all add: CreateDispute_def check_status_def Let_def)
  moreover have "inj_on (\<lambda>i. map_option d_PaymentID (disputesMap s i)) (dom (disputesMap s))"
    using inv by (auto simp: inj_on_def dispute_inv_def)
  moreover have "\<forall>d \<in> ran (disputesMap s). paymentsMap s (d_PaymentID d) = Some ''DISPUTED''"
    using inv by (auto simp: ran_def dispute_inv_def)
  ultimately show ?thesis by blast
qed

theorem dispute_sequential_witness:
  "snd (CreateDispute time_zero (fst (CreateDispute time_zero NewDisputeService ''dp_1'' ''ch_test_99'' ''fraud''))
      ''dp_2'' ''ch_test_99'' ''fraud'') = Inl ErrPaymentAlreadyDisputed"
proof -
  let ?s = "fst (CreateDispute time_zero NewDisputeService ''dp_1'' ''ch_test_99'' ''fraud'')"
  have "reach (\<lambda>s. s = NewDisputeService) dispute_call ?s"
    by (rule reach_step[OF reach_init]) (auto intro: dispute_call.intros)
  from dispute_sequential[OF this, of time_zero "''dp_2''" "''ch_test_99''" "''fraud''"] show ?thesis
    by (simp add: CreateDispute_def check_status_def NewDisputeService_def Let_def)
qed

section \<open>Concurrent requests\<close>

text \<open>Where a goroutine is between its atomic accesses; the request is \<open>(id, payment, reason)\<close>.\<close>

datatype dispute_pc = AtLoad | AtLock | AtRecord | Returned "Dispute result"

type_synonym dispute_request = "string \<times> string \<times> string"
type_synonym dispute_system = "DisputeService \<times> (nat \<Rightarrow> dispute_pc)"

text \<open>The next access of goroutine \<open>t\<close>.\<close>

definition access :: "(nat \<Rightarrow> dispute_request) \<Rightarrow> gotime \<Rightarrow> nat \<Rightarrow> dispute_system \<Rightarrow> dispute_system" where
  "access reqs now t sys =
     (case (sys, reqs t) of ((s, pcs), (disputeID, paymentID, reason)) \<Rightarrow>
        (case pcs t of
           AtLoad \<Rightarrow> (case check_status (paymentsMap s paymentID) of
                        Some e \<Rightarrow> (s, pcs(t := Returned (Inl e))) | None \<Rightarrow> (s, pcs(t := AtLock)))
         | AtLock \<Rightarrow> (s\<lparr>paymentsMap := (paymentsMap s)(paymentID \<mapsto> ''DISPUTED'')\<rparr>, pcs(t := AtRecord))
         | AtRecord \<Rightarrow>
             (let dispute = new_dispute now disputeID paymentID reason
              in (s\<lparr>disputesMap := (disputesMap s)(disputeID \<mapsto> dispute)\<rparr>, pcs(t := Returned (Inr dispute))))
         | Returned r \<Rightarrow> (s, pcs)))"

inductive dispute_step :: "(nat \<Rightarrow> dispute_request) \<Rightarrow> dispute_system \<Rightarrow> dispute_system \<Rightarrow> bool"
  for reqs :: "nat \<Rightarrow> dispute_request" where
  "dispute_step reqs sys (access reqs now t sys)"

inductive_cases dispute_stepE: "dispute_step reqs sys sys'"

text \<open>One goroutine running alone performs exactly \<open>CreateDispute\<close>.\<close>

lemma access_alone:
  assumes "pcs t = AtLoad" and "reqs t = (disputeID, paymentID, reason)"
  shows "(access reqs now t ^^ 3) (s, pcs) =
    (case CreateDispute now s disputeID paymentID reason of (s', r) \<Rightarrow> (s', pcs(t := Returned r)))"
  using assms
  by (cases "check_status (paymentsMap s paymentID)")
    (simp_all add: access_def CreateDispute_def Let_def eval_nat_numeral)

text \<open>
  What survives every interleaving: a goroutine past the check works on the seeded payment,
  and a recorded dispute has locked its payment.
\<close>

definition concurrent_inv :: "(nat \<Rightarrow> dispute_request) \<Rightarrow> dispute_system \<Rightarrow> bool" where
  "concurrent_inv reqs sys \<longleftrightarrow> (case sys of (s, pcs) \<Rightarrow>
     only_seeded (paymentsMap s)
     \<and> (\<forall>t. pcs t = AtLock \<longrightarrow> paymentsMap s (fst (snd (reqs t))) \<noteq> None)
     \<and> (\<forall>t. pcs t = AtRecord \<longrightarrow> paymentsMap s (fst (snd (reqs t))) = Some ''DISPUTED'')
     \<and> (\<forall>i d. disputesMap s i = Some d \<longrightarrow> d_ID d = i \<and> paymentsMap s (d_PaymentID d) = Some ''DISPUTED''))"

lemma access_keeps_inv:
  assumes inv: "concurrent_inv reqs sys" shows "concurrent_inv reqs (access reqs now t sys)"
proof -
  obtain s pcs where sys: "sys = (s, pcs)" by fastforce
  obtain disputeID paymentID reason where q: "reqs t = (disputeID, paymentID, reason)" by (metis prod_cases3)
  have seeded: "only_seeded (paymentsMap s)" and lock: "pcs t = AtLock \<Longrightarrow> paymentsMap s paymentID \<noteq> None"
    and rec: "pcs t = AtRecord \<Longrightarrow> paymentsMap s paymentID = Some ''DISPUTED''"
    using inv q by (auto simp: concurrent_inv_def sys)
  show ?thesis
  proof (cases "pcs t")
    case AtLoad
    show ?thesis
    proof (cases "check_status (paymentsMap s paymentID)")
      case None
      with AtLoad q have "access reqs now t sys = (s, pcs(t := AtLock))" by (simp add: access_def sys)
      moreover have "paymentsMap s paymentID \<noteq> None" using None by (auto simp: check_status_None)
      ultimately show ?thesis using inv q by (auto simp: sys concurrent_inv_def)
    next
      case (Some e)
      with AtLoad q have "access reqs now t sys = (s, pcs(t := Returned (Inl e)))" by (simp add: access_def sys)
      then show ?thesis using inv by (auto simp: sys concurrent_inv_def)
    qed
  next
    case AtLock
    with lock obtain st where "paymentsMap s paymentID = Some st" by auto
    with AtLock inv q only_seeded_update[OF seeded this, of "''DISPUTED''"] show ?thesis
      by (auto simp: access_def sys concurrent_inv_def)
  next
    case AtRecord
    with inv q rec show ?thesis
      by (auto simp: access_def sys concurrent_inv_def new_dispute_def Let_def)
  next
    case (Returned res)
    with inv q show ?thesis by (simp add: access_def sys)
  qed
qed

interpretation concurrent_disputes: transition_system
  "\<lambda>sys. sys = (NewDisputeService, \<lambda>_. AtLoad)" "dispute_step reqs" "concurrent_inv reqs" for reqs
proof unfold_locales
  show "concurrent_inv reqs sys" if "sys = (NewDisputeService, \<lambda>_. AtLoad)" for sys
    using that only_seeded_init by (simp add: concurrent_inv_def) (simp add: NewDisputeService_def)
  show "concurrent_inv reqs sys'" if "concurrent_inv reqs sys" "dispute_step reqs sys sys'" for sys sys'
    using that(2,1) by (auto elim!: dispute_stepE intro: access_keeps_inv)
qed

text \<open>
  C35. Under every interleaving of concurrent requests: only the seeded payment is ever
  disputed, and every recorded dispute has its payment locked as \<^verbatim>\<open>DISPUTED\<close>, so that later
  requests are refused.
\<close>

theorem concurrent_disputes_lock:
  assumes "reach (\<lambda>sys. sys = (NewDisputeService, \<lambda>_. AtLoad)) (dispute_step reqs) (s, pcs)"
    and "disputesMap s disputeID = Some d"
  shows "d_ID d = disputeID \<and> d_PaymentID d = ''ch_test_99''
    \<and> CreateDispute now s newID (d_PaymentID d) reason = (s, Inl ErrPaymentAlreadyDisputed)"
proof -
  from concurrent_disputes.reach_inv[OF assms(1)] assms(2) have
    "only_seeded (paymentsMap s)" "d_ID d = disputeID" "paymentsMap s (d_PaymentID d) = Some ''DISPUTED''"
    by (auto simp: concurrent_inv_def)
  moreover from this have "d_PaymentID d = ''ch_test_99''"
    using only_seeded_None[of "paymentsMap s" "d_PaymentID d"] by simp
  ultimately show ?thesis by (simp add: CreateDispute_def check_status_def)
qed

theorem concurrent_disputes_lock_witness:
  "\<exists>s pcs. reach (\<lambda>sys. sys = (NewDisputeService, \<lambda>_. AtLoad)) (dispute_step (\<lambda>_. (''dp_1'', ''ch_test_99'', ''a''))) (s, pcs)
    \<and> disputesMap s ''dp_1'' \<noteq> None
    \<and> snd (CreateDispute time_zero s ''dp_3'' ''ch_test_99'' ''late'') = Inl ErrPaymentAlreadyDisputed"
proof -
  let ?init = "\<lambda>sys. sys = (NewDisputeService, \<lambda>_. AtLoad)" and ?reqs = "\<lambda>_. (''dp_1'', ''ch_test_99'', ''a'')"
  obtain s pcs where run: "(access ?reqs time_zero 0 ^^ 3) (NewDisputeService, \<lambda>_. AtLoad) = (s, pcs)" by fastforce
  have "reach ?init (dispute_step ?reqs) ((access ?reqs time_zero 0 ^^ n) (NewDisputeService, \<lambda>_. AtLoad))" for n
    by (induction n) (auto intro: reach_init reach_step dispute_step.intros)
  from this[of 3] have r: "reach ?init (dispute_step ?reqs) (s, pcs)" by (simp add: run)
  have d: "disputesMap s ''dp_1'' = Some (new_dispute time_zero ''dp_1'' ''ch_test_99'' ''a'')"
    using run by (auto simp: access_alone CreateDispute_def check_status_def NewDisputeService_def Let_def)
  from concurrent_disputes_lock[OF r d, of time_zero "''dp_3''" "''late''"]
  have "CreateDispute time_zero s ''dp_3'' ''ch_test_99'' ''late'' = (s, Inl ErrPaymentAlreadyDisputed)"
    by (simp add: new_dispute_def)
  with r d show ?thesis by (intro exI[of _ s] exI[of _ pcs]) simp
qed

subsection \<open>Two disputes for one payment\<close>

text \<open>A schedule: the goroutines in the order of their accesses, with the clock readings.\<close>

definition scheduled :: "(nat \<Rightarrow> dispute_request) \<Rightarrow> (gotime \<times> nat) list \<Rightarrow> dispute_system \<Rightarrow> dispute_system" where
  "scheduled reqs sched sys = fold (\<lambda>(now, t). access reqs now t) sched sys"

definition turns :: "nat \<Rightarrow> (gotime \<times> nat) list \<Rightarrow> nat" where
  "turns t sched = count_list (map snd sched) t"

text \<open>Goroutine \<open>t\<close> has returned the open dispute that is recorded under its identifier.\<close>

definition succeeded :: "(nat \<Rightarrow> dispute_request) \<Rightarrow> nat \<Rightarrow> dispute_system \<Rightarrow> bool" where
  "succeeded reqs t sys \<longleftrightarrow> (case reqs t of (disputeID, paymentID, reason) \<Rightarrow>
     \<exists>now. snd sys t = Returned (Inr (new_dispute now disputeID paymentID reason))
       \<and> disputesMap (fst sys) disputeID = Some (new_dispute now disputeID paymentID reason))"

text \<open>How many more accesses a goroutine that has passed the check needs.\<close>

definition due :: "(nat \<Rightarrow> dispute_request) \<Rightarrow> nat \<Rightarrow> dispute_system \<Rightarrow> nat \<Rightarrow> bool" where
  "due reqs t sys n \<longleftrightarrow> snd sys t = AtLock \<and> 2 \<le> n \<or> snd sys t = AtRecord \<and> 1 \<le> n \<or> succeeded reqs t sys"

lemma access_other:
  assumes "inj (\<lambda>t. fst (reqs t))" and "u \<noteq> t" and "due reqs t sys n"
  shows "due reqs t (access reqs now u sys) n"
proof -
  have "fst (reqs t) \<noteq> fst (reqs u)" using assms(1,2) by (auto simp: inj_def)
  with assms(2,3) show ?thesis
    by (auto simp: due_def succeeded_def access_def Let_def split: prod.splits dispute_pc.splits option.splits)
qed

lemma access_own: "due reqs t sys (Suc n) \<Longrightarrow> due reqs t (access reqs now t sys) n"
  by (auto simp: due_def succeeded_def access_def Let_def split: prod.splits)

lemma due_runs:
  assumes "inj (\<lambda>t. fst (reqs t))"
  shows "due reqs t sys (turns t sched) \<Longrightarrow> succeeded reqs t (scheduled reqs sched sys)"
proof (induction sched arbitrary: sys)
  case Nil
  then show ?case by (simp add: due_def turns_def scheduled_def)
next
  case (Cons x sched)
  obtain now u where x: "x = (now, u)" by fastforce
  have "due reqs t (access reqs now u sys) (turns t sched)"
    using Cons.prems access_other[OF assms] access_own by (cases "u = t") (auto simp: x turns_def)
  from Cons.IH[OF this] show ?case by (simp add: x scheduled_def)
qed

text \<open>
  C37. The check and the store are separate accesses, so the lock does not exclude: whenever two
  requests for one undisputed payment make their checks one after the other, both succeed,
  under every schedule that lets them go on, whatever other goroutines do in between, and two
  open disputes are recorded for that payment.
\<close>

theorem dispute_race:
  assumes inj: "inj (\<lambda>t. fst (reqs t))" and two: "t1 \<noteq> t2" "reqs t1 = (id1, paymentID, reason1)" "reqs t2 = (id2, paymentID, reason2)"
    and ready: "pcs t1 = AtLoad" "pcs t2 = AtLoad" "check_status (paymentsMap s paymentID) = None"
    and turns: "2 \<le> turns t1 sched" "2 \<le> turns t2 sched"
    and run: "scheduled reqs ((now1, t1) # (now2, t2) # sched) (s, pcs) = (s', pcs')"
  shows "\<exists>d1 d2. pcs' t1 = Returned (Inr d1) \<and> pcs' t2 = Returned (Inr d2)
    \<and> disputesMap s' id1 = Some d1 \<and> disputesMap s' id2 = Some d2 \<and> id1 \<noteq> id2
    \<and> d_PaymentID d1 = paymentID \<and> d_PaymentID d2 = paymentID \<and> d_Status d1 = ''OPEN'' \<and> d_Status d2 = ''OPEN''"
proof -
  let ?sys = "(s, pcs(t1 := AtLock, t2 := AtLock))"
  have checked: "access reqs now2 t2 (access reqs now1 t1 (s, pcs)) = ?sys"
    using two ready by (simp add: access_def)
  have "id1 \<noteq> id2" using inj two by (auto simp: inj_def)
  moreover have "succeeded reqs t1 (s', pcs')" "succeeded reqs t2 (s', pcs')"
    using due_runs[OF inj, of t1 ?sys sched] due_runs[OF inj, of t2 ?sys sched] turns two(1) run checked
    by (simp_all add: due_def scheduled_def)
  ultimately show ?thesis using two(2,3) by (auto simp: succeeded_def new_dispute_def)
qed

text \<open>Two requests on the seeded service, and a third that comes too late.\<close>

definition race_requests :: "nat \<Rightarrow> dispute_request" where
  "race_requests t = (replicate t CHR ''x'', ''ch_test_99'', ''reason'')"

theorem dispute_race_witness:
  "case scheduled race_requests (map (Pair time_zero) [0, 1, 0, 2, 0, 1, 1]) (NewDisputeService, \<lambda>_. AtLoad) of (s, pcs) \<Rightarrow>
     (\<exists>d1 d2. disputesMap s '''' = Some d1 \<and> disputesMap s ''x'' = Some d2
       \<and> d_PaymentID d1 = ''ch_test_99'' \<and> d_PaymentID d2 = ''ch_test_99'')"
proof -
  obtain s pcs where run: "scheduled race_requests ((time_zero, 0) # (time_zero, 1) # map (Pair time_zero) [0, 2, 0, 1, 1])
      (NewDisputeService, \<lambda>_. AtLoad) = (s, pcs)" by fastforce
  have "inj (\<lambda>t. fst (race_requests t))" by (auto simp: inj_def race_requests_def)
  from dispute_race[OF this _ _ _ _ _ _ _ _ run, of "''''" "''ch_test_99''" "''reason''" "''x''" "''reason''"]
  have "\<exists>d1 d2. disputesMap s '''' = Some d1 \<and> disputesMap s ''x'' = Some d2
       \<and> d_PaymentID d1 = ''ch_test_99'' \<and> d_PaymentID d2 = ''ch_test_99''"
    by (auto simp: race_requests_def turns_def check_status_def NewDisputeService_def)
  with run show ?thesis by simp
qed

end
