(* ===== verification/Redis.thy ===== *)
theory Redis
  imports GoTime
begin

text \<open>
  The Redis server as its clients see it. The server is an argument: a record of its commands
  over an arbitrary store, each executed at a server time in nanoseconds. What the clients
  rely on is the locale \<open>redis_server\<close>, whose laws are the documented effect of the commands
  on the live string and sorted-set values; a keyspace with expiry times satisfies them. A
  client call can also fail on the way to the server or lose the reply.
\<close>

record 'r redis =
  r_get :: "int \<Rightarrow> string \<Rightarrow> 'r \<Rightarrow> string option"
  r_set :: "int \<Rightarrow> string \<Rightarrow> string \<Rightarrow> duration \<Rightarrow> 'r \<Rightarrow> 'r"
  r_setnx :: "int \<Rightarrow> string \<Rightarrow> string \<Rightarrow> duration \<Rightarrow> 'r \<Rightarrow> bool \<times> 'r"
  r_del :: "int \<Rightarrow> string \<Rightarrow> 'r \<Rightarrow> 'r"
  r_zremrangebyscore :: "int \<Rightarrow> string \<Rightarrow> int \<Rightarrow> int \<Rightarrow> 'r \<Rightarrow> 'r"
  r_zcard :: "int \<Rightarrow> string \<Rightarrow> 'r \<Rightarrow> int"
  r_zadd :: "int \<Rightarrow> string \<Rightarrow> int \<Rightarrow> string \<Rightarrow> 'r \<Rightarrow> 'r"
  r_expire :: "int \<Rightarrow> string \<Rightarrow> int \<Rightarrow> 'r \<Rightarrow> 'r"

section \<open>Calls over the network\<close>

text \<open>A call is answered, is refused before it takes effect, or takes effect with the reply lost.\<close>

datatype net = NetOk | NetRefused goerr | NetLost goerr

definition redis_call :: "net \<Rightarrow> ('r \<Rightarrow> 'a \<times> 'r) \<Rightarrow> 'r \<Rightarrow> 'r \<times> 'a result" where
  "redis_call net f r = (case net of
     NetOk \<Rightarrow> (snd (f r), Inr (fst (f r)))
   | NetRefused e \<Rightarrow> (r, Inl e)
   | NetLost e \<Rightarrow> (snd (f r), Inl e))"

lemma redis_call_NetOk [simp]: "redis_call NetOk f r = (snd (f r), Inr (fst (f r)))"
  by (simp add: redis_call_def)

lemma redis_call_cases:
  "fst (redis_call net f r) = r \<or> fst (redis_call net f r) = snd (f r)"
  "redis_call net f r = (r', Inr x) \<Longrightarrow> f r = (x, r')"
  by (auto simp: redis_call_def split: net.splits)

section \<open>The laws of the server\<close>

text \<open>
  \<open>sview t r k\<close> is the string value of key \<open>k\<close> at time \<open>t\<close> if nothing else happens,
  \<open>zview t r k\<close> the scores of the members of the sorted set.
\<close>

locale redis_server =
  fixes srv :: "'r redis"
    and sview :: "int \<Rightarrow> 'r \<Rightarrow> string \<Rightarrow> string option"
    and zview :: "int \<Rightarrow> 'r \<Rightarrow> string \<Rightarrow> string \<Rightarrow> int option"
  assumes get: "r_get srv t k r = sview t r k"
    and set: "t \<le> t' \<Longrightarrow> 0 < ttl \<Longrightarrow> sview t' (r_set srv t k v ttl r) k' =
      (if k' = k then (if t' < t + ttl then Some v else None) else sview t' r k')"
    and setnx_held: "sview t r k \<noteq> None \<Longrightarrow> r_setnx srv t k v ttl r = (False, r)"
    and setnx_free: "sview t r k = None \<Longrightarrow> zview t r k = Map.empty \<Longrightarrow>
      r_setnx srv t k v ttl r = (True, r_set srv t k v ttl r)"
    and setnx_cases: "r_setnx srv t k v ttl r \<in> {(False, r), (True, r_set srv t k v ttl r)}"
    and del: "t \<le> t' \<Longrightarrow> sview t' (r_del srv t k r) k' = (if k' = k then None else sview t' r k')"
    and zrem: "t \<le> t' \<Longrightarrow> zview t' (r_zremrangebyscore srv t k lo hi r) k' =
      (if k' = k then zview t' r k |` {m. \<forall>s. zview t' r k m = Some s \<longrightarrow> \<not> (lo \<le> s \<and> s \<le> hi)}
       else zview t' r k')"
    and zcard: "r_zcard srv t k r = int (card (dom (zview t r k)))"
    and zadd: "sview t r k = None \<Longrightarrow> zview t (r_zadd srv t k s m r) k = (zview t r k)(m \<mapsto> s)"
    and expire: "t \<le> t' \<Longrightarrow> 0 < secs \<Longrightarrow> zview t' (r_expire srv t k secs r) k =
      (if t' < t + secs * Second then zview t r k else Map.empty)"
    and zadd_other: "t \<le> t' \<Longrightarrow> k' \<noteq> k \<Longrightarrow> zview t' (r_zadd srv t k s m r) k' = zview t' r k'"
    and expire_other: "t \<le> t' \<Longrightarrow> k' \<noteq> k \<Longrightarrow> zview t' (r_expire srv t k secs r) k' = zview t' r k'"
    and sview_z: "t \<le> t' \<Longrightarrow> k' \<noteq> k \<or> sview t r k = None \<Longrightarrow>
      sview t' (r_zremrangebyscore srv t k lo hi r) k' = sview t' r k'
      \<and> sview t' (r_zadd srv t k s m r) k' = sview t' r k'
      \<and> sview t' (r_expire srv t k secs r) k' = sview t' r k'"
    and s_expiry: "t \<le> t' \<Longrightarrow> sview t r k = None \<Longrightarrow> sview t' r k = None"
    and z_expiry: "t \<le> t' \<Longrightarrow> zview t' r k = zview t r k \<or> zview t' r k = Map.empty"

section \<open>Other commands\<close>

text \<open>
  What anyone may do to the server up to time \<open>t'\<close> without touching key \<open>k\<close>: any sequence of commands on
  other keys. The value of the key is stable under it.
\<close>

inductive traffic :: "'r redis \<Rightarrow> int \<Rightarrow> string \<Rightarrow> 'r \<Rightarrow> 'r \<Rightarrow> bool"
  for srv :: "'r redis" and t' :: int and k :: string and r :: 'r where
  quiet: "traffic srv t' k r r"
| by_set: "traffic srv t' k r r1 \<Longrightarrow> t \<le> t' \<Longrightarrow> k' \<noteq> k \<Longrightarrow> 0 < ttl \<Longrightarrow> traffic srv t' k r (r_set srv t k' v ttl r1)"
| by_setnx: "traffic srv t' k r r1 \<Longrightarrow> t \<le> t' \<Longrightarrow> k' \<noteq> k \<Longrightarrow> 0 < ttl \<Longrightarrow> traffic srv t' k r (snd (r_setnx srv t k' v ttl r1))"
| by_del: "traffic srv t' k r r1 \<Longrightarrow> t \<le> t' \<Longrightarrow> k' \<noteq> k \<Longrightarrow> traffic srv t' k r (r_del srv t k' r1)"
| by_zrem: "traffic srv t' k r r1 \<Longrightarrow> t \<le> t' \<Longrightarrow> k' \<noteq> k \<Longrightarrow> traffic srv t' k r (r_zremrangebyscore srv t k' lo hi r1)"
| by_zadd: "traffic srv t' k r r1 \<Longrightarrow> t \<le> t' \<Longrightarrow> k' \<noteq> k \<Longrightarrow> traffic srv t' k r (r_zadd srv t k' s m r1)"
| by_expire: "traffic srv t' k r r1 \<Longrightarrow> t \<le> t' \<Longrightarrow> k' \<noteq> k \<Longrightarrow> traffic srv t' k r (r_expire srv t k' secs r1)"

lemma traffic_call:
  assumes "traffic srv t' k r r1" and "traffic srv t' k r (snd (f r1))"
  shows "traffic srv t' k r (fst (redis_call net f r1))"
  using assms redis_call_cases(1)[of net f r1] by metis

context redis_server
begin

lemma traffic_view: "traffic srv t' k r r' \<Longrightarrow> sview t' r' k = sview t' r k"
proof (induction rule: traffic.induct)
  case (by_set r1 t k' ttl v)
  then show ?case by (simp add: set)
next
  case (by_setnx r1 t k' ttl v)
  then show ?case using setnx_cases[of t k' v ttl r1] by (auto simp: set)
next
  case (by_del r1 t k')
  then show ?case by (simp add: del)
next
  case (by_zrem r1 t k' lo hi)
  then show ?case using sview_z[of t t' k k' r1 lo hi] by simp
next
  case (by_zadd r1 t k' s m)
  then show ?case using sview_z[of t t' k k' r1 _ _ s m] by simp
next
  case (by_expire r1 t k' secs)
  then show ?case using sview_z[of t t' k k' r1 _ _ _ _ secs] by simp
qed simp

end

section \<open>A keyspace with expiry times\<close>

datatype rvalue = RString string | RZset "(string \<times> int) list"

type_synonym keyspace = "string \<Rightarrow> (rvalue \<times> int option) option"

definition ks_live :: "int \<Rightarrow> keyspace \<Rightarrow> string \<Rightarrow> (rvalue \<times> int option) option" where
  "ks_live t ks k = (case ks k of
     Some (v, Some e) \<Rightarrow> if t < e then Some (v, Some e) else None
   | x \<Rightarrow> x)"

definition ks_string :: "int \<Rightarrow> keyspace \<Rightarrow> string \<Rightarrow> string option" where
  "ks_string t ks k = (case ks_live t ks k of Some (RString s, _) \<Rightarrow> Some s | _ \<Rightarrow> None)"

definition ks_members :: "int \<Rightarrow> keyspace \<Rightarrow> string \<Rightarrow> (string \<times> int) list" where
  "ks_members t ks k = (case ks_live t ks k of Some (RZset ms, _) \<Rightarrow> ms | _ \<Rightarrow> [])"

definition ks_scores :: "int \<Rightarrow> keyspace \<Rightarrow> string \<Rightarrow> string \<Rightarrow> int option" where
  "ks_scores t ks k = map_of (ks_members t ks k)"

text \<open>Commands on a sorted set leave a key that holds a string alone (the reply is an error).\<close>

definition ks_zupdate :: "int \<Rightarrow> string \<Rightarrow> ((string \<times> int) list \<Rightarrow> (string \<times> int) list) \<Rightarrow> keyspace \<Rightarrow> keyspace" where
  "ks_zupdate t k f ks = (case ks_live t ks k of
     None \<Rightarrow> ks(k := Some (RZset (f []), None))
   | Some (RZset ms, e) \<Rightarrow> ks(k := Some (RZset (f ms), e))
   | Some (RString s, e) \<Rightarrow> ks)"

definition keyspace_server :: "keyspace redis" where
  "keyspace_server =
     \<lparr>r_get = (\<lambda>t k ks. ks_string t ks k),
      r_set = (\<lambda>t k v ttl ks. ks(k := Some (RString v, Some (t + ttl)))),
      r_setnx = (\<lambda>t k v ttl ks. if ks_string t ks k = None \<and> ks_members t ks k = []
         then (True, ks(k := Some (RString v, Some (t + ttl)))) else (False, ks)),
      r_del = (\<lambda>t k ks. ks(k := None)),
      r_zremrangebyscore = (\<lambda>t k lo hi ks.
         ks_zupdate t k (\<lambda>ms. filter (\<lambda>x. case map_of ms (fst x) of
            None \<Rightarrow> True | Some s \<Rightarrow> \<not> (lo \<le> s \<and> s \<le> hi)) ms) ks),
      r_zcard = (\<lambda>t k ks. int (length (remdups (map fst (ks_members t ks k))))),
      r_zadd = (\<lambda>t k s m ks. ks_zupdate t k (\<lambda>ms. (m, s) # filter (\<lambda>x. fst x \<noteq> m) ms) ks),
      r_expire = (\<lambda>t k secs ks. case ks_live t ks k of
         Some (RZset ms, e) \<Rightarrow> ks(k := Some (RZset ms, Some (t + secs * Second))) | _ \<Rightarrow> ks)\<rparr>"

lemmas keyspace_defs = keyspace_server_def ks_string_def ks_members_def ks_scores_def ks_zupdate_def ks_live_def

lemma ks_live_mono: "t \<le> t' \<Longrightarrow> ks_live t' ks k = ks_live t ks k \<or> ks_live t' ks k = None"
  by (auto simp: ks_live_def split: option.splits prod.splits)

lemma map_of_filter_fst:
  "map_of (filter (\<lambda>x. P (fst x)) ms) = map_of ms |` {m. P m}"
  by (induction ms) (auto simp: restrict_map_def fun_eq_iff)

lemma keyspace_other [simp]:
  assumes "k' \<noteq> k"
  shows "ks_string t (ks(k := v)) k' = ks_string t ks k'" and "ks_members t (ks(k := v)) k' = ks_members t ks k'"
    and "ks_string t (ks_zupdate u k f ks) k' = ks_string t ks k'"
    and "ks_members t (ks_zupdate u k f ks) k' = ks_members t ks k'"
  using assms
  by (auto simp: ks_string_def ks_members_def ks_live_def ks_zupdate_def split: option.splits rvalue.splits)

lemma keyspace_zupdate:
  assumes "t \<le> t'" and "f [] = []" shows "ks_members t' (ks_zupdate t k f ks) k = f (ks_members t' ks k)"
proof (cases "ks k")
  case (Some x)
  obtain v e where x: "x = (v, e)" by fastforce
  show ?thesis
    using assms Some x by (cases v; cases e) (auto simp: ks_members_def ks_live_def ks_zupdate_def)
qed (use assms in \<open>simp add: ks_members_def ks_live_def ks_zupdate_def\<close>)

lemma keyspace_zrem:
  assumes "t \<le> t'"
  shows "ks_scores t' (r_zremrangebyscore keyspace_server t k lo hi ks) k' =
    (if k' = k then ks_scores t' ks k |` {m. \<forall>s. ks_scores t' ks k m = Some s \<longrightarrow> \<not> (lo \<le> s \<and> s \<le> hi)}
     else ks_scores t' ks k')"
proof (cases "k' = k")
  case True
  let ?P = "\<lambda>ms m. case map_of ms m of None \<Rightarrow> True | Some s \<Rightarrow> \<not> (lo \<le> s \<and> s \<le> hi)"
  from map_of_filter_fst[of "?P (ks_members t' ks k)" "ks_members t' ks k"] assms True show ?thesis
    by (simp add: keyspace_server_def ks_scores_def keyspace_zupdate)
      (auto simp: restrict_map_def fun_eq_iff split: option.splits)
qed (simp add: keyspace_server_def ks_scores_def)

lemma keyspace_zupdate_string:
  "ks_string t' (ks_zupdate t k f ks) k = ks_string t' ks k" if "ks_string t ks k \<noteq> None \<or> t \<le> t'"
proof (cases "ks k")
  case (Some x)
  obtain v e where x: "x = (v, e)" by fastforce
  show ?thesis
    using that Some x by (cases v; cases e) (auto simp: ks_string_def ks_live_def ks_zupdate_def)
qed (simp add: ks_string_def ks_live_def ks_zupdate_def)

lemma keyspace_zadd:
  assumes "ks_string t ks k = None"
  shows "ks_members t (ks_zupdate t k f ks) k = f (ks_members t ks k)"
proof (cases "ks k")
  case (Some x)
  obtain v e where x: "x = (v, e)" by fastforce
  show ?thesis
    using assms Some x by (cases v; cases e) (auto simp: ks_members_def ks_string_def ks_live_def ks_zupdate_def)
qed (simp add: ks_members_def ks_live_def ks_zupdate_def)

lemma keyspace_expire:
  assumes "t \<le> t'"
  shows "0 < secs \<Longrightarrow> ks_members t' (r_expire keyspace_server t k secs ks) k =
      (if t' < t + secs * Second then ks_members t ks k else [])"
    and "k' \<noteq> k \<Longrightarrow> ks_members t' (r_expire keyspace_server t k secs ks) k' = ks_members t' ks k'"
    and "ks_string t' (r_expire keyspace_server t k secs ks) k' = ks_string t' ks k'"
proof -
  have live: "ks_live t ks k = None \<Longrightarrow> ks_live t' ks k = None" using ks_live_mono[OF assms, of ks k] by auto
  show "ks_members t' (r_expire keyspace_server t k secs ks) k =
      (if t' < t + secs * Second then ks_members t ks k else [])" if "0 < secs"
  proof (cases "ks_live t ks k")
    case None
    with live show ?thesis by (simp add: keyspace_server_def ks_members_def)
  next
    case (Some x)
    obtain v e where x: "x = (v, e)" by fastforce
    have "ks_live t' ks k = Some x \<or> ks_live t' ks k = None" using ks_live_mono[OF assms, of ks k] Some by auto
    with Some x show ?thesis
      by (cases v) (auto simp: keyspace_server_def ks_members_def, auto simp: ks_live_def)
  qed
  show "ks_members t' (r_expire keyspace_server t k secs ks) k' = ks_members t' ks k'" if "k' \<noteq> k"
    using that by (cases "ks_live t ks k") (auto simp: keyspace_server_def split: rvalue.splits)
  show "ks_string t' (r_expire keyspace_server t k secs ks) k' = ks_string t' ks k'"
  proof (cases "k' = k")
    case True
    show ?thesis
    proof (cases "ks_live t ks k")
      case (Some x)
      obtain v e where x: "x = (v, e)" by fastforce
      have "ks_live t' ks k = Some x \<or> ks_live t' ks k = None" using ks_live_mono[OF assms, of ks k] Some by auto
      with Some x True show ?thesis
        by (cases v) (auto simp: keyspace_server_def ks_string_def, auto simp: ks_live_def)
    qed (simp add: keyspace_server_def)
  next
    case False
    then show ?thesis by (cases "ks_live t ks k") (auto simp: keyspace_server_def split: rvalue.splits)
  qed
qed

lemma keyspace_string_set:
  "ks_string t' (ks(k := Some (RString v, Some e))) k = (if t' < e then Some v else None)"
  by (simp add: ks_string_def ks_live_def)

lemma keyspace_expiry:
  assumes "t \<le> t'"
  shows "ks_string t ks k = None \<Longrightarrow> ks_string t' ks k = None"
    and "ks_members t' ks k = ks_members t ks k \<or> ks_members t' ks k = []"
  using ks_live_mono[OF assms, of ks k] by (auto simp: ks_string_def ks_members_def)

interpretation keyspace: redis_server keyspace_server ks_string ks_scores
proof (unfold_locales, goal_cases)
  case (1 t k r)
  show ?case by (simp add: keyspace_server_def)
next
  case (2 t t' ttl k v r k')
  then show ?case by (cases "k' = k") (simp_all add: keyspace_server_def keyspace_string_set)
next
  case (3 t r k v ttl)
  then show ?case by (simp add: keyspace_server_def)
next
  case (4 t r k v ttl)
  then have "ks_members t r k = []" by (simp add: ks_scores_def)
  with 4(1) show ?case by (simp add: keyspace_server_def)
next
  case (5 t k v ttl r)
  show ?case by (simp add: keyspace_server_def)
next
  case (6 t t' k r k')
  show ?case by (cases "k' = k") (simp_all add: keyspace_server_def, simp add: ks_string_def ks_live_def)
next
  case 7
  then show ?case by (rule keyspace_zrem)
next
  case (8 t k r)
  then show ?case by (simp add: keyspace_server_def ks_scores_def dom_map_of_conv_image_fst length_remdups_card_conv)
next
  case (9 t r k s m)
  then show ?case
    by (simp add: keyspace_server_def ks_scores_def keyspace_zadd fun_eq_iff
        map_of_filter_fst[where P = "\<lambda>x. x \<noteq> m"] restrict_map_def)
next
  case (10 t t' secs k r)
  then show ?case by (simp add: ks_scores_def keyspace_expire)
next
  case (11 t t' k' k s m r)
  then show ?case by (simp add: keyspace_server_def ks_scores_def)
next
  case (12 t t' k' k secs r)
  then show ?case by (simp add: ks_scores_def keyspace_expire)
next
  case (13 t t' k' k r lo hi s m secs)
  then show ?case
    by (cases "k' = k") (simp_all add: keyspace_expire, simp_all add: keyspace_server_def keyspace_zupdate_string)
next
  case 14
  then show ?case by (rule keyspace_expiry)
next
  case (15 t t' r k)
  then show ?case using keyspace_expiry(2)[of t t' r k] by (auto simp: ks_scores_def)
qed

end
