(* ===== verification/RedisLock.thy ===== *)
theory RedisLock
  imports Redis Json
begin

text \<open>
  The distributed lock of \<^verbatim>\<open>internal/database/redis_lock.go\<close>: a key with an expiry, set only if
  absent, whose value is the time of the attempt; released by a script that compares the
  value. \<open>t\<close> is the server time of a call, \<open>now\<close> the client's clock reading.
\<close>

definition ErrLockHeld :: goerr where
  "ErrLockHeld = ErrNew ''concurrent transaction execution blocked: lock is already held''"

definition lock_key :: "string \<Rightarrow> string" where
  "lock_key key = ''lock:payment:'' @ key"

lemma lock_key_inject [simp]: "lock_key a = lock_key b \<longleftrightarrow> a = b"
  by (simp add: lock_key_def)

definition AcquireLock ::
    "'r redis \<Rightarrow> net \<Rightarrow> int \<Rightarrow> gotime \<Rightarrow> string \<Rightarrow> duration \<Rightarrow> 'r \<Rightarrow> 'r \<times> string result" where
  "AcquireLock srv net t now key expiration r =
     (let token = format_RFC3339Nano now in
      case redis_call net (r_setnx srv t (lock_key key) token expiration) r of
        (r', Inl e) \<Rightarrow> (r', Inl e)
      | (r', Inr succeeded) \<Rightarrow> if \<not> succeeded then (r', Inl ErrLockHeld) else (r', Inr token))"

text \<open>The script runs on the server as one step.\<close>

definition release_script :: "'r redis \<Rightarrow> int \<Rightarrow> string \<Rightarrow> string \<Rightarrow> 'r \<Rightarrow> int \<times> 'r" where
  "release_script srv t k token r =
     (if r_get srv t k r = Some token then (1, r_del srv t k r) else (0, r))"

definition ReleaseLock :: "'r redis \<Rightarrow> net \<Rightarrow> int \<Rightarrow> string \<Rightarrow> string \<Rightarrow> 'r \<Rightarrow> 'r \<times> goerr option" where
  "ReleaseLock srv net t key token r =
     (case redis_call net (release_script srv t (lock_key key) token) r of
        (r', Inl e) \<Rightarrow> (r', Some e) | (r', Inr _) \<Rightarrow> (r', None))"

lemmas lock_defs [redis_defs] = AcquireLock_def ReleaseLock_def release_script_def

text \<open>Both are commands on the key of the lock.\<close>

lemma lock_traffic:
  assumes "traffic srv t' k r r1" and "t \<le> t'" and "lock_key key \<noteq> k"
  shows "0 < ttl \<Longrightarrow> traffic srv t' k r (fst (AcquireLock srv net t now key ttl r1))"
    and "traffic srv t' k r (fst (ReleaseLock srv net t key token r1))"
proof -
  have "fst (AcquireLock srv net t now key ttl r1) = fst (redis_call net (r_setnx srv t (lock_key key) (format_RFC3339Nano now) ttl) r1)"
    by (auto simp: AcquireLock_def Let_def split: prod.splits sum.splits)
  with assms show "traffic srv t' k r (fst (AcquireLock srv net t now key ttl r1))" if "0 < ttl"
    using that by (auto intro: traffic_call by_setnx)
  have "fst (ReleaseLock srv net t key token r1) = fst (redis_call net (release_script srv t (lock_key key) token) r1)"
    by (auto simp: ReleaseLock_def split: prod.splits sum.splits)
  with assms show "traffic srv t' k r (fst (ReleaseLock srv net t key token r1))"
    by (auto simp: release_script_def intro!: traffic_call intro: by_del)
qed

section \<open>Executions\<close>

text \<open>What clients do to the server: attempts and releases, on any key, answered or not.\<close>

datatype lock_event = Attempt net int gotime string duration | Release net int string string

fun event_time :: "lock_event \<Rightarrow> int" where
  "event_time (Attempt net t now key ttl) = t"
| "event_time (Release net t key token) = t"

fun lock_event_step :: "'r redis \<Rightarrow> lock_event \<Rightarrow> 'r \<Rightarrow> 'r" where
  "lock_event_step srv (Attempt net t now key ttl) r = fst (AcquireLock srv net t now key ttl r)"
| "lock_event_step srv (Release net t key token) r = fst (ReleaseLock srv net t key token r)"

text \<open>Attempts ask for a positive expiry; nobody but its owner releases the lock with its token.\<close>

fun foreign_event :: "string \<Rightarrow> string \<Rightarrow> lock_event \<Rightarrow> bool" where
  "foreign_event key token (Attempt net t now key' ttl) = (0 < ttl)"
| "foreign_event key token (Release net t key' token') = (\<not> (key' = key \<and> token' = token))"

context redis_server
begin

definition held :: "int \<Rightarrow> int \<Rightarrow> string \<Rightarrow> string \<Rightarrow> 'r \<Rightarrow> bool" where
  "held s e key token r \<longleftrightarrow> (\<forall>t. s \<le> t \<longrightarrow> t < e \<longrightarrow> sview t r (lock_key key) = Some token)"

lemma held_later: "held s e key token r \<Longrightarrow> s \<le> s' \<Longrightarrow> held s' e key token r"
  by (simp add: held_def)

lemma acquired_view:
  assumes "AcquireLock srv net t now key ttl r = (r', Inr token)" and "0 < ttl"
  shows "token = format_RFC3339Nano now"
    and "t \<le> t' \<Longrightarrow> sview t' r' (lock_key key) = (if t' < t + ttl then Some token else None)"
proof -
  let ?tok = "format_RFC3339Nano now"
  from assms(1) have tok: "token = ?tok" and "redis_call net (r_setnx srv t (lock_key key) ?tok ttl) r = (r', Inr True)"
    by (auto simp: AcquireLock_def Let_def split: prod.splits sum.splits if_splits)
  then have "r_setnx srv t (lock_key key) ?tok ttl r = (True, r')" by (auto dest: redis_call_cases(2))
  with setnx_cases[of t "lock_key key" ?tok ttl r] have "r' = r_set srv t (lock_key key) ?tok ttl r" by auto
  with assms(2) tok show "token = ?tok"
    "t \<le> t' \<Longrightarrow> sview t' r' (lock_key key) = (if t' < t + ttl then Some token else None)"
    by (simp_all add: set)
qed

lemma acquired_held:
  assumes "AcquireLock srv net t now key ttl r = (r', Inr token)" and "0 < ttl"
  shows "held t (t + ttl) key token r' \<and> token = format_RFC3339Nano now"
  using acquired_view[OF assms] by (simp add: held_def)

lemma released_free:
  assumes acq: "AcquireLock srv net t now key ttl r = (r', Inr token)" "0 < ttl"
    and "t \<le> u" "u \<le> t'" and "net' = NetOk \<or> net' = NetLost e"
  shows "sview t' (fst (ReleaseLock srv net' u key token r')) (lock_key key) = None"
proof -
  have "sview t' (snd (release_script srv u (lock_key key) token r')) (lock_key key) = None"
    using acquired_view(2)[OF acq, of u] acquired_view(2)[OF acq, of t'] assms(3,4)
    by (auto simp: release_script_def get del split: if_splits)
  with assms(5) show ?thesis by (auto simp: ReleaseLock_def redis_call_def)
qed

lemma attempt_keeps_held:
  assumes h: "held s e key token r" and t: "s \<le> t" "t < e" and ttl: "0 < ttl"
  shows "held t e key token (fst (AcquireLock srv net t now key' ttl r))"
    and "key' = key \<Longrightarrow> snd (AcquireLock srv net t now key' ttl r) \<noteq> Inr x"
    and "key' = key \<Longrightarrow> net = NetOk \<Longrightarrow> AcquireLock srv net t now key' ttl r = (r, Inl ErrLockHeld)"
proof -
  let ?f = "r_setnx srv t (lock_key key') (format_RFC3339Nano now) ttl"
  have fst: "fst (AcquireLock srv net t now key' ttl r) = fst (redis_call net ?f r)"
    by (auto simp: AcquireLock_def Let_def split: prod.splits sum.splits)
  have same: "?f r = (False, r)" if "key' = key"
    using h t that by (intro setnx_held) (auto simp: held_def)
  show "snd (AcquireLock srv net t now key' ttl r) \<noteq> Inr x" if "key' = key"
    using same[OF that] by (auto simp: AcquireLock_def redis_call_def Let_def split: net.splits)
  show "AcquireLock srv net t now key' ttl r = (r, Inl ErrLockHeld)" if "key' = key" "net = NetOk"
    using same[OF that(1)] that(2) by (simp add: AcquireLock_def)
  have later: "held t e key token r" by (rule held_later[OF h t(1)])
  show "held t e key token (fst (AcquireLock srv net t now key' ttl r))"
  proof (cases "key' = key")
    case True
    then show ?thesis
      unfolding fst using redis_call_cases(1)[of net ?f r] same[OF True] later by auto
  next
    case False
    have "snd (?f r) = r \<or> snd (?f r) = r_set srv t (lock_key key') (format_RFC3339Nano now) ttl r"
      using setnx_cases[of t "lock_key key'" "format_RFC3339Nano now" ttl r] by auto
    moreover have "held t e key token (r_set srv t (lock_key key') (format_RFC3339Nano now) ttl r)"
      using later False ttl by (simp add: held_def set)
    ultimately show ?thesis
      using redis_call_cases(1)[of net ?f r] later by (auto simp: fst)
  qed
qed

lemma release_keeps_held:
  assumes h: "held s e key token r" and t: "s \<le> t" "t < e" and foreign: "\<not> (key' = key \<and> token' = token)"
  shows "held t e key token (fst (ReleaseLock srv net t key' token' r))"
proof -
  let ?f = "release_script srv t (lock_key key') token'"
  have fst: "fst (ReleaseLock srv net t key' token' r) = fst (redis_call net ?f r)"
    by (auto simp: ReleaseLock_def split: prod.splits sum.splits)
  have later: "held t e key token r" by (rule held_later[OF h t(1)])
  have "held t e key token (snd (?f r))"
  proof (cases "key' = key")
    case True
    with foreign later t show ?thesis by (simp add: release_script_def get held_def)
  next
    case False
    with later show ?thesis by (simp add: release_script_def held_def del)
  qed
  with redis_call_cases(1)[of net ?f r] later show ?thesis by (auto simp: fst)
qed

lemma events_keep_held:
  assumes "held s e key token r" and "list_all (foreign_event key token) evs"
    and "sorted (s # map event_time evs)" and "\<And>ev. ev \<in> set evs \<Longrightarrow> event_time ev < e"
  shows "held (last (s # map event_time evs)) e key token (fold (lock_event_step srv) evs r)"
  using assms
proof (induction evs arbitrary: s r)
  case (Cons ev evs)
  have "held (event_time ev) e key token (lock_event_step srv ev r)"
  proof (cases ev)
    case (Attempt net t now key' ttl)
    with Cons.prems(2,3) Cons.prems(4)[of ev] show ?thesis
      by (auto intro!: attempt_keeps_held(1)[OF Cons.prems(1)])
  next
    case (Release net t key' token')
    with Cons.prems(2,3) Cons.prems(4)[of ev] show ?thesis
      by (auto intro!: release_keeps_held[OF Cons.prems(1)])
  qed
  then show ?case
    using Cons.IH[of "event_time ev" "lock_event_step srv ev r"] Cons.prems by auto
qed simp

end

text \<open>
  C26. Mutual exclusion: once a client has acquired the lock, then up to its expiry and
  whatever attempts and releases by others reach the server, on any keys, every further
  attempt on that key fails, and a client that gets an answer is told that the lock is held.
\<close>

theorem lock_excludes_until_expiry:
  assumes srv: "redis_server srv sview zview"
    and acq: "AcquireLock srv net t now key ttl r = (r1, Inr token)" and ttl: "0 < ttl"
    and evs: "list_all (foreign_event key token) evs" "sorted (t # map event_time evs)"
      "\<And>ev. ev \<in> set evs \<Longrightarrow> event_time ev < t + ttl"
    and t': "last (t # map event_time evs) \<le> t'" "t' < t + ttl" and ttl': "0 < ttl'"
  shows "snd (AcquireLock srv net' t' now' key ttl' (fold (lock_event_step srv) evs r1)) \<noteq> Inr token'
    \<and> snd (AcquireLock srv NetOk t' now' key ttl' (fold (lock_event_step srv) evs r1)) = Inl ErrLockHeld"
proof -
  note S = redis_server.acquired_held[OF srv acq ttl]
  have held: "redis_server.held sview (last (t # map event_time evs)) (t + ttl) key token
      (fold (lock_event_step srv) evs r1)"
    using redis_server.events_keep_held[OF srv conjunct1[OF S] evs] .
  show ?thesis
    using redis_server.attempt_keeps_held(2)[OF srv held t' ttl' refl]
      redis_server.attempt_keeps_held(3)[OF srv held t' ttl' refl refl] by simp
qed

text \<open>
  A run on the keyspace: acquired at time 0 for 5 seconds; an attempt at 1 s, a release with
  another token at 2 s, and a release of another key.
\<close>

definition at_ns :: "int \<Rightarrow> gotime" where
  "at_ns n = \<lparr>wall = n, mono = Some n\<rparr>"

theorem lock_excludes_until_expiry_witness:
  "snd (AcquireLock keyspace_server NetOk (4 * Second) (at_ns 9) ''u1'' (5 * Second)
     (fold (lock_event_step keyspace_server)
        [Attempt NetOk Second (at_ns 7) ''u1'' (5 * Second), Release NetOk (2 * Second) ''u1'' ''x'',
         Release NetOk (2 * Second) ''u2'' ''1970-01-01T00:00:00Z'']
        (fst (AcquireLock keyspace_server NetOk 0 (at_ns 0) ''u1'' (5 * Second) (\<lambda>_. None)))))
   = Inl ErrLockHeld"
proof -
  let ?tok = "format_RFC3339Nano (at_ns 0)"
  have acq: "AcquireLock keyspace_server NetOk 0 (at_ns 0) ''u1'' (5 * Second) (\<lambda>_. None)
      = ((\<lambda>_. None)(lock_key ''u1'' := Some (RString ?tok, Some (5 * Second))), Inr ?tok)"
    by (simp add: AcquireLock_def keyspace_defs Let_def)
  have tok: "?tok \<noteq> ''x''" using length_format_RFC3339Nano[of "at_ns 0"] by (intro notI) simp
  let ?evs = "[Attempt NetOk Second (at_ns 7) ''u1'' (5 * Second), Release NetOk (2 * Second) ''u1'' ''x'',
      Release NetOk (2 * Second) ''u2'' ''1970-01-01T00:00:00Z'']"
  have evs: "list_all (foreign_event ''u1'' ?tok) ?evs" "sorted (0 # map event_time ?evs)"
    using tok by (simp_all add: duration_defs)
  have times: "event_time ev < 0 + 5 * Second" if "ev \<in> set ?evs" for ev
    using that by (auto simp: duration_defs)
  have "last (0 # map event_time ?evs) \<le> 4 * Second" "4 * Second < 0 + 5 * Second" "0 < 5 * Second"
    by (simp_all add: duration_defs)
  from lock_excludes_until_expiry[OF keyspace.redis_server_axioms acq this(3) evs times this(1,2) this(3)]
  show ?thesis unfolding acq fst_conv by blast
qed

text \<open>
  Releasing: the owner's token frees the lock, so that the next attempt on it succeeds;
  any other token, in particular that of a holder whose lock expired and was taken over,
  changes nothing.
\<close>

theorem release_only_own_lock:
  assumes srv: "redis_server srv sview zview" and t: "t \<le> t'" and ttl: "0 < ttl"
    and z: "zview t' (fst (ReleaseLock srv NetOk t key token r)) (lock_key key) = Map.empty"
  shows "if sview t r (lock_key key) = Some token
    then snd (AcquireLock srv NetOk t' now key ttl (fst (ReleaseLock srv NetOk t key token r)))
        = Inr (format_RFC3339Nano now)
    else fst (ReleaseLock srv NetOk t key token r) = r"
proof (cases "sview t r (lock_key key) = Some token")
  case True
  let ?r = "r_del srv t (lock_key key) r"
  have r: "fst (ReleaseLock srv NetOk t key token r) = ?r"
    using True by (simp add: ReleaseLock_def release_script_def redis_server.get[OF srv])
  have "sview t' ?r (lock_key key) = None" using t by (simp add: redis_server.del[OF srv])
  from redis_server.setnx_free[OF srv this, of "format_RFC3339Nano now" ttl] z True show ?thesis
    by (simp add: r AcquireLock_def Let_def)
next
  case False
  then show ?thesis by (simp add: ReleaseLock_def release_script_def redis_server.get[OF srv])
qed

theorem release_only_own_lock_witness:
  "let ks = (\<lambda>_. None)(lock_key ''u1'' := Some (RString ''tok'', Some (5 * Second)))
   in snd (AcquireLock keyspace_server NetOk Second time_zero ''u1'' Second
        (fst (ReleaseLock keyspace_server NetOk 1 ''u1'' ''tok'' ks))) = Inr (format_RFC3339Nano time_zero)
    \<and> fst (ReleaseLock keyspace_server NetOk 1 ''u1'' ''old'' ks) = ks"
proof -
  let ?ks = "(\<lambda>_. None)(lock_key ''u1'' := Some (RString ''tok'', Some (5 * Second)))"
  have s: "ks_string 1 ?ks (lock_key ''u1'') = Some ''tok''"
    by (simp add: ks_string_def ks_live_def duration_defs)
  have z: "ks_scores Second (fst (ReleaseLock keyspace_server NetOk 1 ''u1'' tok ?ks)) (lock_key ''u1'') = Map.empty" for tok
    by (auto simp: ReleaseLock_def release_script_def keyspace_defs duration_defs)
  have R: "if ks_string 1 ?ks (lock_key ''u1'') = Some token
    then snd (AcquireLock keyspace_server NetOk Second time_zero ''u1'' Second
        (fst (ReleaseLock keyspace_server NetOk 1 ''u1'' token ?ks))) = Inr (format_RFC3339Nano time_zero)
    else fst (ReleaseLock keyspace_server NetOk 1 ''u1'' token ?ks) = ?ks" for token
    using z by (intro release_only_own_lock[OF keyspace.redis_server_axioms]) (simp_all add: duration_defs)
  show ?thesis using R[of "''tok''"] R[of "''old''"] s by (simp add: Let_def)
qed

end
