(* ===== verification/JsonDecode.thy ===== *)
theory JsonDecode
  imports Json
begin

text \<open>
  The input side of \<^verbatim>\<open>encoding/json\<close>: \<^verbatim>\<open>json.NewDecoder(r.Body).Decode(&req)\<close> into a struct of string and
  \<^verbatim>\<open>int64\<close> fields, which is how every handler reads its request. The scanner is the pushdown
  automaton of the package, one byte at a time; it stops at the end of the first value, so
  whatever follows in the body is never looked at. Decoding a value into the struct matches keys
  exactly or by case folding, ignores unknown keys and nulls, lets the last of several equal keys
  win, and reports a value of the wrong type after it has gone through all of them.
\<close>

section \<open>Values as scanned\<close>

text \<open>Numbers and strings are kept as the bytes of their literals, without the quotes.\<close>

datatype jval = VNull | VBool bool | VNum string | VStr string | VArr "jval list" | VObj "(string \<times> jval) list"

text \<open>What an open array or object has so far; an object also has the key whose value is being read.\<close>

datatype frame = FArr "jval list" | FObj "(string \<times> jval) list" string

datatype string_mode = SPlain | SEsc | SHex nat
datatype string_use = AsValue | AsKey "(string \<times> jval) list"
datatype num_mode = NNeg | NInt | NZero | NDot | NFrac | NE | NESign | NExp

datatype scan =
    PValue "frame list"
  | PFirstElem "frame list"
  | PKey bool "(string \<times> jval) list" "frame list"
  | PString string_mode string string_use "frame list"
  | PColon "(string \<times> jval) list" string "frame list"
  | PNumber num_mode string "frame list"
  | PLiteral string jval "frame list"
  | PEnd jval "frame list"
  | PDone jval
  | PBad

section \<open>The scanner\<close>

definition is_space :: "char \<Rightarrow> bool" where
  "is_space c \<longleftrightarrow> c = CHR 0x20 \<or> c = CHR 0x09 \<or> c = CHR 0x0D \<or> c = CHR 0x0A"

definition is_digit :: "char \<Rightarrow> bool" where
  "is_digit c \<longleftrightarrow> 48 \<le> (of_char c :: nat) \<and> (of_char c :: nat) \<le> 57"

definition hex_value :: "char \<Rightarrow> nat option" where
  "hex_value c =
     (let n = (of_char c :: nat) in
      if 48 \<le> n \<and> n \<le> 57 then Some (n - 48)
      else if 97 \<le> n \<and> n \<le> 102 then Some (n - 87)
      else if 65 \<le> n \<and> n \<le> 70 then Some (n - 55) else None)"

definition maxNestingDepth :: nat where "maxNestingDepth = 10000"

definition close_value :: "jval \<Rightarrow> frame list \<Rightarrow> scan" where
  "close_value v fs = (if fs = [] then PDone v else PEnd v fs)"

definition begin_value :: "frame list \<Rightarrow> char \<Rightarrow> scan" where
  "begin_value fs c =
     (if is_space c then PValue fs
      else if c = CHR ''{'' then (if length fs < maxNestingDepth then PKey True [] fs else PBad)
      else if c = CHR ''['' then (if length fs < maxNestingDepth then PFirstElem (FArr [] # fs) else PBad)
      else if c = CHR 0x22 then PString SPlain [] AsValue fs
      else if c = CHR ''-'' then PNumber NNeg [c] fs
      else if c = CHR ''0'' then PNumber NZero [c] fs
      else if is_digit c then PNumber NInt [c] fs
      else if c = CHR ''t'' then PLiteral ''rue'' (VBool True) fs
      else if c = CHR ''f'' then PLiteral ''alse'' (VBool False) fs
      else if c = CHR ''n'' then PLiteral ''ull'' VNull fs
      else PBad)"

text \<open>The byte after a value. At the top level the value is complete whatever that byte is.\<close>

definition end_value :: "jval \<Rightarrow> frame list \<Rightarrow> char \<Rightarrow> scan" where
  "end_value v fs c =
     (case fs of
        [] \<Rightarrow> PDone v
      | f # fs' \<Rightarrow>
          if is_space c then PEnd v fs
          else (case f of
             FArr xs \<Rightarrow>
               if c = CHR '','' then PValue (FArr (xs @ [v]) # fs')
               else if c = CHR '']'' then close_value (VArr (xs @ [v])) fs' else PBad
           | FObj kvs k \<Rightarrow>
               if c = CHR '','' then PKey False (kvs @ [(k, v)]) fs'
               else if c = CHR ''}'' then close_value (VObj (kvs @ [(k, v)])) fs' else PBad))"

definition num_step :: "num_mode \<Rightarrow> char \<Rightarrow> num_mode option option" where
  "num_step m c =
     (let exponent = (c = CHR ''e'' \<or> c = CHR ''E'') in
      case m of
        NNeg \<Rightarrow> if c = CHR ''0'' then Some (Some NZero) else if is_digit c then Some (Some NInt) else None
      | NInt \<Rightarrow> if is_digit c then Some (Some NInt) else if c = CHR ''.'' then Some (Some NDot)
               else if exponent then Some (Some NE) else Some None
      | NZero \<Rightarrow> if c = CHR ''.'' then Some (Some NDot) else if exponent then Some (Some NE) else Some None
      | NDot \<Rightarrow> if is_digit c then Some (Some NFrac) else None
      | NFrac \<Rightarrow> if is_digit c then Some (Some NFrac) else if exponent then Some (Some NE) else Some None
      | NE \<Rightarrow> if c = CHR ''+'' \<or> c = CHR ''-'' then Some (Some NESign)
             else if is_digit c then Some (Some NExp) else None
      | NESign \<Rightarrow> if is_digit c then Some (Some NExp) else None
      | NExp \<Rightarrow> if is_digit c then Some (Some NExp) else Some None)"

fun scan_step :: "char \<Rightarrow> scan \<Rightarrow> scan" where
  "scan_step c (PValue fs) = begin_value fs c"
| "scan_step c (PFirstElem fs) =
     (if is_space c then PFirstElem fs
      else if c = CHR '']'' then (case fs of FArr xs # fs' \<Rightarrow> close_value (VArr xs) fs' | _ \<Rightarrow> PBad)
      else begin_value fs c)"
| "scan_step c (PKey first kvs fs) =
     (if is_space c then PKey first kvs fs
      else if c = CHR 0x22 then PString SPlain [] (AsKey kvs) fs
      else if c = CHR ''}'' \<and> first then close_value (VObj kvs) fs
      else PBad)"
| "scan_step c (PString SPlain s use fs) =
     (if c = CHR 0x22 then (case use of AsValue \<Rightarrow> PEnd (VStr s) fs | AsKey kvs \<Rightarrow> PColon kvs s fs)
      else if c = CHR 0x5C then PString SEsc (s @ [c]) use fs
      else if (of_char c :: nat) < 32 then PBad
      else PString SPlain (s @ [c]) use fs)"
| "scan_step c (PString SEsc s use fs) =
     (if c = CHR ''u'' then PString (SHex 4) (s @ [c]) use fs
      else if c \<in> {CHR ''b'', CHR ''f'', CHR ''n'', CHR ''r'', CHR ''t'', CHR 0x5C, CHR ''/'', CHR 0x22}
      then PString SPlain (s @ [c]) use fs else PBad)"
| "scan_step c (PString (SHex k) s use fs) =
     (if hex_value c = None then PBad
      else PString (if k \<le> 1 then SPlain else SHex (k - 1)) (s @ [c]) use fs)"
| "scan_step c (PColon kvs k fs) =
     (if is_space c then PColon kvs k fs else if c = CHR '':'' then PValue (FObj kvs k # fs) else PBad)"
| "scan_step c (PNumber m s fs) =
     (case num_step m c of
        None \<Rightarrow> PBad
      | Some (Some m') \<Rightarrow> PNumber m' (s @ [c]) fs
      | Some None \<Rightarrow> end_value (VNum s) fs c)"
| "scan_step c (PLiteral rest v fs) =
     (case rest of
        [] \<Rightarrow> PBad
      | r # rest' \<Rightarrow> if c = r then (if rest' = [] then PEnd v fs else PLiteral rest' v fs) else PBad)"
| "scan_step c (PEnd v fs) = end_value v fs c"
| "scan_step c (PDone v) = PDone v"
| "scan_step c PBad = PBad"

text \<open>
  A body: its bytes, and how reading them ends, \<open>None\<close> for a regular end. The end of the body
  completes a number, literal or string at the top level.
\<close>

type_synonym body = "string \<times> goerr option"

definition readValue :: "body \<Rightarrow> jval result" where
  "readValue b =
     (case fold scan_step (fst b) (PValue []) of
        PDone v \<Rightarrow> Inr v
      | PBad \<Rightarrow> Inl (ErrNew ''invalid character'')
      | p \<Rightarrow> (case snd b of
          Some e \<Rightarrow> Inl e
        | None \<Rightarrow> (case scan_step (CHR 0x20) p of
            PDone v \<Rightarrow> Inr v
          | _ \<Rightarrow> Inl (ErrNew (if list_all is_space (fst b) then ''EOF'' else ''unexpected EOF'')))))"

section \<open>Strings\<close>

definition byte_in :: "nat \<Rightarrow> nat \<Rightarrow> char \<Rightarrow> bool" where
  "byte_in lo hi c \<longleftrightarrow> lo \<le> (of_char c :: nat) \<and> (of_char c :: nat) \<le> hi"

text \<open>
  What a lead byte announces: the number of continuation bytes, and the range of the first of
  them (the tables \<^verbatim>\<open>first\<close> and \<^verbatim>\<open>acceptRanges\<close> of \<^verbatim>\<open>unicode/utf8\<close>).
\<close>

definition lead :: "char \<Rightarrow> (nat \<times> nat \<times> nat) option" where
  "lead a =
     (let n = (of_char a :: nat) in
      if n < 128 then Some (0, 128, 191)
      else if n < 194 then None
      else if n < 224 then Some (1, 128, 191)
      else if n < 240 then Some (2, if n = 224 then 160 else 128, if n = 237 then 159 else 191)
      else if n < 245 then Some (3, if n = 240 then 144 else 128, if n = 244 then 143 else 191)
      else None)"

text \<open>The length of the valid UTF-8 sequence at the front, 0 when there is none.\<close>

definition rune_len :: "string \<Rightarrow> nat" where
  "rune_len s =
     (case s of
        [] \<Rightarrow> 0
      | a # t \<Rightarrow>
          (case lead a of
             None \<Rightarrow> 0
           | Some (k, lo, hi) \<Rightarrow>
               if k \<le> length t \<and> list_all (byte_in lo hi) (take 1 (take k t))
                  \<and> list_all (byte_in 128 191) (drop 1 (take k t))
               then Suc k else 0))"

text \<open>The UTF-8 encoding of a code point, and the replacement character.\<close>

definition encode_rune :: "nat \<Rightarrow> string" where
  "encode_rune r =
     (if r < 128 then [char_of r]
      else if r < 2048 then [char_of (192 + r div 64), char_of (128 + r mod 64)]
      else if r < 65536 then [char_of (224 + r div 4096), char_of (128 + r div 64 mod 64), char_of (128 + r mod 64)]
      else [char_of (240 + r div 262144), char_of (128 + r div 4096 mod 64), char_of (128 + r div 64 mod 64),
            char_of (128 + r mod 64)])"

definition replacement :: string where
  "replacement = [CHR 0xEF, CHR 0xBF, CHR 0xBD]"

definition is_surrogate :: "nat \<Rightarrow> bool" where
  "is_surrogate r \<longleftrightarrow> 55296 \<le> r \<and> r < 57344"

text \<open>\<^verbatim>\<open>getu4\<close>: the value of a \<^verbatim>\<open>\u\<close> escape at the front.\<close>

definition getu4 :: "string \<Rightarrow> nat option" where
  "getu4 s =
     (case s of
        a # b # h1 # h2 # h3 # h4 # _ \<Rightarrow>
          if a = CHR 0x5C \<and> b = CHR ''u'' then
            (case (hex_value h1, hex_value h2, hex_value h3, hex_value h4) of
               (Some v1, Some v2, Some v3, Some v4) \<Rightarrow> Some (v1 * 4096 + v2 * 256 + v3 * 16 + v4)
             | _ \<Rightarrow> None)
          else None
      | _ \<Rightarrow> None)"

text \<open>A high surrogate followed by the escape of a low one.\<close>

definition surrogate_pair :: "nat \<Rightarrow> string \<Rightarrow> nat option" where
  "surrogate_pair r rest =
     (case getu4 rest of
        Some r1 \<Rightarrow> if 55296 \<le> r \<and> r < 56320 \<and> 56320 \<le> r1 \<and> r1 < 57344
                  then Some (65536 + (r - 55296) * 1024 + (r1 - 56320)) else None
      | None \<Rightarrow> None)"

definition simple_escape :: "char \<Rightarrow> char" where
  "simple_escape c =
     (if c = CHR ''b'' then CHR 0x08 else if c = CHR ''f'' then CHR 0x0C else if c = CHR ''n'' then CHR 0x0A
      else if c = CHR ''r'' then CHR 0x0D else if c = CHR ''t'' then CHR 0x09 else c)"

text \<open>One piece of the literal: the bytes it stands for and how many bytes of the literal it takes.\<close>

definition unquote_piece :: "string \<Rightarrow> string \<times> nat" where
  "unquote_piece s =
     (case getu4 s of
        Some r \<Rightarrow>
          if is_surrogate r
          then (case surrogate_pair r (drop 6 s) of Some p \<Rightarrow> (encode_rune p, 12) | None \<Rightarrow> (replacement, 6))
          else (encode_rune r, 6)
      | None \<Rightarrow>
          (case s of
             a # e # _ \<Rightarrow>
               if a = CHR 0x5C then ([simple_escape e], 2)
               else if rune_len s = 0 then (replacement, 1) else (take (rune_len s) s, rune_len s)
           | _ \<Rightarrow> if rune_len s = 0 then (replacement, 1) else (take (rune_len s) s, rune_len s)))"

lemma unquote_piece_pos: "0 < snd (unquote_piece s)"
  by (auto simp: unquote_piece_def split: option.splits list.splits)

function unquote :: "string \<Rightarrow> string" where
  "unquote s = (if s = [] then [] else (case unquote_piece s of (out, n) \<Rightarrow> out @ unquote (drop n s)))"
  by pat_completeness auto
termination
  by (relation "measure length") (use unquote_piece_pos in \<open>fastforce simp: prod_eq_iff\<close>)+

declare unquote.simps [simp del]

section \<open>Numbers\<close>

text \<open>\<^verbatim>\<open>strconv.ParseInt(s, 10, 64)\<close> on a JSON number.\<close>

definition digits_value :: "string \<Rightarrow> int" where
  "digits_value s = foldl (\<lambda>n c. 10 * n + (int (of_char c) - 48)) 0 s"

definition ParseInt :: "string \<Rightarrow> int option" where
  "ParseInt s =
     (let (neg, ds) = (if take 1 s = ''-'' then (True, drop 1 s) else (False, s));
          n = (if neg then - digits_value ds else digits_value ds)
      in if ds \<noteq> [] \<and> list_all is_digit ds \<and> is_int64 n then Some n else None)"

section \<open>Structs\<close>

datatype field_kind = StringField | Int64Field
datatype field_value = StringValue string | Int64Value int

type_synonym struct_type = "(string \<times> field_kind) list"

text \<open>
  Case folding of a key: ASCII letters, and the two other runes that fold to ASCII letters, the
  long s (bytes C5 BF) and the Kelvin sign (bytes E2 84 AA). Field names are ASCII.
\<close>

fun fold_name :: "string \<Rightarrow> string" where
  "fold_name [] = []"
| "fold_name (c # s) =
     (if c = CHR 0xC5 \<and> take 1 s = [CHR 0xBF] then CHR ''s'' # fold_name (drop 1 s)
      else if c = CHR 0xE2 \<and> take 2 s = [CHR 0x84, CHR 0xAA] then CHR ''k'' # fold_name (drop 2 s)
      else (let n = (of_char c :: nat) in if 65 \<le> n \<and> n \<le> 90 then char_of (n + 32) else c) # fold_name s)"

definition find_field :: "struct_type \<Rightarrow> string \<Rightarrow> (string \<times> field_kind) option" where
  "find_field flds key =
     (case List.find (\<lambda>(name, _). name = key) flds of
        Some f \<Rightarrow> Some f
      | None \<Rightarrow> List.find (\<lambda>(name, _). fold_name name = fold_name key) flds)"

text \<open>The value a field takes, \<open>None\<close> for a value of the wrong type; null leaves the field alone.\<close>

definition field_of :: "field_kind \<Rightarrow> jval \<Rightarrow> field_value option" where
  "field_of kind v =
     (case (kind, v) of
        (StringField, VStr s) \<Rightarrow> Some (StringValue (unquote s))
      | (Int64Field, VNum s) \<Rightarrow> map_option Int64Value (ParseInt s)
      | _ \<Rightarrow> None)"

text \<open>The assignments so far and whether some value had the wrong type.\<close>

definition store_field :: "struct_type \<Rightarrow> string \<times> jval \<Rightarrow> (string \<rightharpoonup> field_value) \<times> bool \<Rightarrow> (string \<rightharpoonup> field_value) \<times> bool" where
  "store_field flds kv st =
     (case find_field flds (unquote (fst kv)) of
        None \<Rightarrow> st
      | Some (name, kind) \<Rightarrow>
          if snd kv = VNull then st
          else (case field_of kind (snd kv) of
             Some x \<Rightarrow> ((fst st)(name \<mapsto> x), snd st)
           | None \<Rightarrow> (fst st, True)))"

definition unmarshal :: "struct_type \<Rightarrow> jval \<Rightarrow> (string \<rightharpoonup> field_value) result" where
  "unmarshal flds v =
     (case v of
        VNull \<Rightarrow> Inr Map.empty
      | VObj kvs \<Rightarrow>
          (case fold (store_field flds) kvs (Map.empty, False) of
             (m, bad) \<Rightarrow> if bad then Inl (ErrNew ''json: cannot unmarshal value into Go struct field'') else Inr m)
      | _ \<Rightarrow> Inl (ErrNew ''json: cannot unmarshal value into Go value''))"

definition Decode :: "struct_type \<Rightarrow> body \<Rightarrow> (string \<rightharpoonup> field_value) result" where
  "Decode flds b = (case readValue b of Inl e \<Rightarrow> Inl e | Inr v \<Rightarrow> unmarshal flds v)"

text \<open>The fields of a decoded struct; what the body did not set is the zero value.\<close>

definition string_field :: "(string \<rightharpoonup> field_value) \<Rightarrow> string \<Rightarrow> string" where
  "string_field m name = (case m name of Some (StringValue s) \<Rightarrow> s | _ \<Rightarrow> '''')"

definition int64_field :: "(string \<rightharpoonup> field_value) \<Rightarrow> string \<Rightarrow> int" where
  "int64_field m name = (case m name of Some (Int64Value n) \<Rightarrow> n | _ \<Rightarrow> 0)"

end
