(* ===== verification/JsonRoundTrip.thy ===== *)
theory JsonRoundTrip
  imports JsonDecode
begin

text \<open>
  Decoding what the encoder wrote gives it back, whatever follows it in the body: the scanner
  reads the encoding of any value of bounded depth as that value, quoted strings of valid UTF-8
  unquote to themselves, numerals of 64-bit integers parse to them, and so a struct of text and
  integer fields is decoded to the struct that was encoded.
\<close>

section \<open>What the encoder writes is scanned back\<close>

text \<open>The scanned value of an encoding.\<close>

fun jscan :: "json \<Rightarrow> jval" where
  "jscan JNull = VNull"
| "jscan (JInt n) = VNum (itoa n)"
| "jscan (JString s) = VStr (json_body s)"
| "jscan (JTime t) = VStr (json_body (format_RFC3339Nano t))"
| "jscan (JArray vs) = VArr (map jscan vs)"
| "jscan (JObject kvs) = VObj (map (\<lambda>(k, v). (json_body k, jscan v)) kvs)"

fun jdepth :: "json \<Rightarrow> nat" where
  "jdepth (JArray vs) = Suc (fold (\<lambda>v. max (jdepth v)) vs 0)"
| "jdepth (JObject kvs) = Suc (fold (\<lambda>kv. max (jdepth (snd kv))) kvs 0)"
| "jdepth _ = 0"

lemma fold_max_upper: "(x :: nat) \<le> a \<or> (\<exists>y \<in> set xs. x \<le> f y) \<Longrightarrow> x \<le> fold (\<lambda>y. max (f y)) xs a"
  by (induction xs arbitrary: a) (auto simp: le_max_iff_disj)

lemma jdepth_elem: "v \<in> set vs \<Longrightarrow> jdepth v < jdepth (JArray vs)"
  using fold_max_upper [of "jdepth v" 0 vs jdepth] by (auto simp: less_Suc_eq_le)

lemma jdepth_field: "kv \<in> set kvs \<Longrightarrow> jdepth (snd kv) < jdepth (JObject kvs)"
  using fold_max_upper [of "jdepth (snd kv)" 0 kvs "\<lambda>kv. jdepth (snd kv)"] by (auto simp: less_Suc_eq_le)

text \<open>Bytes are compared by their numbers.\<close>

lemma byte_eq: "(c :: char) = d \<longleftrightarrow> (of_char c :: nat) = of_char d"
  by simp

lemma of_char_digit_char: "d < 16 \<Longrightarrow> of_char (digit_char d) = (if d < 10 then 48 + d else 87 + d)"
  by simp

declare digit_char.simps [simp del]

lemma hex_value_digit_char: "d < 16 \<Longrightarrow> hex_value (digit_char d) = Some d"
  by (simp add: hex_value_def of_char_digit_char Let_def)

lemma scan_hex4:
  "fold scan_step (hex4 n) (PString (SHex 4) acc use fs) = PString SPlain (acc @ hex4 n) use fs"
proof -
  have "hex_value (digit_char (m mod 16)) \<noteq> None" for m
    by (simp add: hex_value_digit_char)
  then show ?thesis
    by (simp add: hex4_def del: not_None_eq)
qed

text \<open>One byte of a string, escaped, is consumed whole.\<close>

lemma scan_json_escape:
  "fold scan_step (json_escape c) (PString SPlain acc use fs) = PString SPlain (acc @ json_escape c) use fs"
proof -
  have "c = CHR 0x22 \<longleftrightarrow> of_char c = (34 :: nat)" "c = CHR 0x5C \<longleftrightarrow> of_char c = (92 :: nat)"
    by (simp_all add: byte_eq del: of_char_eq_iff)
  then show ?thesis
    by (simp add: json_escape_def Let_def scan_hex4)
qed

text \<open>The two ways a string is escaped: a line separator as a whole, any other byte by itself.\<close>

definition line_sep :: "string \<Rightarrow> bool" where
  "line_sep s \<longleftrightarrow> take 3 s = [CHR 0xE2, CHR 0x80, CHR 0xA8] \<or> take 3 s = [CHR 0xE2, CHR 0x80, CHR 0xA9]"

lemma json_body_byte: "\<not> line_sep (a # s) \<Longrightarrow> json_body (a # s) = json_escape a @ json_body s"
  by (cases s; cases "tl s") (auto simp: line_sep_def)

lemma json_body_sep:
  "json_body (CHR 0xE2 # CHR 0x80 # CHR 0xA8 # s) = CHR 0x5C # ''u2028'' @ json_body s"
  "json_body (CHR 0xE2 # CHR 0x80 # CHR 0xA9 # s) = CHR 0x5C # ''u2029'' @ json_body s"
  by simp_all

lemma line_sepE:
  assumes "line_sep s"
  obtains t where "s = CHR 0xE2 # CHR 0x80 # CHR 0xA8 # t" | t where "s = CHR 0xE2 # CHR 0x80 # CHR 0xA9 # t"
  using assms append_take_drop_id [of 3 s] unfolding line_sep_def by (metis append_Cons append_Nil)

lemma json_body_induct [case_names Nil Sep1 Sep2 Byte]:
  assumes "P []"
    and "\<And>t. P t \<Longrightarrow> P (CHR 0xE2 # CHR 0x80 # CHR 0xA8 # t)"
    and "\<And>t. P t \<Longrightarrow> P (CHR 0xE2 # CHR 0x80 # CHR 0xA9 # t)"
    and "\<And>a t. \<not> line_sep (a # t) \<Longrightarrow> P t \<Longrightarrow> P (a # t)"
  shows "P s"
proof (induction s rule: measure_induct_rule [of length])
  case (less s)
  show ?case
  proof (cases "s = [] \<or> line_sep s")
    case True
    then show ?thesis
      using assms(1,2,3) less by (elim disjE line_sepE) auto
  next
    case False
    then show ?thesis
      using assms(4) less by (cases s) auto
  qed
qed

lemma scan_json_body:
  "fold scan_step (json_body s) (PString SPlain acc use fs) = PString SPlain (acc @ json_body s) use fs"
  by (induction s arbitrary: acc rule: json_body_induct)
    (simp_all add: json_body_byte json_body_sep scan_json_escape hex_value_def del: json_body.simps(1,2))

lemma scan_json_string:
  "fold scan_step (json_string s) (PValue fs) = PEnd (VStr (json_body s)) fs"
  by (simp add: json_string_def begin_value_def is_space_def scan_json_body)

lemma scan_json_key:
  "fold scan_step (json_string s @ '':'') (PKey first kvs fs) = PValue (FObj kvs (json_body s) # fs)"
  by (simp add: json_string_def is_space_def scan_json_body)

text \<open>Decimal numerals.\<close>

lemma is_digit_digit_char: "d < 10 \<Longrightarrow> is_digit (digit_char d)"
  by (simp add: is_digit_def of_char_digit_char)

lemma string_of_nat_digits: "list_all is_digit (string_of_nat n) \<and> string_of_nat n \<noteq> []"
  by (induction n rule: string_of_nat.induct) (simp add: string_of_nat.simps is_digit_digit_char)

lemma digits_value_snoc: "digits_value (s @ [c]) = 10 * digits_value s + (int (of_char c) - 48)"
  by (simp add: digits_value_def)

lemma digits_value_string_of_nat: "digits_value (string_of_nat n) = int n"
proof (induction n rule: string_of_nat.induct)
  case (1 n)
  then show ?case
    by (subst string_of_nat.simps)
      (auto simp: digits_value_snoc of_char_digit_char digits_value_def [of "[digit_char n]"] zmod_int zdiv_int)
qed

lemma ParseInt_itoa: "is_int64 n \<Longrightarrow> ParseInt (itoa n) = Some n"
proof -
  assume n: "is_int64 n"
  have "take 1 (string_of_nat k) \<noteq> ''-''" for k
    using string_of_nat_digits [of k] by (cases "string_of_nat k") (auto simp: is_digit_def)
  then show ?thesis
    using n string_of_nat_digits by (simp add: ParseInt_def itoa_def digits_value_string_of_nat)
qed

text \<open>A numeral has no leading zero, so the scanner takes all of its digits.\<close>

lemma string_of_nat_front:
  "0 < n \<Longrightarrow> \<exists>c s. string_of_nat n = c # s \<and> is_digit c \<and> c \<noteq> CHR ''0''"
proof (induction n rule: string_of_nat.induct)
  case (1 n)
  show ?case
  proof (cases "n < 10")
    case True
    then have "digit_char n \<noteq> CHR ''0''"
      using 1(2) by (simp add: byte_eq of_char_digit_char del: of_char_eq_iff)
    then show ?thesis
      using True is_digit_digit_char by (simp add: string_of_nat.simps)
  next
    case False
    then obtain c s where "string_of_nat (n div 10) = c # s \<and> is_digit c \<and> c \<noteq> CHR ''0''"
      using 1(1) by (auto simp: div_greater_zero_iff)
    then show ?thesis
      using False by (simp add: string_of_nat.simps [of n])
  qed
qed

lemma scan_digits:
  "list_all is_digit s \<Longrightarrow> fold scan_step s (PNumber NInt acc fs) = PNumber NInt (acc @ s) fs"
  by (induction s arbitrary: acc) (simp_all add: num_step_def)

definition delimiter :: "char \<Rightarrow> bool" where
  "delimiter c \<longleftrightarrow> c \<in> {CHR '','', CHR '']'', CHR ''}'', CHR 0x0A, CHR 0x20}"

lemma delimiterD:
  assumes "delimiter c"
  shows "\<not> is_digit c" "c \<noteq> CHR ''.''" "c \<noteq> CHR ''e''" "c \<noteq> CHR ''E''"
proof -
  have "\<forall>c \<in> {CHR '','', CHR '']'', CHR ''}'', CHR 0x0A, CHR 0x20}.
          \<not> is_digit c \<and> c \<noteq> CHR ''.'' \<and> c \<noteq> CHR ''e'' \<and> c \<noteq> CHR ''E''"
    by (simp add: is_digit_def)
  then show "\<not> is_digit c" "c \<noteq> CHR ''.''" "c \<noteq> CHR ''e''" "c \<noteq> CHR ''E''"
    using assms unfolding delimiter_def by blast+
qed

lemma num_step_delimiter:
  assumes "delimiter c"
  shows "num_step NInt c = Some None" "num_step NZero c = Some None"
  using delimiterD [OF assms] by (simp_all add: num_step_def)

lemma scan_itoa:
  "\<exists>m \<in> {NInt, NZero}. fold scan_step (itoa n) (PValue fs) = PNumber m (itoa n) fs"
proof (cases "n = 0")
  case True
  then show ?thesis
    by (simp add: itoa_def string_of_nat.simps begin_value_def is_space_def)
next
  case False
  obtain c s where cs: "string_of_nat (nat \<bar>n\<bar>) = c # s" "is_digit c" "c \<noteq> CHR ''0''"
    using string_of_nat_front [of "nat \<bar>n\<bar>"] False by auto
  then have "list_all is_digit s"
    using string_of_nat_digits [of "nat \<bar>n\<bar>"] by simp
  moreover have "c \<noteq> CHR ''{''" "c \<noteq> CHR ''[''" "c \<noteq> CHR 0x22" "c \<noteq> CHR ''-''" "\<not> is_space c"
    using cs(2) by (auto simp: is_digit_def is_space_def)
  ultimately have "fold scan_step (string_of_nat (nat \<bar>n\<bar>)) (PValue fs) = PNumber NInt (string_of_nat (nat \<bar>n\<bar>)) fs"
    "fold scan_step (string_of_nat (nat \<bar>n\<bar>)) (PNumber NNeg ''-'' fs) = PNumber NInt (''-'' @ string_of_nat (nat \<bar>n\<bar>)) fs"
    using cs by (simp_all add: begin_value_def num_step_def scan_digits)
  then show ?thesis
    using False by (auto simp: itoa_def begin_value_def is_space_def)
qed

text \<open>The scanner is ready for any byte that may follow once the encoding of a value is read.\<close>

definition scans :: "json \<Rightarrow> bool" where
  "scans v \<longleftrightarrow>
     (\<forall>fs c. delimiter c \<longrightarrow> length fs + jdepth v \<le> maxNestingDepth
        \<longrightarrow> scan_step c (fold scan_step (json_Marshal v) (PValue fs)) = end_value (jscan v) fs c)"

lemma scans_fold:
  assumes "scans v" "delimiter c" "length fs + jdepth v \<le> maxNestingDepth"
  shows "fold scan_step (json_Marshal v @ c # t) (PValue fs) = fold scan_step t (end_value (jscan v) fs c)"
  using assms by (simp add: scans_def)

lemma scan_step_closed: "scan_step c (close_value v fs) = end_value v fs c"
  by (simp add: close_value_def end_value_def)

lemma join_cons: "xs \<noteq> [] \<Longrightarrow> join sep (x # xs) = x @ sep @ join sep xs"
  by (cases xs) auto

lemma scan_elements:
  assumes "vs \<noteq> []" "\<forall>v \<in> set vs. scans v" "\<forall>v \<in> set vs. Suc (length fs) + jdepth v \<le> maxNestingDepth"
  shows "fold scan_step (join '','' (map json_Marshal vs) @ '']'') (PValue (FArr acc # fs))
         = close_value (VArr (acc @ map jscan vs)) fs"
  using assms
proof (induction "'',''" "map json_Marshal vs" arbitrary: vs acc rule: join.induct)
  case (2 x)
  then obtain v where "vs = [v]"
    by auto
  then show ?case
    using 2 scans_fold [of v "CHR '']''" "FArr acc # fs" "[]"]
    by (simp add: delimiter_def end_value_def is_space_def del: fold_append)
next
  case (3 x y ys)
  then obtain v vs' where vs: "vs = v # vs'" "vs' \<noteq> []" "y # ys = map json_Marshal vs'"
    by auto
  have "fold scan_step (json_Marshal v @ '','' @ join '','' (map json_Marshal vs') @ '']'') (PValue (FArr acc # fs))
        = fold scan_step (join '','' (map json_Marshal vs') @ '']'') (PValue (FArr (acc @ [jscan v]) # fs))"
    using 3(4,5) vs(1) scans_fold [of v "CHR '',''" "FArr acc # fs"]
    by (simp add: delimiter_def end_value_def is_space_def del: fold_append)
  also have "\<dots> = close_value (VArr (acc @ map jscan vs)) fs"
    using 3(1) [of vs'] 3(4,5) vs by simp
  finally show ?case
    using vs 3(2) by (simp add: join_cons del: fold_append)
qed simp

lemma scan_fields:
  assumes "kvs \<noteq> []" "\<forall>kv \<in> set kvs. scans (snd kv)"
    "\<forall>kv \<in> set kvs. Suc (length fs) + jdepth (snd kv) \<le> maxNestingDepth"
  shows "fold scan_step (join '','' (map (\<lambda>(k, v). json_string k @ '':'' @ json_Marshal v) kvs) @ ''}'') (PKey first acc fs)
         = close_value (VObj (acc @ map (\<lambda>(k, v). (json_body k, jscan v)) kvs)) fs"
  using assms
proof (induction "'',''" "map (\<lambda>(k, v). json_string k @ '':'' @ json_Marshal v) kvs" arbitrary: kvs acc first rule: join.induct)
  case (2 x)
  then obtain k v where kvs: "kvs = [(k, v)]"
    by auto
  have "fold scan_step ((json_string k @ '':'') @ json_Marshal v @ ''}'') (PKey first acc fs)
        = close_value (VObj (acc @ [(json_body k, jscan v)])) fs"
    using 2 kvs scans_fold [of v "CHR ''}''" "FObj acc (json_body k) # fs" "[]"]
    by (subst fold_append) (simp add: scan_json_key delimiter_def end_value_def is_space_def del: fold_append)
  then show ?case
    using kvs by (simp del: fold_append)
next
  case (3 x y ys)
  then obtain k v kvs' where kvs: "kvs = (k, v) # kvs'" "kvs' \<noteq> []"
    "y # ys = map (\<lambda>(k, v). json_string k @ '':'' @ json_Marshal v) kvs'"
    by auto
  have "fold scan_step ((json_string k @ '':'') @ json_Marshal v @ '','' @ join '','' (y # ys) @ ''}'') (PKey first acc fs)
        = fold scan_step (join '','' (y # ys) @ ''}'') (PKey False (acc @ [(json_body k, jscan v)]) fs)"
    using 3(4,5) kvs(1) scans_fold [of v "CHR '',''" "FObj acc (json_body k) # fs"]
    by (subst fold_append) (simp add: scan_json_key delimiter_def end_value_def is_space_def del: fold_append)
  also have "\<dots> = close_value (VObj (acc @ map (\<lambda>(k, v). (json_body k, jscan v)) kvs)) fs"
    using 3(1) [of kvs'] 3(4,5) kvs by simp
  finally show ?case
    using kvs 3(2) by (simp add: join_cons del: fold_append)
qed simp

lemma json_Marshal_front:
  "\<exists>c t. json_Marshal v = c # t \<and> \<not> is_space c \<and> c \<noteq> CHR '']''"
proof (cases v)
  case (JInt n)
  have "itoa n \<noteq> []" "hd (itoa n) = CHR ''-'' \<or> is_digit (hd (itoa n))"
    using string_of_nat_digits [of "nat n"] by (auto simp: itoa_def neq_Nil_conv)
  then show ?thesis
    using JInt by (cases "itoa n") (auto simp: is_space_def is_digit_def)
qed (simp_all add: json_string_def is_space_def)

lemma scan_first_elem:
  "fold scan_step (json_Marshal v @ t) (PFirstElem fs) = fold scan_step (json_Marshal v @ t) (PValue fs)"
  using json_Marshal_front [of v] by auto

lemma scans_array:
  assumes "\<forall>v \<in> set vs. scans v"
  shows "scans (JArray vs)"
  unfolding scans_def
proof (intro allI impI)
  fix fs :: "frame list" and c
  assume depth: "length fs + jdepth (JArray vs) \<le> maxNestingDepth"
  have "fold scan_step (join '','' (map json_Marshal vs) @ '']'') (PFirstElem (FArr [] # fs)) = close_value (VArr (map jscan vs)) fs"
  proof (cases vs)
    case Nil
    then show ?thesis
      by (simp add: is_space_def)
  next
    case (Cons v vs')
    obtain t where t: "join '','' (map json_Marshal vs) @ '']'' = json_Marshal v @ t"
      using Cons by (cases vs') auto
    have "\<forall>w \<in> set vs. Suc (length fs) + jdepth w \<le> maxNestingDepth"
      using jdepth_elem depth by fastforce
    then have "fold scan_step (json_Marshal v @ t) (PValue (FArr [] # fs)) = close_value (VArr (map jscan vs)) fs"
      using scan_elements [of vs fs "[]"] assms Cons t by (simp del: fold_append)
    then show ?thesis
      unfolding t scan_first_elem .
  qed
  then show "scan_step c (fold scan_step (json_Marshal (JArray vs)) (PValue fs)) = end_value (jscan (JArray vs)) fs c"
    using depth by (simp add: begin_value_def is_space_def scan_step_closed)
qed

lemma scans_object:
  assumes "\<forall>kv \<in> set kvs. scans (snd kv)"
  shows "scans (JObject kvs)"
  unfolding scans_def
proof (intro allI impI)
  fix fs :: "frame list" and c
  assume depth: "length fs + jdepth (JObject kvs) \<le> maxNestingDepth"
  have "\<forall>kv \<in> set kvs. Suc (length fs) + jdepth (snd kv) \<le> maxNestingDepth"
    using jdepth_field depth by fastforce
  then have "fold scan_step (join '','' (map (\<lambda>(k, v). json_string k @ '':'' @ json_Marshal v) kvs) @ ''}'') (PKey True [] fs)
        = close_value (VObj (map (\<lambda>(k, v). (json_body k, jscan v)) kvs)) fs"
    using scan_fields [of kvs fs True "[]"] assms by (cases "kvs = []") (auto simp: is_space_def)
  then show "scan_step c (fold scan_step (json_Marshal (JObject kvs)) (PValue fs)) = end_value (jscan (JObject kvs)) fs c"
    using depth by (simp add: begin_value_def is_space_def scan_step_closed)
qed

lemma scans_json: "scans v"
proof (induction v)
  case JNull
  then show ?case
    by (simp add: scans_def begin_value_def is_space_def is_digit_def)
next
  case (JInt n)
  have "scan_step c (fold scan_step (itoa n) (PValue fs)) = end_value (VNum (itoa n)) fs c" if "delimiter c" for fs c
    using scan_itoa [of n fs] num_step_delimiter [OF that] by fastforce
  then show ?case
    by (simp add: scans_def)
next
  case (JArray vs)
  then show ?case
    by (simp add: scans_array)
next
  case (JObject kvs)
  then show ?case
    by (intro scans_object) auto
qed (simp_all add: scans_def scan_json_string)

theorem readValue_Encode:
  assumes "jdepth v \<le> maxNestingDepth"
  shows "readValue (json_Encode v @ rest, err) = Inr (jscan v)"
proof -
  have "fold scan_step rest (PDone w) = PDone w" for w
    by (induction rest) auto
  then show ?thesis
    using scans_fold [OF scans_json, of "CHR 0x0A" "[]" v rest] assms
    by (simp add: readValue_def json_Encode_def delimiter_def end_value_def)
qed

section \<open>Strings decode to what was encoded\<close>

text \<open>Valid UTF-8: a sequence of valid runes.\<close>

function valid_utf8 :: "string \<Rightarrow> bool" where
  "valid_utf8 s = (if s = [] then True else if rune_len s = 0 then False else valid_utf8 (drop (rune_len s) s))"
  by pat_completeness auto
termination
  by (relation "measure length") auto

declare valid_utf8.simps [simp del]

lemma valid_utf8_ascii: "list_all (\<lambda>c. (of_char c :: nat) < 128) s \<Longrightarrow> valid_utf8 s"
  by (induction s) (simp_all add: valid_utf8.simps [of "_ # _"] valid_utf8.simps [of "[]"] rune_len_def lead_def)

lemma unquote_step: "unquote_piece s = (out, n) \<Longrightarrow> s \<noteq> [] \<Longrightarrow> unquote s = out @ unquote (drop n s)"
  by (subst unquote.simps) simp

lemma unquote_Nil [simp]: "unquote [] = []"
  by (simp add: unquote.simps)

text \<open>A rune longer than a byte: a lead byte and continuation bytes.\<close>

lemma lead_range: "lead a = Some (k, lo, hi) \<Longrightarrow> 128 \<le> lo \<and> hi \<le> 191 \<and> (0 < k \<longrightarrow> 128 \<le> (of_char a :: nat))"
  by (auto simp: lead_def Let_def split: if_splits)

lemma long_rune:
  assumes "1 < rune_len s"
  obtains a u t where "s = a # u @ t" "Suc (length u) = rune_len s" "128 \<le> (of_char a :: nat)"
    "\<forall>c \<in> set u. 128 \<le> (of_char c :: nat) \<and> (of_char c :: nat) < 192"
    "\<And>t'. rune_len (a # u @ t') = Suc (length u)"
proof -
  obtain a s' k lo hi where s: "s = a # s'" "lead a = Some (k, lo, hi)" "rune_len s = Suc k" "k \<le> length s'"
      "list_all (byte_in lo hi) (take 1 (take k s'))" "list_all (byte_in 128 191) (drop 1 (take k s'))"
    using assms by (auto simp: rune_len_def split: list.splits option.splits prod.splits if_splits)
  define u where "u = take k s'"
  have "list_all (byte_in 128 191) (take 1 u)"
    using s(5) lead_range [OF s(2)] by (auto simp: u_def byte_in_def list_all_iff)
  then have "list_all (byte_in 128 191) u"
    using s(6) list_all_append [of "byte_in 128 191" "take 1 u" "drop 1 u"]
    unfolding u_def [symmetric] append_take_drop_id by simp
  moreover have "rune_len (a # u @ t') = Suc (length u)" for t'
    using s by (simp add: rune_len_def u_def)
  moreover have "s = a # u @ drop k s'" "Suc (length u) = rune_len s"
    unfolding s(3) using s(1,4) by (simp_all add: u_def)
  moreover have "128 \<le> (of_char a :: nat)"
    using lead_range [OF s(2)] assms s(3) by simp
  moreover have "\<forall>c \<in> set u. 128 \<le> (of_char c :: nat) \<and> (of_char c :: nat) < 192"
    using \<open>list_all (byte_in 128 191) u\<close> by (auto simp: byte_in_def list_all_iff)
  ultimately show ?thesis
    using that by blast
qed

lemma json_body_continuation:
  "\<forall>c \<in> set u. 128 \<le> (of_char c :: nat) \<and> (of_char c :: nat) < 192 \<Longrightarrow> json_body (u @ t) = u @ json_body t"
proof (induction u)
  case (Cons c u)
  have "\<not> line_sep (c # u @ t)" "json_escape c = [c]"
    using Cons.prems by (auto simp: line_sep_def json_escape_def)
  then show ?case
    using Cons by (simp add: json_body_byte)
qed simp

lemma hex4_value:
  assumes "n < 65536"
  shows "getu4 (CHR 0x5C # CHR ''u'' # hex4 n @ t) = Some n"
proof -
  obtain x y z where xyz: "x = n div 16" "y = n div 256" "z = n div 4096"
    by simp
  then have "y = x div 16" "z = y div 16" "z < 16"
    using assms by (simp_all add: div_mult2_eq [symmetric] less_mult_imp_div_less)
  then have "n = x * 16 + n mod 16" "x = y * 16 + x mod 16" "y = z * 16 + y mod 16" "z mod 16 = z"
    using div_mult_mod_eq xyz by simp_all
  moreover have "z * 4096 + d2 * 256 + d1 * 16 + d0 = n" if "n = x * 16 + d0" "x = y * 16 + d1" "y = z * 16 + d2" for d0 d1 d2
    using that by simp
  ultimately have "z * 4096 + y mod 16 * 256 + x mod 16 * 16 + n mod 16 = n" "z mod 16 = z"
    by metis+
  then show ?thesis
    using \<open>z < 16\<close> by (simp add: getu4_def hex4_def hex_value_digit_char xyz)
qed

lemma unquote_piece_short: "e \<noteq> CHR ''u'' \<Longrightarrow> unquote_piece (CHR 0x5C # e # t) = ([simple_escape e], 2)"
  by (simp add: unquote_piece_def getu4_def split: list.splits)

lemma unquote_piece_hex: "n < 128 \<Longrightarrow> unquote_piece (CHR 0x5C # CHR ''u'' # hex4 n @ t) = ([char_of n], 6)"
  by (simp add: unquote_piece_def hex4_value is_surrogate_def encode_rune_def)

lemma unquote_piece_rune:
  "s \<noteq> [] \<Longrightarrow> hd s \<noteq> CHR 0x5C \<Longrightarrow> 0 < rune_len s \<Longrightarrow> unquote_piece s = (take (rune_len s) s, rune_len s)"
  by (cases s) (auto simp: unquote_piece_def getu4_def split: list.splits)

lemma length_hex4: "length (hex4 n) = 4"
  by (simp add: hex4_def)

lemma json_escape_cases:
  obtains (quote) "a = CHR 0x22 \<or> a = CHR 0x5C"
  | (short) "a = CHR 0x08 \<or> a = CHR 0x0C \<or> a = CHR 0x0A \<or> a = CHR 0x0D \<or> a = CHR 0x09"
  | (hex) "(of_char a :: nat) < 128" "json_escape a = CHR 0x5C # CHR ''u'' # hex4 (of_char a)"
  | (plain) "a \<noteq> CHR 0x5C" "json_escape a = [a]"
proof -
  define n where "n = (of_char a :: nat)"
  note chars = byte_eq [of a] n_def [symmetric]
  consider "n = 34 \<or> n = 92" | "n = 8 \<or> n = 12 \<or> n = 10 \<or> n = 13 \<or> n = 9"
    | "n \<notin> {34, 92, 8, 12, 10, 13, 9}" "n < 32 \<or> n = 60 \<or> n = 62 \<or> n = 38"
    | "n \<notin> {34, 92, 8, 12, 10, 13, 9}" "\<not> (n < 32 \<or> n = 60 \<or> n = 62 \<or> n = 38)"
    by blast
  then show thesis
  proof cases
    case 1
    then show ?thesis
      using quote by (simp add: chars del: of_char_eq_iff)
  next
    case 2
    then show ?thesis
      using short by (simp add: chars del: of_char_eq_iff)
  next
    case 3
    then have "json_escape a = CHR 0x5C # CHR ''u'' # hex4 n"
      by (simp add: json_escape_def n_def [symmetric])
    moreover have "n < 128"
      using 3 by linarith
    ultimately show ?thesis
      using hex by (simp add: n_def)
  next
    case 4
    then have "json_escape a = [a]" "a \<noteq> CHR 0x5C"
      by (simp_all add: json_escape_def chars del: of_char_eq_iff)
    then show ?thesis
      using plain by simp
  qed
qed

lemma unquote_escape:
  assumes "(of_char a :: nat) < 128"
  shows "unquote (json_escape a @ t) = a # unquote t"
proof -
  have "unquote_piece (json_escape a @ t) = ([a], length (json_escape a))"
  proof (cases rule: json_escape_cases [of a])
    case quote
    then show ?thesis
      by (elim disjE) (simp_all add: json_escape_def unquote_piece_short simple_escape_def)
  next
    case short
    then show ?thesis
      by (elim disjE) (simp_all add: json_escape_def unquote_piece_short simple_escape_def)
  next
    case hex
    then show ?thesis
      by (simp add: unquote_piece_hex length_hex4)
  next
    case plain
    then show ?thesis
      using assms unquote_piece_rune [of "a # t"] by (simp add: rune_len_def lead_def)
  qed
  moreover have "json_escape a \<noteq> []"
    by (simp add: json_escape_def Let_def)
  ultimately show ?thesis
    using unquote_step by fastforce
qed

lemma unquote_rune:
  assumes "1 < rune_len s" "\<not> line_sep s"
  shows "unquote (json_body s) = take (rune_len s) s @ unquote (json_body (drop (rune_len s) s))"
proof -
  obtain a u t where s: "s = a # u @ t" "Suc (length u) = rune_len s" "128 \<le> (of_char a :: nat)"
    "\<forall>c \<in> set u. 128 \<le> (of_char c :: nat) \<and> (of_char c :: nat) < 192" "\<And>t'. rune_len (a # u @ t') = Suc (length u)"
    using long_rune [OF assms(1)] by metis
  have "json_escape a = [a]" "a \<noteq> CHR 0x5C"
    using s(3) by (auto simp: json_escape_def)
  then have "json_body s = a # u @ json_body t" "unquote_piece (a # u @ json_body t) = (a # u, Suc (length u))"
    using s json_body_byte assms(2) unquote_piece_rune [of "a # u @ json_body t"]
    by (simp_all add: json_body_continuation)
  then show ?thesis
    using s(1) s(2) [symmetric] unquote_step by simp
qed

lemma unquote_sep:
  "unquote (json_body (CHR 0xE2 # CHR 0x80 # CHR 0xA8 # t)) = CHR 0xE2 # CHR 0x80 # CHR 0xA8 # unquote (json_body t)"
  "unquote (json_body (CHR 0xE2 # CHR 0x80 # CHR 0xA9 # t)) = CHR 0xE2 # CHR 0x80 # CHR 0xA9 # unquote (json_body t)"
proof -
  have "encode_rune 8232 = [CHR 0xE2, CHR 0x80, CHR 0xA8]" "encode_rune 8233 = [CHR 0xE2, CHR 0x80, CHR 0xA9]"
    by (simp_all add: encode_rune_def byte_eq del: of_char_eq_iff)
  then have "unquote_piece (CHR 0x5C # ''u2028'' @ x) = ([CHR 0xE2, CHR 0x80, CHR 0xA8], 6)"
    "unquote_piece (CHR 0x5C # ''u2029'' @ x) = ([CHR 0xE2, CHR 0x80, CHR 0xA9], 6)" for x
    by (simp_all add: unquote_piece_def getu4_def hex_value_def is_surrogate_def)
  note pieces = this [THEN unquote_step]
  show "unquote (json_body (CHR 0xE2 # CHR 0x80 # CHR 0xA8 # t)) = CHR 0xE2 # CHR 0x80 # CHR 0xA8 # unquote (json_body t)"
    "unquote (json_body (CHR 0xE2 # CHR 0x80 # CHR 0xA9 # t)) = CHR 0xE2 # CHR 0x80 # CHR 0xA9 # unquote (json_body t)"
    unfolding json_body_sep by (simp_all add: pieces [simplified])
qed

lemma unquote_json_body: "valid_utf8 s \<Longrightarrow> unquote (json_body s) = s"
proof (induction s rule: valid_utf8.induct)
  case (1 s)
  consider "s = []" | "line_sep s" | "rune_len s = 1" "\<not> line_sep s" | "1 < rune_len s" "\<not> line_sep s"
    using 1(2) by (cases "line_sep s"; cases "rune_len s = 1") (auto simp: valid_utf8.simps [of s] split: if_splits)
  then show ?case
  proof cases
    case 2
    then obtain c t where t: "s = [CHR 0xE2, CHR 0x80, c] @ t" "c = CHR 0xA8 \<or> c = CHR 0xA9"
      by (rule line_sepE) auto
    then have "rune_len s = 3"
      by (auto simp: rune_len_def lead_def byte_in_def)
    then have "valid_utf8 t"
      using 1(2) t unfolding valid_utf8.simps [of s] by auto
    then have "unquote (json_body t) = t"
      using 1 t \<open>rune_len s = 3\<close> by auto
    then show ?thesis
      using t by (auto simp: unquote_sep simp del: json_body.simps)
  next
    case 3
    then obtain a t where s: "s = a # t" "(of_char a :: nat) < 128"
      by (auto simp: rune_len_def lead_def Let_def split: list.splits if_splits)
    then have "valid_utf8 t"
      using 1(2) 3(1) unfolding valid_utf8.simps [of s] by simp
    then have "unquote (json_body t) = t"
      using 1(1) 3(1) s by simp
    then show ?thesis
      using s 3(2) by (simp add: json_body_byte unquote_escape)
  next
    case 4
    then show ?thesis
      using 1 unquote_rune by (auto simp: valid_utf8.simps [of s] split: if_splits)
  qed simp
qed

section \<open>Structs decode to what was encoded\<close>

fun json_of_field :: "field_value \<Rightarrow> json" where
  "json_of_field (StringValue s) = JString s"
| "json_of_field (Int64Value n) = JInt n"

text \<open>A value a field of that kind can hold: valid UTF-8, a 64-bit integer.\<close>

fun field_ok :: "field_kind \<Rightarrow> field_value \<Rightarrow> bool" where
  "field_ok StringField (StringValue s) = valid_utf8 s"
| "field_ok Int64Field (Int64Value n) = is_int64 n"
| "field_ok _ _ = False"

definition json_of_struct :: "struct_type \<Rightarrow> (string \<Rightarrow> field_value) \<Rightarrow> json" where
  "json_of_struct flds v = JObject (map (\<lambda>(name, kind). (name, json_of_field (v name))) flds)"

lemma field_of_json: "field_ok kind x \<Longrightarrow> field_of kind (jscan (json_of_field x)) = Some x"
  by (cases "(kind, x)" rule: field_ok.cases) (simp_all add: field_of_def unquote_json_body ParseInt_itoa)

lemma jscan_field_not_null: "jscan (json_of_field x) \<noteq> VNull"
  by (cases x) auto

lemma find_field_exact:
  assumes "distinct (map fst flds)" "(name, kind) \<in> set flds"
  shows "find_field flds name = Some (name, kind)"
proof -
  have "List.find (\<lambda>(n, _). n = name) flds = Some (name, kind)"
    using assms by (induction flds) (auto simp: rev_image_eqI)
  then show ?thesis
    by (simp add: find_field_def)
qed

lemma jdepth_struct: "jdepth (json_of_struct flds v) = 1"
proof -
  have "jdepth (json_of_field x) = 0" for x
    by (cases x) auto
  then have "fold (\<lambda>kv. max (jdepth (snd kv))) (map (\<lambda>(name, kind). (name, json_of_field (v name))) flds) 0 = 0"
    by (induction flds) (auto split: prod.splits)
  then show ?thesis
    by (simp add: json_of_struct_def)
qed

definition struct_ok :: "struct_type \<Rightarrow> (string \<Rightarrow> field_value) \<Rightarrow> bool" where
  "struct_ok flds v \<longleftrightarrow>
     distinct (map fst flds) \<and> list_all (\<lambda>(name, kind). valid_utf8 name \<and> field_ok kind (v name)) flds"

lemma fold_store_field:
  assumes "struct_ok flds v" "set fs \<subseteq> set flds"
  shows "fold (store_field flds) (map (\<lambda>(name, kind). (json_body name, jscan (json_of_field (v name)))) fs) (m, bad)
         = ((\<lambda>n. if n \<in> fst ` set fs then Some (v n) else m n), bad)"
  using assms(2)
proof (induction fs arbitrary: m)
  case (Cons f fs)
  obtain name kind where f: "f = (name, kind)"
    by (cases f)
  then have "valid_utf8 name" "field_ok kind (v name)" "find_field flds name = Some (name, kind)"
    using Cons.prems assms(1) by (auto simp: struct_ok_def list_all_iff intro: find_field_exact)
  then have "store_field flds (json_body name, jscan (json_of_field (v name))) (m, bad) = (m(name \<mapsto> v name), bad)"
    by (simp add: store_field_def unquote_json_body field_of_json jscan_field_not_null)
  then show ?case
    using Cons f by (auto simp: fun_eq_iff)
qed simp

theorem Decode_Encode:
  assumes "struct_ok flds v"
  shows "Decode flds (json_Encode (json_of_struct flds v) @ rest, err)
         = Inr (\<lambda>n. if n \<in> fst ` set flds then Some (v n) else None)"
proof -
  have "readValue (json_Encode (json_of_struct flds v) @ rest, err) = Inr (jscan (json_of_struct flds v))"
    by (rule readValue_Encode) (simp add: jdepth_struct maxNestingDepth_def)
  then show ?thesis
    using fold_store_field [OF assms, of flds Map.empty False]
    by (simp add: Decode_def unmarshal_def json_of_struct_def comp_def case_prod_unfold)
qed

text \<open>Structs of two text fields, as several endpoints have them.\<close>

lemma Decode_two_strings:
  assumes "a \<noteq> b" and "valid_utf8 a" "valid_utf8 b" "valid_utf8 x" "valid_utf8 y"
  shows "Decode [(a, StringField), (b, StringField)] (json_Encode (JObject [(a, JString x), (b, JString y)]) @ rest, err)
         = Inr [a \<mapsto> StringValue x, b \<mapsto> StringValue y]"
proof -
  let ?flds = "[(a, StringField), (b, StringField)]" and ?v = "\<lambda>n. StringValue (if n = a then x else y)"
  have "struct_ok ?flds ?v" "JObject [(a, JString x), (b, JString y)] = json_of_struct ?flds ?v"
    using assms by (simp_all add: struct_ok_def json_of_struct_def)
  then show ?thesis
    using Decode_Encode [of ?flds ?v rest err] assms(1) by (auto simp: fun_eq_iff)
qed

end
