(* ===== verification/JsonTyped.thy ===== *)
theory JsonTyped
  imports JsonRoundTrip
begin

text \<open>
  Whatever bytes a body has, what is decoded from it is well typed: every text field is valid
  UTF-8 and every integer field is a 64-bit integer. The proof is an invariant of the scanner,
  that the literals it collects are well formed, and an induction over the pieces of a literal.
\<close>

section \<open>What is decoded is well typed\<close>

text \<open>String literals the scanner lets through: no bare quote or control byte, every escape complete.\<close>

fun string_step :: "char \<Rightarrow> string_mode option \<Rightarrow> string_mode option" where
  "string_step c (Some SPlain) =
     (if c = CHR 0x5C then Some SEsc else if c = CHR 0x22 \<or> (of_char c :: nat) < 32 then None else Some SPlain)"
| "string_step c (Some SEsc) =
     (if c = CHR ''u'' then Some (SHex 4)
      else if c \<in> {CHR ''b'', CHR ''f'', CHR ''n'', CHR ''r'', CHR ''t'', CHR 0x5C, CHR ''/'', CHR 0x22} then Some SPlain else None)"
| "string_step c (Some (SHex k)) =
     (if hex_value c = None then None else Some (if k \<le> 1 then SPlain else SHex (k - 1)))"
| "string_step c None = None"

definition literal :: "string \<Rightarrow> bool" where
  "literal s \<longleftrightarrow> fold string_step s (Some SPlain) = Some SPlain"

fun jval_ok :: "jval \<Rightarrow> bool" where
  "jval_ok (VStr s) = literal s"
| "jval_ok (VArr vs) = list_all jval_ok vs"
| "jval_ok (VObj kvs) = list_all (\<lambda>kv. literal (fst kv) \<and> jval_ok (snd kv)) kvs"
| "jval_ok _ = True"

fun frame_ok :: "frame \<Rightarrow> bool" where
  "frame_ok (FArr vs) = jval_ok (VArr vs)"
| "frame_ok (FObj kvs k) = (jval_ok (VObj kvs) \<and> literal k)"

fun use_ok :: "string_use \<Rightarrow> bool" where
  "use_ok AsValue = True"
| "use_ok (AsKey kvs) = jval_ok (VObj kvs)"

fun scan_ok :: "scan \<Rightarrow> bool" where
  "scan_ok (PValue fs) = list_all frame_ok fs"
| "scan_ok (PFirstElem fs) = list_all frame_ok fs"
| "scan_ok (PKey first kvs fs) = (jval_ok (VObj kvs) \<and> list_all frame_ok fs)"
| "scan_ok (PString m s use fs) = (fold string_step s (Some SPlain) = Some m \<and> use_ok use \<and> list_all frame_ok fs)"
| "scan_ok (PColon kvs k fs) = (jval_ok (VObj kvs) \<and> literal k \<and> list_all frame_ok fs)"
| "scan_ok (PNumber m s fs) = list_all frame_ok fs"
| "scan_ok (PLiteral rest v fs) = (jval_ok v \<and> list_all frame_ok fs)"
| "scan_ok (PEnd v fs) = (jval_ok v \<and> list_all frame_ok fs)"
| "scan_ok (PDone v) = jval_ok v"
| "scan_ok PBad = True"

lemma close_value_ok: "jval_ok v \<Longrightarrow> list_all frame_ok fs \<Longrightarrow> scan_ok (close_value v fs)"
  by (simp add: close_value_def)

lemma begin_value_ok: "list_all frame_ok fs \<Longrightarrow> scan_ok (begin_value fs c)"
  by (simp add: begin_value_def literal_def)

lemma end_value_ok: "jval_ok v \<Longrightarrow> list_all frame_ok fs \<Longrightarrow> scan_ok (end_value v fs c)"
  by (auto simp: end_value_def split: list.splits frame.splits intro!: close_value_ok)

lemma scan_string_ok:
  assumes "scan_ok (PString m s use fs)"
  shows "scan_ok (scan_step c (PString m s use fs))"
  using assms by (cases m; cases use) (simp_all add: literal_def)

lemma scan_step_ok: "scan_ok p \<Longrightarrow> scan_ok (scan_step c p)"
proof (cases p)
  case (PString m s use fs)
  then show "scan_ok p \<Longrightarrow> scan_ok (scan_step c p)"
    using scan_string_ok by metis
qed (auto intro!: close_value_ok begin_value_ok end_value_ok split: list.splits frame.splits option.splits)

lemma readValue_ok: "readValue b = Inr v \<Longrightarrow> jval_ok v"
proof -
  assume run: "readValue b = Inr v"
  have ok: "scan_ok (fold scan_step s p)" if "scan_ok p" for s p
    using that by (induction s arbitrary: p) (simp_all add: scan_step_ok)
  let ?p = "fold scan_step (fst b) (PValue [])"
  have "?p = PDone v \<or> scan_step (CHR 0x20) ?p = PDone v"
    using run unfolding readValue_def by (auto split: scan.splits option.splits simp del: scan_step.simps)
  then show ?thesis
    using ok [of "PValue []" "fst b"] scan_step_ok [of ?p "CHR 0x20"] by auto
qed

text \<open>A rune: a byte sequence that is one rune whatever follows it.\<close>

definition rune :: "string \<Rightarrow> bool" where
  "rune u \<longleftrightarrow> u \<noteq> [] \<and> (\<forall>t. rune_len (u @ t) = length u)"

lemma valid_utf8_rune: "rune u \<Longrightarrow> valid_utf8 (u @ t) = valid_utf8 t"
  by (subst valid_utf8.simps) (simp add: rune_def)

lemma rune_ascii: "(of_char c :: nat) < 128 \<Longrightarrow> rune [c]"
  by (simp add: rune_def rune_len_def lead_def)

lemma rune_replacement: "rune replacement"
  by (simp add: rune_def replacement_def rune_len_def lead_def byte_in_def)

lemma rune_front:
  assumes "0 < rune_len s"
  shows "rune (take (rune_len s) s)"
proof (cases "rune_len s = 1")
  case True
  then obtain a t where "s = a # t" "(of_char a :: nat) < 128"
    by (auto simp: rune_len_def lead_def Let_def split: list.splits if_splits)
  then show ?thesis
    using True rune_ascii by simp
next
  case False
  then obtain a u t where s: "s = a # u @ t" "Suc (length u) = rune_len s" "\<And>t'. rune_len (a # u @ t') = Suc (length u)"
    using assms long_rune [of s] by (metis One_nat_def Suc_lessI)
  then have "take (rune_len s) s = a # u"
    using s(2) [symmetric] by simp
  then show ?thesis
    using s(3) by (simp add: rune_def)
qed

lemma rune_encode_2: "128 \<le> r \<Longrightarrow> r < 2048 \<Longrightarrow> rune (encode_rune r)"
proof -
  assume r: "128 \<le> r" "r < 2048"
  have "2 \<le> r div 64" "r div 64 < 32" "r mod 64 < 64"
    using r by (simp_all add: less_mult_imp_div_less)
  then show ?thesis
    using r by (simp add: rune_def encode_rune_def rune_len_def lead_def byte_in_def Let_def)
qed

lemma rune_encode_3:
  assumes "2048 \<le> r" "r < 65536" "\<not> is_surrogate r"
  shows "rune (encode_rune r)"
proof -
  define x y where "x = r div 4096" and "y = r div 64 mod 64"
  have "x = r div 64 div 64"
    by (simp add: x_def div_mult2_eq [symmetric])
  then have "r div 64 = x * 64 + y" "r = r div 64 * 64 + r mod 64" "r mod 64 < 64" "y < 64"
    by (simp_all add: y_def)
  then have "x < 16" "x = 0 \<longrightarrow> 32 \<le> y" "x = 13 \<longrightarrow> y < 32"
    using assms unfolding is_surrogate_def by linarith+
  then show ?thesis
    using assms \<open>y < 64\<close> \<open>r mod 64 < 64\<close>
    by (auto simp: rune_def encode_rune_def rune_len_def lead_def byte_in_def Let_def x_def [symmetric] y_def [symmetric])
qed

lemma rune_encode_4:
  assumes "65536 \<le> r" "r < 1114112"
  shows "rune (encode_rune r)"
proof -
  define x y where "x = r div 262144" and "y = r div 4096 mod 64"
  have "x = r div 4096 div 64"
    by (simp add: x_def div_mult2_eq [symmetric])
  then have "r div 4096 = x * 64 + y" "r = r div 4096 * 4096 + r mod 4096" "r mod 4096 < 4096" "y < 64"
    by (simp_all add: y_def)
  then have "x < 5" "x = 0 \<longrightarrow> 16 \<le> y" "x = 4 \<longrightarrow> y < 16"
    using assms by linarith+
  then show ?thesis
    using assms \<open>y < 64\<close> pos_mod_bound [of 64]
    by (auto simp: rune_def encode_rune_def rune_len_def lead_def byte_in_def Let_def x_def [symmetric] y_def [symmetric])
qed

lemma rune_encode: "r < 1114112 \<Longrightarrow> \<not> is_surrogate r \<Longrightarrow> rune (encode_rune r)"
  using rune_encode_2 [of r] rune_encode_3 [of r] rune_encode_4 [of r] rune_ascii [of "char_of r"]
  by (cases "r < 128"; cases "r < 2048"; cases "r < 65536") (simp_all add: encode_rune_def [of r])

lemma string_step_None [simp]: "fold string_step s None = None"
  by (induction s) auto

text \<open>The pieces of a literal: an escape of four digits, a short escape, a rune or an invalid byte.\<close>

lemma literal_hex:
  assumes "literal s" "take 2 s = [CHR 0x5C, CHR ''u'']"
  shows "\<exists>r. getu4 s = Some r" "literal (drop 6 s)"
proof -
  obtain s' where s: "s = CHR 0x5C # CHR ''u'' # s'"
    using assms(2) append_take_drop_id [of 2 s] by (metis append_Cons append_Nil)
  then have "fold string_step s' (Some (SHex 4)) = Some SPlain"
    using assms(1) by (simp add: literal_def)
  then obtain h1 h2 h3 h4 t where "s' = h1 # h2 # h3 # h4 # t"
    "hex_value h1 \<noteq> None" "hex_value h2 \<noteq> None" "hex_value h3 \<noteq> None" "hex_value h4 \<noteq> None" "literal t"
    by (cases s'; cases "tl s'"; cases "tl (tl s')"; cases "tl (tl (tl s'))") (auto simp: literal_def split: if_splits)
  then show "\<exists>r. getu4 s = Some r" "literal (drop 6 s)"
    by (auto simp: s getu4_def)
qed

lemma getu4_less: "getu4 s = Some r \<Longrightarrow> r < 65536"
proof -
  have hex: "hex_value c = Some v \<Longrightarrow> v < 16" for c v
    by (auto simp: hex_value_def Let_def split: if_splits)
  show "getu4 s = Some r \<Longrightarrow> r < 65536"
    by (auto simp: getu4_def split: list.splits if_splits option.splits dest!: hex)
qed

lemma unquote_piece_hex_ok:
  assumes "literal s" "take 2 s = [CHR 0x5C, CHR ''u'']" "unquote_piece s = (out, n)"
  shows "rune out \<and> literal (drop n s)"
proof -
  obtain r where r: "getu4 s = Some r"
    using literal_hex assms(1,2) by blast
  show ?thesis
  proof (cases "is_surrogate r")
    case False
    then have "out = encode_rune r" "n = 6"
      using assms(3) r by (auto simp: unquote_piece_def)
    then show ?thesis
      using False literal_hex assms(1,2) rune_encode [of r] getu4_less [OF r] by simp
  next
    case True
    show ?thesis
    proof (cases "surrogate_pair r (drop 6 s)")
      case None
      then show ?thesis
        using assms r True rune_replacement literal_hex by (auto simp: unquote_piece_def)
    next
      case (Some p)
      then have p: "65536 \<le> p" "p < 1114112" "getu4 (drop 6 s) \<noteq> None" "out = encode_rune p" "n = 12"
        using assms(3) r True by (auto simp: surrogate_pair_def unquote_piece_def split: option.splits if_splits)
      then have "take 2 (drop 6 s) = [CHR 0x5C, CHR ''u'']"
        by (auto simp: getu4_def split: list.splits if_splits)
      then have "literal (drop 6 (drop 6 s))"
        using literal_hex assms(1,2) by blast
      then show ?thesis
        using p rune_encode_4 [of p] by simp
    qed
  qed
qed

lemma literal_continuation:
  "\<forall>c \<in> set u. 128 \<le> (of_char c :: nat) \<and> (of_char c :: nat) < 192 \<Longrightarrow> literal (u @ t) = literal t"
  by (induction u) (auto simp: literal_def)

lemma unquote_piece_ok:
  assumes "literal s" "s \<noteq> []" "unquote_piece s = (out, n)"
  shows "rune out \<and> literal (drop n s)"
proof (cases "hd s = CHR 0x5C")
  case True
  then obtain e t where s: "s = CHR 0x5C # e # t"
    using assms(1,2) by (cases s; cases "tl s") (auto simp: literal_def)
  show ?thesis
  proof (cases "e = CHR ''u''")
    case True
    then show ?thesis
      using unquote_piece_hex_ok [of s] assms(1,3) s by simp
  next
    case False
    then have "e \<in> {CHR ''b'', CHR ''f'', CHR ''n'', CHR ''r'', CHR ''t'', CHR 0x5C, CHR ''/'', CHR 0x22}" "literal t"
      using assms(1) s by (auto simp: literal_def split: if_splits)
    moreover have "out = [simple_escape e]" "n = 2"
      using assms(3) s False by (simp_all add: unquote_piece_short)
    moreover have "\<forall>e \<in> {CHR ''b'', CHR ''f'', CHR ''n'', CHR ''r'', CHR ''t'', CHR 0x5C, CHR ''/'', CHR 0x22}.
        (of_char (simple_escape e) :: nat) < 128"
      by (simp add: simple_escape_def)
    ultimately have "(of_char (simple_escape e) :: nat) < 128"
      by blast
    then show ?thesis
      using s rune_ascii \<open>out = _\<close> \<open>n = 2\<close> \<open>literal t\<close> by simp
  qed
next
  case False
  obtain a t where s: "s = a # t"
    using assms(2) by (cases s) auto
  have "literal t"
    using assms(1) False s by (auto simp: literal_def split: if_splits)
  have piece: "unquote_piece s = (if rune_len s = 0 then (replacement, 1) else (take (rune_len s) s, rune_len s))"
    using False s by (cases t) (auto simp: unquote_piece_def getu4_def split: list.splits)
  have "literal (drop (rune_len s) s)" if "1 < rune_len s"
  proof -
    obtain u t' where u: "t = u @ t'" "Suc (length u) = rune_len s"
      "\<forall>c \<in> set u. 128 \<le> (of_char c :: nat) \<and> (of_char c :: nat) < 192"
      using long_rune [OF \<open>1 < rune_len s\<close>] s by (metis list.inject)
    have "drop (rune_len s) s = t'"
      unfolding u(2) [symmetric] using s u(1) by simp
    then show ?thesis
      using \<open>literal t\<close> literal_continuation [of u t'] u by simp
  qed
  moreover have "rune_len s = 0 \<or> rune_len s = 1 \<or> 1 < rune_len s"
    by linarith
  ultimately show ?thesis
    using assms(3) piece s \<open>literal t\<close> rune_replacement rune_front [of s] by (auto split: if_splits)
qed

lemma unquote_valid: "literal s \<Longrightarrow> valid_utf8 (unquote s)"
proof (induction s rule: unquote.induct)
  case (1 s)
  show ?case
  proof (cases "s = []")
    case False
    obtain out n where piece: "unquote_piece s = (out, n)"
      by (cases "unquote_piece s")
    then show ?thesis
      using 1 unquote_piece_ok [OF 1(2) False piece] unquote_step [OF piece False] False by (simp add: valid_utf8_rune)
  qed (simp add: valid_utf8.simps)
qed

text \<open>Every field of a decoded struct holds a value of its kind.\<close>

lemma ParseInt_int64: "ParseInt s = Some n \<Longrightarrow> is_int64 n"
  by (auto simp: ParseInt_def Let_def split: if_splits)

lemma field_of_ok: "jval_ok v \<Longrightarrow> field_of kind v = Some x \<Longrightarrow> field_ok kind x"
  by (auto simp: field_of_def unquote_valid split: field_kind.splits jval.splits dest: ParseInt_int64)

definition decoded_ok :: "struct_type \<Rightarrow> (string \<rightharpoonup> field_value) \<Rightarrow> bool" where
  "decoded_ok flds m \<longleftrightarrow> (\<forall>name x. m name = Some x \<longrightarrow> (\<exists>kind. (name, kind) \<in> set flds \<and> field_ok kind x))"

lemma find_field_mem: "find_field flds key = Some f \<Longrightarrow> f \<in> set flds"
  by (auto simp: find_field_def find_Some_iff split: option.splits) (metis nth_mem)+

lemma store_field_ok: "jval_ok (snd kv) \<Longrightarrow> decoded_ok flds (fst st) \<Longrightarrow> decoded_ok flds (fst (store_field flds kv st))"
  by (auto simp: store_field_def decoded_ok_def dest!: find_field_mem field_of_ok split: option.splits)

lemma Decode_ok:
  assumes "Decode flds b = Inr m"
  shows "decoded_ok flds m"
proof -
  have fold: "decoded_ok flds (fst (fold (store_field flds) kvs st))" if "decoded_ok flds (fst st)" "jval_ok (VObj kvs)" for kvs st
    using that by (induction kvs arbitrary: st) (simp_all add: store_field_ok)
  obtain v where v: "readValue b = Inr v" "unmarshal flds v = Inr m"
    using assms by (auto simp: Decode_def split: sum.splits)
  then consider "m = Map.empty" | kvs where "v = VObj kvs" "m = fst (fold (store_field flds) kvs (Map.empty, False))"
    by (auto simp: unmarshal_def split: jval.splits prod.splits if_splits)
  then show ?thesis
    using fold [of "(Map.empty, False)"] readValue_ok [OF v(1)] by cases (auto simp: decoded_ok_def)
qed

lemma decoded_string: "decoded_ok flds m \<Longrightarrow> valid_utf8 (string_field m name)"
  by (auto simp: string_field_def decoded_ok_def valid_utf8_ascii split: option.splits field_value.splits)
    (metis field_kind.exhaust field_ok.simps(1,3))

lemma decoded_int64: "decoded_ok flds m \<Longrightarrow> is_int64 (int64_field m name)"
  by (auto simp: int64_field_def decoded_ok_def is_int64_def int64_bounds split: option.splits field_value.splits)
    (metis field_kind.exhaust field_ok.simps(2,4) is_int64_def int64_bounds)+

end
