(* ===== verification/Http.thy ===== *)
theory Http
  imports JsonTyped
begin

text \<open>
  HTTP handlers as the sources write them. A handler is a function of its request and of the
  state it works on; what it does to its \<^verbatim>\<open>http.ResponseWriter\<close> is the list of its calls, so a
  middleware that wraps the writer (\<^verbatim>\<open>internal/middleware/metrics.go\<close>,
  \<^verbatim>\<open>internal/middleware/idempotency.go\<close>) sees exactly the calls it intercepts. \<open>render\<close> is what
  the server sends for such a list. Here are also the shared error writer
  (\<^verbatim>\<open>internal/handler/errors.go\<close>) and the CORS middlewares (\<^verbatim>\<open>internal/handler/middleware.go\<close>,
  \<^verbatim>\<open>cmd/api/main.go\<close>).
\<close>

section \<open>The response writer\<close>

datatype wcall = SetHeader string string | WriteHeader int | Write string

type_synonym headers = "string \<rightharpoonup> string"

record response =
  rsp_status :: int
  rsp_headers :: headers
  rsp_body :: string

text \<open>
  The state of the writer: the header map, and once \<^verbatim>\<open>WriteHeader\<close> was called (explicitly, or by
  the first \<^verbatim>\<open>Write\<close>) the status and the headers that were sent. Later calls change neither.
\<close>

record wstate =
  w_header :: headers
  w_sent :: "(int \<times> headers) option"
  w_out :: string

definition w_begin :: "int \<Rightarrow> wstate \<Rightarrow> wstate" where
  "w_begin code w = (if w_sent w = None then w\<lparr>w_sent := Some (code, w_header w)\<rparr> else w)"

fun w_call :: "wcall \<Rightarrow> wstate \<Rightarrow> wstate" where
  "w_call (SetHeader k v) w = w\<lparr>w_header := (w_header w)(k \<mapsto> v)\<rparr>"
| "w_call (WriteHeader code) w = w_begin code w"
| "w_call (Write s) w = (let w' = w_begin 200 w in w'\<lparr>w_out := w_out w' @ s\<rparr>)"

definition render :: "wcall list \<Rightarrow> response" where
  "render calls =
     (let w = fold w_call calls \<lparr>w_header = Map.empty, w_sent = None, w_out = ''''\<rparr>;
          (code, hdr) = the (w_sent (w_begin 200 w))
      in \<lparr>rsp_status = code, rsp_headers = hdr, rsp_body = w_out w\<rparr>)"

section \<open>Requests\<close>

record request =
  req_Method :: string
  req_Path :: string
  req_Header :: headers
  req_RemoteAddr :: string
  req_Body :: body

text \<open>\<^verbatim>\<open>r.Header.Get\<close>: the empty string for an absent header. Header names are canonical.\<close>

definition header_Get :: "request \<Rightarrow> string \<Rightarrow> string" where
  "header_Get r k = (case req_Header r k of None \<Rightarrow> '''' | Some v \<Rightarrow> v)"

type_synonym 's handler = "request \<Rightarrow> 's \<Rightarrow> 's \<times> wcall list"

section \<open>Errors\<close>

definition http_Error :: "string \<Rightarrow> int \<Rightarrow> wcall list" where
  "http_Error msg code =
     [SetHeader ''Content-Type'' ''text/plain; charset=utf-8'',
      SetHeader ''X-Content-Type-Options'' ''nosniff'', WriteHeader code, Write (msg @ [CHR 0x0A])]"

record ProblemDetails =
  pd_Type :: string
  pd_Title :: string
  pd_Status :: int
  pd_Detail :: string
  pd_Instance :: string

definition problem_json :: "ProblemDetails \<Rightarrow> json" where
  "problem_json p = JObject
     [(''type'', JString (pd_Type p)), (''title'', JString (pd_Title p)), (''status'', JInt (pd_Status p)),
      (''detail'', JString (pd_Detail p)), (''instance'', JString (pd_Instance p))]"

definition problem_type :: "int \<Rightarrow> string" where
  "problem_type status =
     (if status = 400 then ''https://vaultpay.com/errors/bad-request''
      else if status = 422 then ''https://vaultpay.com/errors/unprocessable-entity''
      else if status = 404 then ''https://vaultpay.com/errors/not-found''
      else ''https://vaultpay.com/errors/internal-server-error'')"

definition WriteProblemResponse :: "string \<Rightarrow> int \<Rightarrow> string \<Rightarrow> string \<Rightarrow> wcall list" where
  "WriteProblemResponse path status title detail =
     [SetHeader ''Content-Type'' ''application/problem+json'', WriteHeader status,
      Write (json_Encode (problem_json
        \<lparr>pd_Type = problem_type status, pd_Title = title, pd_Status = status, pd_Detail = detail,
         pd_Instance = path\<rparr>))]"

text \<open>A JSON answer: content type, status, encoded value.\<close>

definition write_json :: "int \<Rightarrow> json \<Rightarrow> wcall list" where
  "write_json code v =
     [SetHeader ''Content-Type'' ''application/json'', WriteHeader code, Write (json_Encode v)]"

lemmas writer_defs [http_defs] = render_def w_begin_def http_Error_def WriteProblemResponse_def write_json_def

lemma render_simps [simp]:
  "rsp_status (render (http_Error msg code)) = code"
  "rsp_status (render (WriteProblemResponse path code title detail)) = code"
  "rsp_status (render (write_json code v)) = code"
  "rsp_body (render (write_json code v)) = json_Encode v"
  by (simp_all add: writer_defs)

section \<open>CORS\<close>

definition CORSSecurityMiddleware :: "'s handler \<Rightarrow> 's handler" where
  "CORSSecurityMiddleware nxt r s =
     (let pre = [SetHeader ''Access-Control-Allow-Origin'' ''*'',
                 SetHeader ''Access-Control-Allow-Methods'' ''POST, GET, OPTIONS, PUT, DELETE'',
                 SetHeader ''Access-Control-Allow-Headers'' ''Content-Type, Authorization'']
      in if req_Method r = ''OPTIONS'' then (s, pre @ [WriteHeader 200])
         else (case nxt r s of (s', calls) \<Rightarrow> (s', pre @ calls)))"

definition swaggerCORS :: "'s handler \<Rightarrow> 's handler" where
  "swaggerCORS nxt r s =
     (let pre = [SetHeader ''Access-Control-Allow-Origin'' ''http://localhost:8081'',
                 SetHeader ''Access-Control-Allow-Methods'' ''POST, GET, OPTIONS, PUT, DELETE'',
                 SetHeader ''Access-Control-Allow-Headers''
                   ''Accept, Content-Type, Content-Length, Accept-Encoding, X-CSRF-Token, Authorization'']
      in if req_Method r = ''OPTIONS'' then (s, pre @ [WriteHeader 200])
         else (case nxt r s of (s', calls) \<Rightarrow> (s', pre @ calls)))"

section \<open>Metrics\<close>

text \<open>
  The interceptor keeps the code of the last \<^verbatim>\<open>WriteHeader\<close> it sees, initially 200. The counter is
  a function of its labels; \<open>duration\<close> is what the clock measured.
\<close>

fun last_code :: "int \<Rightarrow> wcall list \<Rightarrow> int" where
  "last_code code [] = code"
| "last_code code (WriteHeader c # calls) = last_code c calls"
| "last_code code (x # calls) = last_code code calls"

record metrics =
  httpRequestsTotal :: "string \<times> string \<times> string \<Rightarrow> nat"
  httpRequestDuration :: "string \<times> string \<Rightarrow> duration list"

definition MetricsTracker :: "gotime \<Rightarrow> gotime \<Rightarrow> 's handler \<Rightarrow> (metrics \<times> 's) handler" where
  "MetricsTracker startTime endTime nxt r ms =
     (case ms of (m, s) \<Rightarrow>
        (case nxt r s of (s', calls) \<Rightarrow>
           (let key = (req_Path r, req_Method r, itoa (last_code 200 calls)) in
            ((m\<lparr>httpRequestsTotal := (httpRequestsTotal m)(key := httpRequestsTotal m key + 1),
                httpRequestDuration := (httpRequestDuration m)((req_Path r, req_Method r) :=
                   httpRequestDuration m (req_Path r, req_Method r) @ [time_Since endTime startTime])\<rparr>, s'), calls))))"

end
