(* ===== verification/RateLimit.thy ===== *)
theory RateLimit
  imports Redis Http
begin

text \<open>
  The two rate limiters: the sliding window kept in Redis
  (\<^verbatim>\<open>internal/middleware/rate_limiter.go\<close>) and the per-address limiter kept in the process
  (\<^verbatim>\<open>internal/handler/middleware.go\<close>), whose token bucket is a third-party type and an argument.
\<close>

section \<open>The sliding window in Redis\<close>

text \<open>The Lua script, one step on the server. The member it adds is the decimal text of the second.\<close>

definition luaScript :: "'r redis \<Rightarrow> int \<Rightarrow> string \<Rightarrow> int \<Rightarrow> int \<Rightarrow> int \<Rightarrow> 'r \<Rightarrow> int \<times> 'r" where
  "luaScript srv t key now window limit r =
     (let r1 = r_zremrangebyscore srv t key 0 (now - window) r;
          current = r_zcard srv t key r1
      in if current \<ge> limit then (0, r1)
         else (1, r_expire srv t key window (r_zadd srv t key now (itoa now) r1)))"

definition rate_key :: "request \<Rightarrow> string" where
  "rate_key r =
     (let apiKey = header_Get r ''X-Api-Key'' in
      ''ratelimit:'' @ (if apiKey = '''' then ''anonymous_global_client'' else apiKey))"

definition Limit :: "'r redis \<Rightarrow> net \<Rightarrow> int \<Rightarrow> gotime \<Rightarrow> ('r \<times> 's) handler \<Rightarrow> ('r \<times> 's) handler" where
  "Limit srv net t now nxt r rs =
     (case rs of (rst, s) \<Rightarrow>
        (let window = 60; limit = 1000 in
         case redis_call net (luaScript srv t (rate_key r) (time_Unix now) window limit) rst of
           (rst', Inl e) \<Rightarrow> ((rst', s), http_Error ''Rate limiting calculation failure'' 500)
         | (rst', Inr res) \<Rightarrow>
             if res = 0
             then ((rst', s), SetHeader ''Retry-After'' (itoa window)
                    # http_Error ''Too Many Requests - Rate limit exceeded. Slow down your pipelines.'' 429)
             else nxt r (rst', s)))"

text \<open>The script is a sequence of commands on its key.\<close>

lemma script_traffic:
  assumes "traffic srv t' k r r1" and "t \<le> t'" and "key \<noteq> k"
  shows "traffic srv t' k r (fst (redis_call net (luaScript srv t key now window limit) r1))"
  using assms by (intro traffic_call) (auto simp: luaScript_def Let_def intro: by_zrem by_zadd by_expire)

subsection \<open>What the window can hold\<close>

text \<open>Calls of the script, with their network outcome, server time, key and second.\<close>

type_synonym window_call = "net \<times> int \<times> string \<times> int"

definition window_step :: "'r redis \<Rightarrow> window_call \<Rightarrow> 'r \<Rightarrow> 'r" where
  "window_step srv c r = (case c of (net, t, key, now) \<Rightarrow> fst (redis_call net (luaScript srv t key now 60 1000) r))"

context redis_server
begin

text \<open>From time \<open>t\<close> on, the set of \<open>key\<close> holds only past seconds, each as its own member.\<close>

definition window_inv :: "int \<Rightarrow> int \<Rightarrow> string \<Rightarrow> 'r \<Rightarrow> bool" where
  "window_inv t n key r \<longleftrightarrow> (\<forall>t' \<ge> t. sview t' r key = None
     \<and> (\<forall>m s. zview t' r key m = Some s \<longrightarrow> m = itoa s \<and> 0 \<le> s \<and> s \<le> n))"

lemma window_inv_later: "window_inv t n key r \<Longrightarrow> t \<le> t' \<Longrightarrow> n \<le> n' \<Longrightarrow> window_inv t' n' key r"
  unfolding window_inv_def by (meson order_trans)

lemma script_other_key:
  assumes "window_inv t n key r" and "key' \<noteq> key"
  shows "window_inv t n key (snd (luaScript srv t key' now window limit r))"
  using assms sview_z[of t _ key key'] zrem[of t _ key'] zadd_other[of t _ key key'] expire_other[of t _ key key']
  by (auto simp: window_inv_def luaScript_def Let_def)

lemma script_admits:
  assumes inv: "window_inv t n key r" and now: "0 \<le> now" "n \<le> now"
  shows "fst (luaScript srv t key now 60 1000 r) = 1"
    and "window_inv t now key (snd (luaScript srv t key now 60 1000 r))"
proof -
  let ?r1 = "r_zremrangebyscore srv t key 0 (now - 60) r"
  let ?r2 = "r_zadd srv t key now (itoa now) ?r1"
  have none: "sview t' r key = None" if "t \<le> t'" for t' using inv that by (simp add: window_inv_def)
  have z1: "m = itoa s \<and> now - 60 < s \<and> s \<le> now" if "zview t ?r1 key m = Some s" for m s
  proof -
    have "zview t r key m = Some s" "\<not> (0 \<le> s \<and> s \<le> now - 60)"
      using that by (auto simp: zrem restrict_map_def split: if_splits)
    moreover from this(1) inv have "m = itoa s" "0 \<le> s" "s \<le> n" by (auto simp: window_inv_def)
    ultimately show ?thesis using now by simp
  qed
  have "dom (zview t ?r1 key) \<subseteq> itoa ` {now - 60 <.. now}" using z1 by fastforce
  then have "card (dom (zview t ?r1 key)) \<le> card (itoa ` {now - 60 <.. now})" by (intro card_mono) auto
  also have "\<dots> \<le> card {now - 60 <.. now}" by (rule card_image_le) simp
  finally have "r_zcard srv t key ?r1 \<le> 60" by (simp add: zcard)
  then have run: "luaScript srv t key now 60 1000 r = (1, r_expire srv t key 60 ?r2)"
    by (simp add: luaScript_def)
  then show "fst (luaScript srv t key now 60 1000 r) = 1" by simp
  have s1: "sview t' ?r1 key = None" if "t \<le> t'" for t'
    using sview_z[OF that, of key key r 0 "now - 60"] none that by simp
  have s2: "sview t' ?r2 key = None" if "t \<le> t'" for t'
    using sview_z[OF that, of key key ?r1] s1 that by simp
  have "sview t' (r_expire srv t key 60 ?r2) key = None" if "t \<le> t'" for t'
    using sview_z[OF that, of key key ?r2] s2 that by simp
  moreover have "m = itoa s \<and> 0 \<le> s \<and> s \<le> now"
    if t': "t \<le> t'" and m: "zview t' (r_expire srv t key 60 ?r2) key m = Some s" for t' m s
  proof -
    have "zview t ?r2 key m = Some s" using m expire[OF t', of 60 key ?r2] by (auto split: if_splits)
    then have "((zview t ?r1 key)(itoa now \<mapsto> now)) m = Some s" using zadd[OF s1] by simp
    moreover have "0 \<le> s" if "zview t ?r1 key m = Some s"
      using that inv by (auto simp: zrem window_inv_def restrict_map_def split: if_splits)
    ultimately show ?thesis using z1 now by (auto split: if_splits)
  qed
  ultimately show "window_inv t now key (snd (luaScript srv t key now 60 1000 r))"
    by (simp add: run window_inv_def)
qed

lemma window_run:
  assumes "window_inv t n key r" and "sorted (t # map (\<lambda>(net, u, k, now). u) cs)"
    and "sorted (n # map (\<lambda>(net, u, k, now). now) cs)" and "0 \<le> n"
  shows "window_inv (last (t # map (\<lambda>(net, u, k, now). u) cs)) (last (n # map (\<lambda>(net, u, k, now). now) cs)) key
    (fold (window_step srv) cs r)"
  using assms
proof (induction cs arbitrary: t n r)
  case (Cons c cs)
  obtain net u k now where c: "c = (net, u, k, now)" by (metis prod_cases4)
  have le: "t \<le> u" "n \<le> now" "0 \<le> now" using Cons.prems by (auto simp: c)
  have inv: "window_inv u now key r" using window_inv_later[OF Cons.prems(1)] le by simp
  have "window_inv u now key (snd (luaScript srv u k now 60 1000 r))"
  proof (cases "k = key")
    case True
    then show ?thesis using script_admits(2)[OF inv] le by simp
  qed (rule script_other_key[OF inv])
  then have "window_inv u now key (window_step srv c r)"
    using redis_call_cases(1)[of net "luaScript srv u k now 60 1000" r] inv by (auto simp: c window_step_def)
  from Cons.IH[OF this] Cons.prems le show ?case by (auto simp: c)
qed simp

end

text \<open>
  C31. The Redis limiter never refuses anyone: starting without an entry for the key, after any
  sequence of calls for this and other keys whose clock readings do not go back, the script
  still admits the next request, however many arrived in the last minute. The member added
  for a request is its second, so the set of a minute never has more than 60 members.
\<close>

theorem redis_limiter_never_blocks:
  assumes srv: "redis_server srv sview zview"
    and fresh: "\<And>u. t0 \<le> u \<Longrightarrow> sview u r (rate_key req) = None" "\<And>u. t0 \<le> u \<Longrightarrow> zview u r (rate_key req) = Map.empty"
    and times: "sorted (t0 # map (\<lambda>(net, u, k, now). u) cs @ [t])"
      "sorted (0 # map (\<lambda>(net, u, k, now). now) cs @ [time_Unix now])"
  shows "Limit srv NetOk t now nxt req (fold (window_step srv) cs r, s) =
    nxt req (snd (luaScript srv t (rate_key req) (time_Unix now) 60 1000 (fold (window_step srv) cs r)), s)"
proof -
  let ?r = "fold (window_step srv) cs r" and ?u = "time_Unix now"
  have "redis_server.window_inv sview zview t0 0 (rate_key req) r"
    using fresh by (simp add: redis_server.window_inv_def[OF srv])
  from redis_server.window_run[OF srv this, of cs] times
  have "redis_server.window_inv sview zview (last (t0 # map (\<lambda>(net, u, k, now). u) cs))
      (last (0 # map (\<lambda>(net, u, k, now). now) cs)) (rate_key req) ?r"
    by (simp add: sorted_append)
  moreover have "last (t0 # map (\<lambda>(net, u, k, now). u) cs) \<le> t" "last (0 # map (\<lambda>(net, u, k, now). now) cs) \<le> ?u" "0 \<le> ?u"
    using sorted_snoc_last[OF times(1)] sorted_snoc_last[OF times(2)] times by (simp_all add: sorted_append)
  ultimately have "redis_server.window_inv sview zview t ?u (rate_key req) ?r"
    by (auto intro: redis_server.window_inv_later[OF srv])
  from redis_server.script_admits(1)[OF srv this] \<open>0 \<le> ?u\<close>
  have "fst (luaScript srv t (rate_key req) ?u 60 1000 ?r) = 1" by simp
  then show ?thesis by (simp add: Limit_def Let_def split: prod.splits)
qed

definition request0 :: request where
  "request0 = \<lparr>req_Method = ''POST'', req_Path = ''/v1/charges'', req_Header = Map.empty, req_RemoteAddr = ''10.0.0.1:999'', req_Body = ('''', None)\<rparr>"

text \<open>Two thousand requests in one second, and the next is still admitted.\<close>

theorem redis_limiter_never_blocks_witness:
  "snd (Limit keyspace_server NetOk (7 * Second) (time_Add \<lparr>wall = 0, mono = None\<rparr> (7 * Second)) (\<lambda>r (rst, n). ((rst, n + 1), [WriteHeader 200]))
     request0 (fold (window_step keyspace_server)
       (replicate 2000 (NetOk, 7 * Second, rate_key request0, 7)) (\<lambda>_. None), 0 :: nat)) = [WriteHeader 200]"
proof -
  show ?thesis
    by (subst redis_limiter_never_blocks[OF keyspace.redis_server_axioms, where ?t0.0 = 0])
      (simp_all add: time_Unix_def time_Add_def sorted_append ks_string_def ks_scores_def ks_members_def ks_live_def duration_defs)
qed

section \<open>The per-address limiter\<close>

text \<open>\<^verbatim>\<open>net.SplitHostPort\<close>, of which the middleware uses the host and whether there was an error.\<close>

fun index_byte :: "char \<Rightarrow> string \<Rightarrow> nat option" where
  "index_byte c [] = None"
| "index_byte c (x # xs) = (if x = c then Some 0 else map_option Suc (index_byte c xs))"

definition last_index_byte :: "char \<Rightarrow> string \<Rightarrow> nat option" where
  "last_index_byte c s = map_option (\<lambda>i. length s - 1 - i) (index_byte c (rev s))"

definition SplitHost :: "string \<Rightarrow> string option" where
  "SplitHost hostport =
     (case last_index_byte (CHR '':'') hostport of
        None \<Rightarrow> None
      | Some i \<Rightarrow>
          (if hd hostport = CHR ''['' then
             (case index_byte (CHR '']'') hostport of
                None \<Rightarrow> None
              | Some e \<Rightarrow>
                  if e + 1 = i \<and> CHR ''['' \<notin> set (drop 1 hostport) \<and> CHR '']'' \<notin> set (drop (e + 1) hostport)
                  then Some (take (e - 1) (drop 1 hostport)) else None)
           else
             (let host = take i hostport in
              if CHR '':'' \<in> set host \<or> CHR ''['' \<in> set hostport \<or> CHR '']'' \<in> set hostport then None
              else Some host)))"

record 'l client =
  limiter :: 'l
  lastSeen :: gotime

type_synonym 'l clients = "string \<rightharpoonup> 'l client"

text \<open>
  The section under the mutex: \<open>now\<close> is the reading stored in \<^verbatim>\<open>lastSeen\<close>, \<open>now'\<close> the one \<^verbatim>\<open>Allow\<close> takes.
  \<open>allow\<close> and \<open>fresh\<close> are \<^verbatim>\<open>Allow\<close> and \<^verbatim>\<open>rate.NewLimiter(5, 10)\<close>.
\<close>

definition admit :: "(gotime \<Rightarrow> 'l \<Rightarrow> bool \<times> 'l) \<Rightarrow> 'l \<Rightarrow> gotime \<Rightarrow> gotime \<Rightarrow> string \<Rightarrow> 'l clients \<Rightarrow> bool \<times> 'l clients" where
  "admit allow fresh now now' ip clients =
     (let l = (case clients ip of None \<Rightarrow> fresh | Some c \<Rightarrow> limiter c);
          (ok, l') = allow now' l
      in (ok, clients(ip \<mapsto> \<lparr>limiter = l', lastSeen = now\<rparr>)))"

definition RateLimitMiddleware ::
    "(gotime \<Rightarrow> 'l \<Rightarrow> bool \<times> 'l) \<Rightarrow> 'l \<Rightarrow> gotime \<Rightarrow> gotime \<Rightarrow> 's handler \<Rightarrow> ('l clients \<times> 's) handler" where
  "RateLimitMiddleware allow fresh now now' nxt r cs =
     (case cs of (clients, s) \<Rightarrow>
        (case SplitHost (req_RemoteAddr r) of
           None \<Rightarrow> ((clients, s), WriteProblemResponse (req_Path r) 400 ''Invalid Remote Address''
                     ''Could not evaluate client origin IP pointer mappings.'')
         | Some ip \<Rightarrow>
             (case admit allow fresh now now' ip clients of (ok, clients') \<Rightarrow>
                if \<not> ok
                then ((clients', s), SetHeader ''Retry-After'' ''1''
                       # WriteProblemResponse (req_Path r) 429 ''Rate Limit Exceeded''
                         ''You have generated too many automated concurrent queries. Please wait before retrying.'')
                else (case nxt r s of (s', calls) \<Rightarrow> ((clients', s'), calls)))))"

text \<open>One round of the background cleaner; the clock is read once per entry.\<close>

definition clean :: "(string \<Rightarrow> gotime) \<Rightarrow> 'l clients \<Rightarrow> 'l clients" where
  "clean now clients ip = (case clients ip of
     None \<Rightarrow> None
   | Some c \<Rightarrow> if time_Since (now ip) (lastSeen c) > 3 * Minute then None else Some c)"

subsection \<open>Evicting idle clients\<close>

text \<open>
  The law of the token bucket the eviction relies on: the bucket of 10 tokens refilled at 5
  per second is full after 2 idle seconds, so it then decides like a fresh one.
\<close>

definition reading :: "int \<Rightarrow> gotime" where
  "reading m = \<lparr>wall = m, mono = Some m\<rparr>"

lemma Since_reading [simp]: "time_Since (reading a) (reading b) = sat64 (a - b)"
  by (simp add: time_Since_def time_Sub_def reading_def)

locale token_bucket =
  fixes allow :: "gotime \<Rightarrow> 'l \<Rightarrow> bool \<times> 'l" and fresh :: 'l
  assumes refilled: "allow (reading a) l = (ok, l') \<Longrightarrow> a + 2 * Second \<le> b \<Longrightarrow>
    allow (reading b) l' = allow (reading b) fresh"

text \<open>Arrivals (with the two clock readings) and rounds of the cleaner, ended by time \<open>b\<close>.\<close>

datatype limiter_event = Arrival int int string | Cleaning "string \<Rightarrow> int" int

fun decisions :: "(gotime \<Rightarrow> 'l \<Rightarrow> bool \<times> 'l) \<Rightarrow> 'l \<Rightarrow> limiter_event list \<Rightarrow> 'l clients \<Rightarrow> bool list" where
  "decisions allow fresh [] clients = []"
| "decisions allow fresh (Arrival a b ip # evs) clients =
     (let (ok, clients') = admit allow fresh (reading a) (reading b) ip clients
      in ok # decisions allow fresh evs clients')"
| "decisions allow fresh (Cleaning f b # evs) clients =
     decisions allow fresh evs (clean (\<lambda>ip. reading (f ip)) clients)"

text \<open>Clock readings do not go back, and a request holds the mutex for less than a minute.\<close>

fun well_timed :: "int \<Rightarrow> limiter_event list \<Rightarrow> bool" where
  "well_timed m [] = True"
| "well_timed m (Arrival a b ip # evs) = (m \<le> a \<and> a \<le> b \<and> b \<le> a + Minute \<and> well_timed b evs)"
| "well_timed m (Cleaning f b # evs) = ((\<forall>ip. m \<le> f ip \<and> f ip \<le> b) \<and> m \<le> b \<and> well_timed b evs)"

fun is_arrival :: "limiter_event \<Rightarrow> bool" where
  "is_arrival (Arrival a b ip) = True"
| "is_arrival (Cleaning f b) = False"

context token_bucket
begin

definition used :: "'l client \<Rightarrow> bool" where
  "used c \<longleftrightarrow> (\<exists>a b l ok. lastSeen c = reading a \<and> allow (reading b) l = (ok, limiter c) \<and> b \<le> a + Minute)"

definition stale :: "int \<Rightarrow> 'l client \<Rightarrow> bool" where
  "stale m c \<longleftrightarrow> (\<forall>b \<ge> m. allow (reading b) (limiter c) = allow (reading b) fresh)"

text \<open>The map with evictions against the map without: an entry is the same, or missing and stale.\<close>

definition simulates :: "int \<Rightarrow> 'l clients \<Rightarrow> 'l clients \<Rightarrow> bool" where
  "simulates m C D \<longleftrightarrow> (\<forall>ip. (C ip = D ip \<or> C ip = None \<and> (\<exists>c. D ip = Some c \<and> stale m c))
     \<and> (\<forall>c. D ip = Some c \<longrightarrow> used c))"

lemma simulatesD: "simulates m C D \<Longrightarrow> C ip = D ip \<or> C ip = None \<and> (\<exists>c. D ip = Some c \<and> stale m c)"
  by (simp add: simulates_def)

lemma simulates_used: "simulates m C D \<Longrightarrow> D ip = Some c \<Longrightarrow> used c"
  by (simp add: simulates_def)

lemma stale_later: "stale m c \<Longrightarrow> m \<le> m' \<Longrightarrow> stale m' c"
  by (simp add: stale_def)

lemma simulates_later: "simulates m C D \<Longrightarrow> m \<le> m' \<Longrightarrow> simulates m' C D"
  unfolding simulates_def by (meson stale_later)

lemma evicted_stale:
  assumes "used c" and "3 * Minute < time_Since (reading a) (lastSeen c)" and "a \<le> b"
  shows "stale b c"
proof -
  from assms(1) obtain a0 b0 l ok where u: "lastSeen c = reading a0" "allow (reading b0) l = (ok, limiter c)"
    "b0 \<le> a0 + Minute" by (auto simp: used_def)
  have "3 * Minute < a - a0" using assms(2) u(1) by (simp add: sat64_gt_iff int64_bounds duration_defs)
  with u(3) assms(3) have "b0 + 2 * Second \<le> b" by (simp add: duration_defs)
  with refilled[OF u(2)] show ?thesis by (simp add: stale_def)
qed

lemma clean_simulates:
  assumes "simulates m C D" and "\<And>ip. m \<le> f ip \<and> f ip \<le> b" and "m \<le> b"
  shows "simulates b (clean (\<lambda>ip. reading (f ip)) C) D"
proof -
  have S: "simulates b C D" using assms(1,3) by (rule simulates_later)
  show ?thesis
    unfolding simulates_def
  proof (intro allI conjI)
    fix ip
    show "clean (\<lambda>ip. reading (f ip)) C ip = D ip \<or>
        clean (\<lambda>ip. reading (f ip)) C ip = None \<and> (\<exists>c. D ip = Some c \<and> stale b c)"
    proof (cases "C ip")
      case None
      with simulatesD[OF S, of ip] show ?thesis by (auto simp: clean_def)
    next
      case (Some c)
      with simulatesD[OF S, of ip] have "D ip = Some c" by auto
      with simulates_used[OF S] have D: "D ip = Some c" "used c" by auto
      have "stale b c" if "3 * Minute < time_Since (reading (f ip)) (lastSeen c)"
        using evicted_stale[OF D(2) that] assms(2) by blast
      with Some D show ?thesis by (auto simp: clean_def)
    qed
    show "D ip = Some c \<longrightarrow> used c" for c using simulates_used[OF S] by blast
  qed
qed

lemma admit_simulates:
  assumes S: "simulates m C D" and t: "m \<le> a" "a \<le> b" "b \<le> a + Minute"
  shows "\<exists>ok C' D'. admit allow fresh (reading a) (reading b) ip C = (ok, C')
    \<and> admit allow fresh (reading a) (reading b) ip D = (ok, D') \<and> simulates b C' D'"
proof -
  let ?l = "\<lambda>X. case X ip of None \<Rightarrow> fresh | Some c \<Rightarrow> limiter c"
  have same: "allow (reading b) (?l C) = allow (reading b) (?l D)"
  proof (cases "C ip = D ip")
    case False
    then obtain c where c: "C ip = None" "D ip = Some c" "stale m c" using S by (auto simp: simulates_def)
    then have "allow (reading b) (limiter c) = allow (reading b) fresh" using t by (simp add: stale_def)
    with c show ?thesis by simp
  qed simp
  obtain ok l' where al: "allow (reading b) (?l D) = (ok, l')" by fastforce
  let ?c = "\<lparr>limiter = l', lastSeen = reading a\<rparr>"
  have "used ?c" using al t(3) by (auto simp: used_def)
  moreover have "simulates b C D" using S t by (intro simulates_later[OF S]) simp
  ultimately have "simulates b (C(ip \<mapsto> ?c)) (D(ip \<mapsto> ?c))" by (simp add: simulates_def)
  with same al show ?thesis by (auto simp: admit_def)
qed

lemma decisions_simulate:
  "simulates m C D \<Longrightarrow> well_timed m evs \<Longrightarrow>
     decisions allow fresh evs C = decisions allow fresh (filter is_arrival evs) D"
proof (induction evs arbitrary: m C D)
  case (Cons ev evs)
  show ?case
  proof (cases ev)
    case (Arrival a b ip)
    with Cons.prems(2) have t: "m \<le> a" "a \<le> b" "b \<le> a + Minute" "well_timed b evs" by auto
    obtain ok C' D' where "admit allow fresh (reading a) (reading b) ip C = (ok, C')"
      "admit allow fresh (reading a) (reading b) ip D = (ok, D')" "simulates b C' D'"
      using admit_simulates[OF Cons.prems(1) t(1-3)] by blast
    with Cons.IH[OF this(3) t(4)] Arrival show ?thesis by simp
  next
    case (Cleaning f b)
    with Cons.prems(2) have t: "\<And>ip. m \<le> f ip \<and> f ip \<le> b" "m \<le> b" "well_timed b evs" by auto
    from Cons.IH[OF clean_simulates[OF Cons.prems(1) t(1,2)] t(3)] Cleaning show ?thesis by simp
  qed
qed simp

end

text \<open>
  C30. Evicting idle clients is unobservable: whatever requests arrive and whenever the cleaner
  runs, every request gets the decision it would get if no client were ever evicted.
\<close>

theorem eviction_unobservable:
  assumes "token_bucket allow fresh" and "well_timed m evs"
  shows "decisions allow fresh evs Map.empty = decisions allow fresh (filter is_arrival evs) Map.empty"
proof -
  have "token_bucket.simulates allow fresh m Map.empty Map.empty"
    by (simp add: token_bucket.simulates_def[OF assms(1)])
  from token_bucket.decisions_simulate[OF assms(1) this assms(2)] show ?thesis .
qed

text \<open>A token bucket: a token is 200 ms of credit, the capacity is 2 s.\<close>

definition bucket_allow :: "gotime \<Rightarrow> nat \<times> int option \<Rightarrow> bool \<times> nat \<times> int option" where
  "bucket_allow t l =
     (case (l, mono t) of
        ((credit, Some u), Some m) \<Rightarrow>
          (let c = min 2000000000 (credit + nat (m - u))
           in if c \<ge> 200000000 then (True, c - 200000000, Some m) else (False, c, Some m))
      | (_, m) \<Rightarrow> (True, 1800000000, m))"

interpretation bucket: token_bucket bucket_allow "(2000000000, None)"
proof
  fix a l ok l' b assume al: "bucket_allow (reading a) l = (ok, l')" and "a + 2 * Second \<le> b"
  then have ge: "2000000000 \<le> nat (b - a)" by (simp add: duration_defs)
  obtain c where l': "l' = (c, Some a)"
    using al by (auto simp: bucket_allow_def reading_def Let_def split: prod.splits option.splits if_splits)
  show "bucket_allow (reading b) l' = bucket_allow (reading b) (2000000000, None)"
    using ge by (simp add: l' bucket_allow_def reading_def Let_def min_def)
qed

theorem eviction_unobservable_witness:
  "decisions bucket_allow (2000000000, None)
     [Arrival 0 1 ''10.0.0.1'', Cleaning (\<lambda>_. 200 * Second) (200 * Second), Arrival (201 * Second) (201 * Second) ''10.0.0.1'']
     Map.empty = [True, True]"
proof -
  have "well_timed 0 [Arrival 0 1 ''10.0.0.1'', Cleaning (\<lambda>_. 200 * Second) (200 * Second),
      Arrival (201 * Second) (201 * Second) ''10.0.0.1'']"
    by (simp add: duration_defs)
  from eviction_unobservable[OF bucket.token_bucket_axioms this] show ?thesis
    by (simp add: admit_def bucket_allow_def reading_def Let_def duration_defs)
qed

end
