(* ===== verification/PaymentHandler.thy ===== *)
theory PaymentHandler
  imports Ledger RedisLock Http
begin

text \<open>
  The charge and refund handlers (\<^verbatim>\<open>internal/handler/payment_handler.go\<close>), from the bytes of
  the request body to the calls on the response writer; the tracing calls have no effect on the response or the
  state. The charge handler works on the Redis store, for its lock, and on the database.
\<close>

record ChargeRequest =
  cr_UserID :: string
  cr_Amount :: int
  cr_Currency :: string

record RefundRequest =
  rr_PaymentID :: string

text \<open>The tags of the two structs, and \<^verbatim>\<open>json.NewDecoder(r.Body).Decode(&req)\<close> into them.\<close>

definition ChargeRequest_fields :: struct_type where
  "ChargeRequest_fields = [(''user_id'', StringField), (''amount'', Int64Field), (''currency'', StringField)]"

definition DecodeChargeRequest :: "body \<Rightarrow> ChargeRequest result" where
  "DecodeChargeRequest b =
     (case Decode ChargeRequest_fields b of
        Inl e \<Rightarrow> Inl e
      | Inr m \<Rightarrow> Inr \<lparr>cr_UserID = string_field m ''user_id'', cr_Amount = int64_field m ''amount'', cr_Currency = string_field m ''currency''\<rparr>)"

definition RefundRequest_fields :: struct_type where
  "RefundRequest_fields = [(''payment_id'', StringField)]"

definition DecodeRefundRequest :: "body \<Rightarrow> RefundRequest result" where
  "DecodeRefundRequest b =
     (case Decode RefundRequest_fields b of
        Inl e \<Rightarrow> Inl e
      | Inr m \<Rightarrow> Inr \<lparr>rr_PaymentID = string_field m ''payment_id''\<rparr>)"

definition payment_json :: "Payment \<Rightarrow> json" where
  "payment_json p = JObject
     [(''id'', JString (p_ID p)), (''user_id'', JString (p_UserID p)), (''amount'', JInt (p_Amount p)),
      (''currency'', JString (p_Currency p)), (''status'', JString (p_Status p)),
      (''created_at'', JTime (p_CreatedAt p)), (''updated_at'', JTime (p_UpdatedAt p))]"

text \<open>What the clocks and the network do during one charge request.\<close>

record charge_env =
  ce_acquire :: net
  ce_acquire_at :: int
  ce_token_now :: gotime
  ce_release :: net
  ce_release_at :: int
  ce_now :: gotime

definition conflict_body :: string where
  "conflict_body = ''{'' @ json_string ''error'' @ '': ''
     @ json_string (''Transaction processing in progress. Please don'' @ [CHR 0x27] @ ''t double click.'') @ ''}''"

definition CreateChargeHandler ::
    "'r redis \<Rightarrow> 'd PaymentService \<Rightarrow> ('d \<Rightarrow> 'd \<Rightarrow> 'd \<times> goerr option) \<Rightarrow> charge_env \<Rightarrow>
     body \<Rightarrow> 'r \<times> 'd \<Rightarrow> ('r \<times> 'd) \<times> wcall list" where
  "CreateChargeHandler srv svc commit env b st =
     (case (DecodeChargeRequest b, st) of
        (Inl e, _) \<Rightarrow> (st, http_Error ''Malformed JSON layout string'' 400)
      | (Inr req, (rst, d)) \<Rightarrow>
          if cr_UserID req = '''' then (st, http_Error ''user_id is a mandatory required field'' 422)
          else if cr_Amount req \<le> 0 then (st, http_Error ''transaction amount must be strictly positive'' 422)
          else if cr_Currency req \<noteq> ''USD'' \<and> cr_Currency req \<noteq> ''INR''
          then (st, http_Error ''Invalid currency. Only USD and INR are supported.'' 422)
          else (let lockKey = cr_UserID req in
            case AcquireLock srv (ce_acquire env) (ce_acquire_at env) (ce_token_now env) lockKey (5 * Second) rst of
              (rst1, Inl e) \<Rightarrow>
                if errors_Is e ErrLockHeld
                then ((rst1, d), [SetHeader ''Content-Type'' ''application/json'', WriteHeader 409, Write conflict_body])
                else ((rst1, d), http_Error ''Internal concurrency lock malfunction'' 500)
            | (rst1, Inr lockToken) \<Rightarrow>
                (case ProcessCharge svc commit (ce_now env) d (cr_UserID req) (cr_Amount req) (cr_Currency req) of
                   (d', res) \<Rightarrow>
                     (let rst2 = fst (ReleaseLock srv (ce_release env) (ce_release_at env) lockKey lockToken rst1) in
                      case res of
                        Inl e \<Rightarrow> ((rst2, d'), http_Error (Error e) 422)
                      | Inr payment \<Rightarrow> ((rst2, d'), write_json 200 (payment_json payment))))))"

definition CreateRefundHandler ::
    "'d PaymentService \<Rightarrow> body \<Rightarrow> 'd \<Rightarrow> 'd \<times> wcall list" where
  "CreateRefundHandler svc b d =
     (case DecodeRefundRequest b of
        Inl e \<Rightarrow> (d, http_Error ''Malformed JSON layout payload string'' 400)
      | Inr req \<Rightarrow>
          if rr_PaymentID req = '''' then (d, http_Error ''payment_id is a mandatory tracking field'' 422)
          else (case ProcessRefund svc d (rr_PaymentID req) of
             (d', Inl e) \<Rightarrow> (d', http_Error (Error e) 422)
           | (d', Inr payment) \<Rightarrow> (d', write_json 200 (payment_json payment))))"

lemmas handler_defs [http_defs] = CreateChargeHandler_def CreateRefundHandler_def

abbreviation ChargeHandlerOn :: "'r redis \<Rightarrow> pg \<Rightarrow> charge_env \<Rightarrow> body \<Rightarrow> 'r \<times> db \<Rightarrow> ('r \<times> db) \<times> wcall list" where
  "ChargeHandlerOn srv pg \<equiv> CreateChargeHandler srv (sql_service pg) (tx_Commit pg)"

section \<open>Statuses and effects\<close>

lemma render_conflict: "rsp_status (render [SetHeader a b, WriteHeader c, Write s]) = c"
  by (simp add: writer_defs)

lemma ErrLockHeld_acquire:
  "AcquireLock srv net t now key ttl r = (r', Inl e) \<Longrightarrow> errors_Is e ErrLockHeld \<Longrightarrow> net = NetOk \<Longrightarrow> e = ErrLockHeld"
  by (auto simp: AcquireLock_def Let_def split: if_splits)

text \<open>
  The handler gets as far as the service exactly for a well-formed request whose lock it acquired.
\<close>

definition admitted :: "'r redis \<Rightarrow> charge_env \<Rightarrow> body \<Rightarrow> 'r \<Rightarrow> ChargeRequest \<Rightarrow> bool" where
  "admitted srv env b rst req \<longleftrightarrow> DecodeChargeRequest b = Inr req \<and> cr_UserID req \<noteq> '''' \<and> 0 < cr_Amount req
     \<and> cr_Currency req \<in> {''USD'', ''INR''}
     \<and> (\<exists>rst1 tok. AcquireLock srv (ce_acquire env) (ce_acquire_at env) (ce_token_now env) (cr_UserID req) (5 * Second) rst
         = (rst1, Inr tok))"

lemma admitted_run:
  assumes "admitted srv env b rst req"
    and "CreateChargeHandler srv svc commit env b (rst, d) = ((rst', d'), calls)"
    and "ProcessCharge svc commit (ce_now env) d (cr_UserID req) (cr_Amount req) (cr_Currency req) = (d1, res)"
  shows "d' = d1 \<and> calls = (case res of Inl e \<Rightarrow> http_Error (Error e) 422 | Inr p \<Rightarrow> write_json 200 (payment_json p))"
  using assms by (auto simp: admitted_def CreateChargeHandler_def Let_def split: sum.splits)

lemma refused_run:
  assumes no: "\<nexists>req. admitted srv env b rst req"
    and run: "CreateChargeHandler srv svc commit env b (rst, d) = ((rst', d'), calls)"
  shows "d' = d \<and> rsp_status (render calls) \<in> {400, 409, 422, 500}"
proof (cases "DecodeChargeRequest b")
  case (Inl e)
  with run show ?thesis by (auto simp: CreateChargeHandler_def)
next
  case (Inr req)
  show ?thesis
  proof (cases "cr_UserID req = '''' \<or> cr_Amount req \<le> 0 \<or> cr_Currency req \<notin> {''USD'', ''INR''}")
    case True
    with Inr run show ?thesis by (auto simp: CreateChargeHandler_def split: if_splits)
  next
    case f: False
    obtain rst1 e where "AcquireLock srv (ce_acquire env) (ce_acquire_at env) (ce_token_now env) (cr_UserID req)
        (5 * Second) rst = (rst1, Inl e)"
      using no Inr f unfolding admitted_def by (metis not_le surj_pair sum.exhaust)
    with Inr f run show ?thesis
      by (auto simp: CreateChargeHandler_def Let_def render_conflict split: if_splits)
  qed
qed

text \<open>
  C23. The charge handler by status. 200 is sent exactly when the request is well-formed, its lock was
  acquired and the service reported the charge as done; the body is then that payment, and the wallet
  of the requested user was debited and the payment and its event were stored. Any status other than
  200 and 422 leaves the database as it was. With 422 it is as it was too, or the complete
  charge of the requested user was committed and only the reply was lost.
\<close>

theorem charge_handler_effect:
  assumes ok: "ledger_ok pg d"
    and run: "ChargeHandlerOn srv pg env b (rst, d) = ((rst', d'), calls)"
  shows "rsp_status (render calls) \<in> {200, 400, 409, 422, 500}
    \<and> (rsp_status (render calls) = 200 \<longleftrightarrow> (\<exists>req p. admitted srv env b rst req
         \<and> snd (ChargeOn pg (ce_now env) d (cr_UserID req) (cr_Amount req) (cr_Currency req)) = Inr p))
    \<and> (\<forall>req p. admitted srv env b rst req
         \<and> snd (ChargeOn pg (ce_now env) d (cr_UserID req) (cr_Amount req) (cr_Currency req)) = Inr p \<longrightarrow>
         rsp_body (render calls) = json_Encode (payment_json p) \<and> uuid_in pg (cr_UserID req) = Some (p_UserID p)
         \<and> charged balance_of settled_of payment_ids notified_ids (cr_Amount req) (cr_Currency req) p d d')
    \<and> (rsp_status (render calls) \<notin> {200, 422} \<longrightarrow> d' = d)
    \<and> (rsp_status (render calls) = 422 \<longrightarrow> d' = d \<or> (\<exists>req p. DecodeChargeRequest b = Inr req
         \<and> uuid_in pg (cr_UserID req) = Some (p_UserID p)
         \<and> charged balance_of settled_of payment_ids notified_ids (cr_Amount req) (cr_Currency req) p d d'))"
proof (cases "\<exists>req. admitted srv env b rst req")
  case True
  then obtain req where req: "admitted srv env b rst req" by blast
  have only: "r = req" if "admitted srv env b rst r" for r using that req by (auto simp: admitted_def)
  obtain d1 res where pc: "ChargeOn pg (ce_now env) d (cr_UserID req) (cr_Amount req) (cr_Currency req) = (d1, res)"
    by fastforce
  note A = sql_service.charge_atomic[OF ok pc[unfolded sql_service_def]]
  note R = admitted_run[OF req run pc]
  have dec: "DecodeChargeRequest b = Inr req" using req by (simp add: admitted_def)
  show ?thesis
  proof (cases res)
    case (Inl e)
    then have "rsp_status (render calls) = 422" using R by simp
    moreover have "snd (ChargeOn pg (ce_now env) d (cr_UserID r) (cr_Amount r) (cr_Currency r)) \<noteq> Inr p"
      if "admitted srv env b rst r" for r p
      using only[OF that] pc Inl by simp
    ultimately show ?thesis using R A dec by auto
  next
    case (Inr p)
    let ?charge = "\<lambda>r. snd (ChargeOn pg (ce_now env) d (cr_UserID r) (cr_Amount r) (cr_Currency r))"
    have st: "rsp_status (render calls) = 200" and body: "rsp_body (render calls) = json_Encode (payment_json p)"
      using R Inr by simp_all
    have eff: "uuid_in pg (cr_UserID req) = Some (p_UserID p)"
      "charged balance_of settled_of payment_ids notified_ids (cr_Amount req) (cr_Currency req) p d d'"
      using A Inr conjunct1[OF R] by simp_all
    have done1: "?charge req = Inr p" using pc Inr by simp
    have only1: "r = req \<and> q = p" if "admitted srv env b rst r \<and> ?charge r = Inr q" for r q
      using only[of r] that done1 by auto
    have "\<exists>r q. admitted srv env b rst r \<and> ?charge r = Inr q" using req done1 by blast
    moreover have "\<forall>r q. admitted srv env b rst r \<and> ?charge r = Inr q \<longrightarrow>
        rsp_body (render calls) = json_Encode (payment_json q) \<and> uuid_in pg (cr_UserID r) = Some (p_UserID q)
        \<and> charged balance_of settled_of payment_ids notified_ids (cr_Amount r) (cr_Currency r) q d d'"
      using only1 body eff by blast
    ultimately show ?thesis unfolding st by simp
  qed
next
  case False
  with refused_run[OF _ run] show ?thesis by auto
qed

section \<open>From the wire to the request\<close>

definition charge_request_json :: "ChargeRequest \<Rightarrow> json" where
  "charge_request_json req = JObject
     [(''user_id'', JString (cr_UserID req)), (''amount'', JInt (cr_Amount req)), (''currency'', JString (cr_Currency req))]"

lemma DecodeChargeRequest_encoded:
  assumes "valid_utf8 (cr_UserID req)" and "is_int64 (cr_Amount req)" and "valid_utf8 (cr_Currency req)"
  shows "DecodeChargeRequest (json_Encode (charge_request_json req) @ rest, err) = Inr req"
proof -
  define v where "v n = (if n = ''user_id'' then StringValue (cr_UserID req)
    else if n = ''amount'' then Int64Value (cr_Amount req) else StringValue (cr_Currency req))" for n
  have json: "charge_request_json req = json_of_struct ChargeRequest_fields v"
    by (simp add: charge_request_json_def json_of_struct_def ChargeRequest_fields_def v_def)
  have "struct_ok ChargeRequest_fields v"
    using assms by (simp add: struct_ok_def ChargeRequest_fields_def v_def valid_utf8_ascii)
  from Decode_Encode [OF this] show ?thesis
    unfolding json by (simp add: DecodeChargeRequest_def string_field_def int64_field_def ChargeRequest_fields_def v_def)
qed

lemma DecodeChargeRequest_typed:
  assumes "DecodeChargeRequest b = Inr req"
  shows "valid_utf8 (cr_UserID req)" "is_int64 (cr_Amount req)" "valid_utf8 (cr_Currency req)"
  using assms by (auto simp: DecodeChargeRequest_def split: sum.splits dest!: Decode_ok intro: decoded_string decoded_int64)

text \<open>
  The requests that can reach the charge handler are exactly the well-typed ones: some body
  decodes to a request if and only if its user and currency are valid UTF-8 and its amount is a
  64-bit integer.
\<close>

theorem charge_request_domain:
  "(\<exists>b. DecodeChargeRequest b = Inr req)
     \<longleftrightarrow> valid_utf8 (cr_UserID req) \<and> is_int64 (cr_Amount req) \<and> valid_utf8 (cr_Currency req)"
  using DecodeChargeRequest_encoded DecodeChargeRequest_typed by metis

text \<open>
  C24. A charge request survives the wire: the charge handler decodes the JSON encoding of a
  well-typed request to that request. It stops at the end of the object, so whatever bytes
  follow, even ones that are no JSON, and however reading the body ends, the state and the
  response are the same.
\<close>

theorem charge_request_round_trip:
  assumes "valid_utf8 (cr_UserID req)" and "is_int64 (cr_Amount req)" and "valid_utf8 (cr_Currency req)"
  shows "DecodeChargeRequest (json_Encode (charge_request_json req) @ rest, err) = Inr req
    \<and> CreateChargeHandler srv svc commit env (json_Encode (charge_request_json req) @ rest, err) st
      = CreateChargeHandler srv svc commit env (json_Encode (charge_request_json req), None) st"
  using DecodeChargeRequest_encoded [OF assms, of rest err] DecodeChargeRequest_encoded [OF assms, of "[]" None]
  by (simp add: CreateChargeHandler_def)

text \<open>A charge of 200 minor units on the wallet, with an answering Redis.\<close>

definition env0 :: charge_env where
  "env0 = \<lparr>ce_acquire = NetOk, ce_acquire_at = 0, ce_token_now = time_zero, ce_release = NetOk, ce_release_at = 1,
     ce_now = time_zero\<rparr>"

definition charge0 :: ChargeRequest where
  "charge0 = \<lparr>cr_UserID = ''u1'', cr_Amount = 200, cr_Currency = ''INR''\<rparr>"

definition body0 :: body where
  "body0 = (json_Encode (charge_request_json charge0), None)"

lemma body0_decodes [simp]: "DecodeChargeRequest body0 = Inr charge0"
  using DecodeChargeRequest_encoded [of charge0 "[]" None]
  by (simp add: body0_def charge0_def valid_utf8_ascii is_int64_def int64_bounds)

theorem charge_request_round_trip_witness:
  "DecodeChargeRequest (json_Encode (charge_request_json charge0) @ ''}garbage'', Some (ErrNew ''reset'')) = Inr charge0"
  by (rule charge_request_round_trip [THEN conjunct1]) (simp_all add: charge0_def valid_utf8_ascii is_int64_def int64_bounds)

lemma keyspace_lock_cycle:
  assumes "ks (lock_key key) = None" and "a \<le> b" and "b < a + 5 * Second"
  shows "\<exists>ks1. AcquireLock keyspace_server NetOk a now key (5 * Second) ks = (ks1, Inr (format_RFC3339Nano now))
    \<and> fst (ReleaseLock keyspace_server NetOk b key (format_RFC3339Nano now) ks1) = ks"
proof -
  let ?tok = "format_RFC3339Nano now"
  let ?ks1 = "ks(lock_key key := Some (RString ?tok, Some (a + 5 * Second)))"
  have "r_setnx keyspace_server a (lock_key key) ?tok (5 * Second) ks = (True, ?ks1)"
    using assms(1) by (simp add: keyspace_server_def ks_string_def ks_members_def ks_live_def)
  then have "AcquireLock keyspace_server NetOk a now key (5 * Second) ks = (?ks1, Inr ?tok)"
    by (simp add: AcquireLock_def Let_def)
  moreover have "release_script keyspace_server b (lock_key key) ?tok ?ks1 = (1, ks)"
    using assms(1,3) by (simp add: release_script_def keyspace_server_def ks_string_def ks_live_def fun_upd_idem)
  then have "fst (ReleaseLock keyspace_server NetOk b key ?tok ?ks1) = ks" by (simp add: ReleaseLock_def)
  ultimately show ?thesis by blast
qed

lemma charge0_run_on:
  assumes "ks (lock_key ''u1'') = None"
  shows "\<exists>p. ChargeHandlerOn keyspace_server pg0 env0 body0 (ks, wallet_db)
     = ((ks, paid_db), write_json 200 (payment_json p))"
proof -
  obtain p where p: "ChargeOn pg0 time_zero wallet_db ''u1'' 200 ''INR'' = (paid_db, Inr p)"
    using paid_db_result by blast
  obtain ks1 where "AcquireLock keyspace_server NetOk 0 time_zero ''u1'' (5 * Second) ks
      = (ks1, Inr (format_RFC3339Nano time_zero))"
    "fst (ReleaseLock keyspace_server NetOk 1 ''u1'' (format_RFC3339Nano time_zero) ks1) = ks"
    using keyspace_lock_cycle[of ks "''u1''" 0 1 time_zero] assms by (auto simp: duration_defs)
  with p show ?thesis by (auto simp: CreateChargeHandler_def charge0_def env0_def Let_def)
qed

lemmas charge0_run = charge0_run_on[of "\<lambda>_. None", OF refl]

theorem charge_handler_effect_witness:
  "case ChargeHandlerOn keyspace_server pg0 env0 body0 (\<lambda>_. None, wallet_db) of ((rst', d'), calls) \<Rightarrow>
     rsp_status (render calls) = 200 \<and> balance_of ''u1'' d' = 300 \<and> length (payment_ids d') = 1
     \<and> (\<exists>p. snd (ChargeOn pg0 time_zero wallet_db ''u1'' 200 ''INR'') = Inr p \<and> p_UserID p = ''u1'')"
proof -
  obtain p where run: "ChargeHandlerOn keyspace_server pg0 env0 body0 (\<lambda>_. None, wallet_db)
     = ((\<lambda>_. None, paid_db), write_json 200 (payment_json p))"
    using charge0_run by blast
  note E = charge_handler_effect[OF wallet_ok(2) run]
  obtain req q where q: "admitted keyspace_server env0 body0 (\<lambda>_. None) req"
    "snd (ChargeOn pg0 (ce_now env0) wallet_db (cr_UserID req) (cr_Amount req) (cr_Currency req)) = Inr q"
    using E by auto
  then have "req = charge0" by (simp add: admitted_def)
  with conjunct1[OF conjunct2[OF conjunct2[OF E]], rule_format, OF conjI[OF q]]
  have "uuid_in pg0 ''u1'' = Some (p_UserID q)"
    "charged balance_of settled_of payment_ids notified_ids 200 ''INR'' q wallet_db paid_db"
    by (simp_all add: charge0_def)
  then have "p_UserID q = ''u1''" "length (payment_ids paid_db) = 1"
    by (auto simp: charged_def payment_ids_def wallet_defs pg0_def)
  moreover have "snd (ChargeOn pg0 time_zero wallet_db ''u1'' 200 ''INR'') = Inr q"
    using q(2) \<open>req = charge0\<close> by (simp add: charge0_def env0_def)
  ultimately show ?thesis unfolding run by (simp add: balance_of_def paid_db_eq user0_def)
qed

text \<open>
  C27. Once a charge request that got the lock is answered and its release reached the server,
  the lock of that user is free again, whether the charge succeeded or not.
\<close>

theorem charge_handler_releases_lock:
  assumes srv: "redis_server srv sview zview"
    and run: "CreateChargeHandler srv svc commit env b (rst, d) = ((rst', d'), calls)"
    and dec: "DecodeChargeRequest b = Inr req"
    and valid: "cr_UserID req \<noteq> ''''" "0 < cr_Amount req" "cr_Currency req = ''USD'' \<or> cr_Currency req = ''INR''"
    and acq: "AcquireLock srv (ce_acquire env) (ce_acquire_at env) (ce_token_now env) (cr_UserID req) (5 * Second) rst
      = (rst1, Inr tok)"
    and rel: "ce_release env = NetOk \<or> ce_release env = NetLost e" "ce_acquire_at env \<le> ce_release_at env"
    and t: "ce_release_at env \<le> t"
  shows "sview t rst' (lock_key (cr_UserID req)) = None"
proof -
  have "rst' = fst (ReleaseLock srv (ce_release env) (ce_release_at env) (cr_UserID req) tok rst1)"
    using run dec valid acq by (auto simp: CreateChargeHandler_def Let_def split: prod.splits sum.splits)
  moreover have "0 < 5 * Second" by (simp add: duration_defs)
  ultimately show ?thesis using redis_server.released_free[OF srv acq _ rel(2) t rel(1)] by simp
qed

theorem charge_handler_releases_lock_witness:
  "case ChargeHandlerOn keyspace_server pg0 env0 body0 (\<lambda>_. None, wallet_db) of ((rst', d'), calls) \<Rightarrow>
     ks_string 1 rst' (lock_key ''u1'') = None"
proof -
  obtain p where run: "ChargeHandlerOn keyspace_server pg0 env0 body0 (\<lambda>_. None, wallet_db)
     = ((\<lambda>_. None, paid_db), write_json 200 (payment_json p))"
    using charge0_run by blast
  obtain rst1 where acq: "AcquireLock keyspace_server (ce_acquire env0) (ce_acquire_at env0) (ce_token_now env0)
      (cr_UserID charge0) (5 * Second) (\<lambda>_. None) = (rst1, Inr (format_RFC3339Nano time_zero))"
    by (simp add: env0_def charge0_def AcquireLock_def keyspace_defs Let_def)
  have "ks_string 1 (\<lambda>_. None) (lock_key (cr_UserID charge0)) = None"
    by (rule charge_handler_releases_lock[OF keyspace.redis_server_axioms run _ _ _ _ acq])
      (simp_all add: charge0_def env0_def)
  then have "ks_string 1 (\<lambda>_. None) (lock_key ''u1'') = None" by (simp add: charge0_def)
  then show ?thesis unfolding run by simp
qed

end
