(* ===== verification/Idempotency.thy ===== *)
theory Idempotency
  imports PaymentHandler RateLimit
begin

text \<open>
  The idempotency middleware (\<^verbatim>\<open>internal/middleware/idempotency.go\<close>) around a handler that may
  itself use Redis. The recorder keeps the code of the last \<^verbatim>\<open>WriteHeader\<close> call, initially 0, and
  a copy of everything written. The middleware is the lookup followed by the rest, which
  concurrent requests interleave.
\<close>

record responseRecorder =
  rec_body :: string
  rec_statusCode :: int

text \<open>What the recorder does with a call before it hands it on to the writer it wraps.\<close>

fun rec_call :: "wcall \<Rightarrow> responseRecorder \<Rightarrow> responseRecorder" where
  "rec_call (WriteHeader c) rec = rec\<lparr>rec_statusCode := c\<rparr>"
| "rec_call (Write b) rec = rec\<lparr>rec_body := rec_body rec @ b\<rparr>"
| "rec_call (SetHeader k v) rec = rec"

definition recorded :: "wcall list \<Rightarrow> responseRecorder" where
  "recorded calls = fold rec_call calls \<lparr>rec_body = '''', rec_statusCode = 0\<rparr>"

fun written :: "wcall list \<Rightarrow> string" where
  "written [] = ''''"
| "written (Write s # calls) = s @ written calls"
| "written (x # calls) = written calls"

lemma recorded_eq: "recorded calls = \<lparr>rec_body = written calls, rec_statusCode = last_code 0 calls\<rparr>"
proof -
  have "fold rec_call calls \<lparr>rec_body = b, rec_statusCode = c\<rparr> = \<lparr>rec_body = b @ written calls, rec_statusCode = last_code c calls\<rparr>" for b c
  proof (induction calls arbitrary: b c)
    case (Cons x calls)
    then show ?case by (cases x) auto
  qed simp
  then show ?thesis by (simp add: recorded_def)
qed

lemma recorded_simps [simp]: "rec_statusCode (recorded calls) = last_code 0 calls" "rec_body (recorded calls) = written calls"
  by (simp_all add: recorded_eq)

definition idem_key :: "request \<Rightarrow> string" where
  "idem_key r = ''idem:'' @ header_Get r ''Idempotency-Key''"

definition guarded :: "request \<Rightarrow> bool" where
  "guarded r \<longleftrightarrow> req_Method r = ''POST'' \<and> header_Get r ''Idempotency-Key'' \<noteq> ''''"

definition cached_reply :: "string \<Rightarrow> wcall list" where
  "cached_reply body = [SetHeader ''Content-Type'' ''application/json'', SetHeader ''X-Cache-Idempotent'' ''true'',
     WriteHeader 200, Write body]"

text \<open>The lookup: \<open>Some body\<close> when the key is there; a missing key and a failed call look the same.\<close>

definition idem_lookup :: "'r redis \<Rightarrow> net \<Rightarrow> int \<Rightarrow> request \<Rightarrow> 'r \<Rightarrow> string option" where
  "idem_lookup srv net t r rst =
     (case redis_call net (\<lambda>st. (r_get srv t (idem_key r) st, st)) rst of
        (_, Inr (Some body)) \<Rightarrow> Some body | _ \<Rightarrow> None)"

definition idem_finish :: "'r redis \<Rightarrow> net \<Rightarrow> int \<Rightarrow> ('r \<times> 's) handler \<Rightarrow> ('r \<times> 's) handler" where
  "idem_finish srv net t nxt r st =
     (case nxt r st of ((rst, s), calls) \<Rightarrow>
        (let rec = recorded calls in
         if rec_statusCode rec = 200 \<or> rec_statusCode rec = 201
         then ((fst (redis_call net (\<lambda>x. ((), r_set srv t (idem_key r) (rec_body rec) (24 * Hour) x)) rst), s), calls)
         else ((rst, s), calls)))"

definition Handle :: "'r redis \<Rightarrow> net \<Rightarrow> int \<Rightarrow> net \<Rightarrow> int \<Rightarrow> ('r \<times> 's) handler \<Rightarrow> ('r \<times> 's) handler" where
  "Handle srv net_get t_get net_set t_set nxt r st =
     (if req_Method r \<noteq> ''POST'' then nxt r st
      else if header_Get r ''Idempotency-Key'' = '''' then nxt r st
      else (case idem_lookup srv net_get t_get r (fst st) of
              Some cachedResponse \<Rightarrow> (st, cached_reply cachedResponse)
            | None \<Rightarrow> idem_finish srv net_set t_set nxt r st))"

section \<open>Replay\<close>

lemma render_cached:
  "rsp_status (render (cached_reply body)) = 200" "rsp_body (render (cached_reply body)) = body"
  by (simp_all add: cached_reply_def writer_defs)

text \<open>
  What the program itself does to Redis is traffic on other keys: the limiter runs before every
  request, charges take and release locks, tokens are revoked, responses are cached under other keys.
\<close>

lemma idem_key_apart: "idem_key r \<noteq> lock_key key" "idem_key r \<noteq> rate_key r'"
  by (simp_all add: idem_key_def lock_key_def rate_key_def Let_def)

lemma cache_traffic:
  assumes "traffic srv t' k r r1" and "t \<le> t'" and "idem_key req \<noteq> k"
  shows "traffic srv t' k r (fst (redis_call net (\<lambda>x. ((), r_set srv t (idem_key req) body (24 * Hour) x)) r1))"
  using assms by (intro traffic_call) (auto intro!: by_set simp: duration_defs)

text \<open>
  C25. A repeated request is replayed: after a guarded request that was not found in the cache
  and whose handler answered 200 or 201, with the store reaching Redis, take any later request
  with the same key within 24 hours, in any state of the rest of the program, with Redis changed by any
  commands on other keys. If Redis answers its lookup, it gets the same body with status 200,
  the handler does not run and nothing changes. If Redis does not answer, the request is executed again.
\<close>

theorem idempotent_replay:
  assumes srv: "redis_server srv sview zview" and g: "guarded r" "guarded r'" "idem_key r' = idem_key r"
    and miss: "idem_lookup srv net_get t_get r (fst st) = None"
    and run: "Handle srv net_get t_get net_set t_set nxt r st = (st1, calls)"
    and code: "last_code 0 calls = 200 \<or> last_code 0 calls = 201" and stored: "net_set = NetOk \<or> net_set = NetLost e"
    and t: "t_set \<le> t'" "t' < t_set + 24 * Hour"
    and between: "traffic srv t' (idem_key r) (fst st1) rst"
  shows "Handle srv net' t' net_set' t_set' nxt' r' (rst, s) =
      (if net' = NetOk then ((rst, s), cached_reply (written calls)) else idem_finish srv net_set' t_set' nxt' r' (rst, s))
    \<and> rsp_status (render (cached_reply (written calls))) = 200
    \<and> rsp_body (render (cached_reply (written calls))) = written calls"
proof -
  obtain rst1 s1 where n: "nxt r st = ((rst1, s1), calls)"
    and st1: "fst st1 = r_set srv t_set (idem_key r) (written calls) (24 * Hour) rst1"
    using run g(1) miss code stored
    by (auto simp: Handle_def guarded_def idem_finish_def Let_def redis_call_def split: prod.splits if_splits)
  have "sview t' (fst st1) (idem_key r) = Some (written calls)"
    using redis_server.set[OF srv t(1), of "24 * Hour" "idem_key r" "written calls" rst1 "idem_key r"] t(2)
    by (simp add: st1 duration_defs)
  then have "sview t' rst (idem_key r') = Some (written calls)"
    using redis_server.traffic_view[OF srv between] g(3) by simp
  then have "idem_lookup srv net' t' r' rst = (if net' = NetOk then Some (written calls) else None)"
    by (simp add: idem_lookup_def redis_call_def redis_server.get[OF srv] split: net.splits)
  with g(2) show ?thesis by (simp add: Handle_def guarded_def render_cached)
qed

text \<open>The charge of 200 as a request, and with an idempotency key.\<close>

definition charge_request0 :: request where
  "charge_request0 = request0\<lparr>req_Body := body0\<rparr>"

definition idem_request :: request where
  "idem_request = charge_request0\<lparr>req_Header := [''Idempotency-Key'' \<mapsto> ''k1'']\<rparr>"

abbreviation charge_route :: "pg \<Rightarrow> charge_env \<Rightarrow> (keyspace \<times> db) handler" where
  "charge_route pg env \<equiv> \<lambda>r. ChargeHandlerOn keyspace_server pg env (req_Body r)"

text \<open>
  The charge of 200 repeated with the same key, behind the limiter, which writes to Redis first: the wallet
  is debited once and the second answer is 200.
\<close>

theorem idempotent_replay_witness:
  "\<exists>st1 calls st2 calls2. Handle keyspace_server NetOk 0 NetOk 2 (charge_route pg0 env0) idem_request (\<lambda>_. None, wallet_db) = (st1, calls)
    \<and> Limit keyspace_server NetOk 3 time_zero (Handle keyspace_server NetOk 3 NetOk 4 (charge_route pg0 env0)) idem_request st1 = (st2, calls2)
    \<and> rsp_status (render calls2) = 200 \<and> rsp_body (render calls2) = written calls
    \<and> balance_of ''u1'' (snd st2) = 300"
proof -
  obtain p where n: "charge_route pg0 env0 idem_request (\<lambda>_. None, wallet_db)
     = ((\<lambda>_. None, paid_db), write_json 200 (payment_json p))"
    using charge0_run by (auto simp: idem_request_def charge_request0_def)
  let ?calls = "write_json 200 (payment_json p)"
  have g: "guarded idem_request"
    by (simp add: guarded_def idem_request_def charge_request0_def request0_def header_Get_def)
  have miss: "idem_lookup keyspace_server NetOk 0 idem_request (fst (\<lambda>_. None, wallet_db)) = None"
    by (simp add: idem_lookup_def keyspace_defs)
  have code: "last_code 0 ?calls = 200" by (simp add: write_json_def)
  define ks1 where "ks1 = r_set keyspace_server 2 (idem_key idem_request) (written ?calls) (24 * Hour) (\<lambda>_. None)"
  have run: "Handle keyspace_server NetOk 0 NetOk 2 (charge_route pg0 env0) idem_request (\<lambda>_. None, wallet_db)
      = ((ks1, paid_db), ?calls)"
    using g miss code by (simp add: Handle_def guarded_def idem_finish_def n ks1_def)
  define ks2 where "ks2 = fst (redis_call NetOk (luaScript keyspace_server 3 (rate_key idem_request) (time_Unix time_zero) 60 1000) ks1)"
  have between: "traffic keyspace_server 3 (idem_key idem_request) (fst (ks1, paid_db)) ks2"
    unfolding ks2_def fst_conv by (intro script_traffic quiet idem_key_apart(2)[symmetric]) simp
  have "Handle keyspace_server NetOk 3 NetOk 4 (charge_route pg0 env0) idem_request (ks2, paid_db)
      = ((ks2, paid_db), cached_reply (written ?calls))"
    "rsp_status (render (cached_reply (written ?calls))) = 200" "rsp_body (render (cached_reply (written ?calls))) = written ?calls"
    using idempotent_replay[OF keyspace.redis_server_axioms g g refl miss run disjI1[OF code] disjI1[OF refl] _ _ between,
        of NetOk NetOk 4 "charge_route pg0 env0" paid_db]
    by (simp_all add: duration_defs)
  moreover have "fst (luaScript keyspace_server 3 (rate_key idem_request) (time_Unix time_zero) 60 1000 ks1) = 1"
    using idem_key_apart(2)[of idem_request idem_request]
    by (simp add: luaScript_def Let_def ks1_def keyspace_defs)
  then have "Limit keyspace_server NetOk 3 time_zero (Handle keyspace_server NetOk 3 NetOk 4 (charge_route pg0 env0)) idem_request (ks1, paid_db)
      = Handle keyspace_server NetOk 3 NetOk 4 (charge_route pg0 env0) idem_request (ks2, paid_db)"
    by (simp add: Limit_def Let_def ks2_def case_prod_beta)
  ultimately have "Limit keyspace_server NetOk 3 time_zero (Handle keyspace_server NetOk 3 NetOk 4 (charge_route pg0 env0)) idem_request (ks1, paid_db)
      = ((ks2, paid_db), cached_reply (written ?calls))"
    and "rsp_status (render (cached_reply (written ?calls))) = 200" "rsp_body (render (cached_reply (written ?calls))) = written ?calls"
    by simp_all
  with run show ?thesis by (auto simp: balance_of_def paid_db_eq user0_def)
qed

section \<open>Concurrent requests with one key\<close>





end
