(* ===== verification/Jwt.thy ===== *)
theory Jwt
  imports Redis Http
begin

text \<open>
  Access tokens: \<^verbatim>\<open>internal/service/jwt_auth.go\<close> and the handlers of
  \<^verbatim>\<open>internal/handler/jwt_handler.go\<close>. The JWT library is an argument: signing with the private key,
  and parsing at a clock reading with the key function of the caller. Claims are a map from
  names to JSON values. Server time and wall clock are one time line.
\<close>

type_synonym claims = "string \<rightharpoonup> json"

datatype signing_method = SigningMethodRSA string | OtherMethod string

record jwt_lib =
  jwt_SignedString :: "claims \<Rightarrow> string result"
  jwt_Parse :: "gotime \<Rightarrow> (signing_method \<Rightarrow> unit result) \<Rightarrow> string \<Rightarrow> (bool \<times> claims) result"

definition ErrTokenRevoked :: goerr where
  "ErrTokenRevoked = ErrNew ''authentication token has been explicitly revoked and blacklisted''"

definition ErrInvalidToken :: goerr where
  "ErrInvalidToken = ErrNew ''cryptographic signature mismatch or token expired''"

text \<open>The two clock readings of the claims, \<open>now\<close> for the expiry and \<open>now'\<close> for the time of issue.\<close>

definition access_claims :: "gotime \<Rightarrow> gotime \<Rightarrow> string \<Rightarrow> string \<Rightarrow> claims" where
  "access_claims now now' userID clientType =
     [''sub'' \<mapsto> JString userID, ''client_type'' \<mapsto> JString clientType,
      ''exp'' \<mapsto> JInt (time_Unix (time_Add now (15 * Minute))), ''iat'' \<mapsto> JInt (time_Unix now')]"

definition GenerateAccessToken :: "jwt_lib \<Rightarrow> gotime \<Rightarrow> gotime \<Rightarrow> string \<Rightarrow> string \<Rightarrow> string result" where
  "GenerateAccessToken lib now now' userID clientType =
     jwt_SignedString lib (access_claims now now' userID clientType)"

definition blacklist_key :: "string \<Rightarrow> string" where
  "blacklist_key tokenStr = ''blacklist:'' @ tokenStr"

definition RevokeToken :: "'r redis \<Rightarrow> net \<Rightarrow> int \<Rightarrow> string \<Rightarrow> duration \<Rightarrow> 'r \<Rightarrow> 'r \<times> goerr option" where
  "RevokeToken srv net t tokenStr ttl r =
     (case redis_call net (\<lambda>x. ((), r_set srv t (blacklist_key tokenStr) ''true'' ttl x)) r of
        (r', Inl e) \<Rightarrow> (r', Some e) | (r', Inr _) \<Rightarrow> (r', None))"

text \<open>The key function: the public key for an RSA method, an error for every other.\<close>

definition keyfunc :: "signing_method \<Rightarrow> unit result" where
  "keyfunc m = (case m of SigningMethodRSA _ \<Rightarrow> Inr () | OtherMethod _ \<Rightarrow> Inl ErrInvalidToken)"

text \<open>
  \<^verbatim>\<open>blacklisted, _ := Get(...).Result()\<close>: a missing key and a failed call both leave the empty string.
\<close>

definition ValidateAccessToken :: "'r redis \<Rightarrow> jwt_lib \<Rightarrow> net \<Rightarrow> int \<Rightarrow> gotime \<Rightarrow> string \<Rightarrow> 'r \<Rightarrow> claims result" where
  "ValidateAccessToken srv lib net t now tokenStr r =
     (let blacklisted = (case snd (redis_call net (\<lambda>x. (r_get srv t (blacklist_key tokenStr) x, x)) r) of
            Inr (Some v) \<Rightarrow> v | _ \<Rightarrow> '''')
      in if blacklisted = ''true'' then Inl ErrTokenRevoked
         else (case jwt_Parse lib now keyfunc tokenStr of
                 Inl e \<Rightarrow> Inl ErrInvalidToken
               | Inr (valid, c) \<Rightarrow> if \<not> valid then Inl ErrInvalidToken else Inr c))"

section \<open>What the service relies on\<close>

text \<open>
  A token with the claims that the service makes, signed with its key, verifies under an RSA key
  function until its expiry and yields its claims; from the expiry on it does not verify. (Of these
  claims the parser checks only \<^verbatim>\<open>exp\<close>; there is no \<^verbatim>\<open>nbf\<close>.)
\<close>

definition jwt_laws :: "jwt_lib \<Rightarrow> bool" where
  "jwt_laws lib \<longleftrightarrow> (\<forall>issued issued' userID clientType tok now kf.
     let c = access_claims issued issued' userID clientType in
     jwt_SignedString lib c = Inr tok \<longrightarrow>
     (if wall now < time_Unix (time_Add issued (15 * Minute)) * Second
      then kf (SigningMethodRSA ''RS256'') = Inr () \<longrightarrow> jwt_Parse lib now kf tok = Inr (True, c)
      else \<exists>err. jwt_Parse lib now kf tok = Inl err))"

lemma access_exp: "access_claims now now' userID clientType ''exp'' = Some (JInt (time_Unix (time_Add now (15 * Minute))))"
  by (simp add: access_claims_def)



lemma access_valid:
  assumes "jwt_laws lib" and "GenerateAccessToken lib now now' userID clientType = Inr tok"
    and "wall now'' < time_Unix (time_Add now (15 * Minute)) * Second"
  shows "jwt_Parse lib now'' keyfunc tok = Inr (True, access_claims now now' userID clientType)"
proof -
  have "keyfunc (SigningMethodRSA ''RS256'') = Inr ()" by (simp add: keyfunc_def)
  with assms show ?thesis
    unfolding jwt_laws_def GenerateAccessToken_def Let_def by (metis (no_types, lifting))
qed

text \<open>
  What can happen to Redis after a revocation, up to time \<open>t'\<close>: commands on other keys, and further
  revocations of the same token, answered or not.
\<close>

inductive after_revocation :: "'r redis \<Rightarrow> int \<Rightarrow> string \<Rightarrow> int \<Rightarrow> 'r \<Rightarrow> 'r \<Rightarrow> bool"
  for srv :: "'r redis" and t :: int and tok :: string and t' :: int and r :: 'r where
  rev_none: "after_revocation srv t tok t' r r"
| rev_other: "after_revocation srv t tok t' r r1 \<Longrightarrow> traffic srv t' (blacklist_key tok) r1 r2 \<Longrightarrow> after_revocation srv t tok t' r r2"
| rev_again: "after_revocation srv t tok t' r r1 \<Longrightarrow> t \<le> s \<Longrightarrow> s \<le> t' \<Longrightarrow> RevokeToken srv net s tok (15 * Minute) r1 = (r2, e) \<Longrightarrow>
    after_revocation srv t tok t' r r2"





text \<open>A library that knows one token: the one of a client, issued at time 0.\<close>

definition epoch :: gotime where "epoch = \<lparr>wall = 0, mono = None\<rparr>"

definition claims0 :: claims where
  "claims0 = access_claims epoch epoch ''client-1'' ''machine-to-machine''"

definition lib0 :: jwt_lib where
  "lib0 = \<lparr>jwt_SignedString = (\<lambda>c. if c = claims0 then Inr ''tok'' else Inl (ErrNew ''cannot sign'')),
     jwt_Parse = (\<lambda>now kf tok. if tok = ''tok'' \<and> kf (SigningMethodRSA ''RS256'') = Inr () \<and> wall now < 900 * Second
        then Inr (True, claims0) else Inl (ErrNew ''token is invalid''))\<rparr>"

lemma claims0_exp: "claims0 ''exp'' = Some (JInt 900)"
  by (simp add: claims0_def access_exp epoch_def time_Add_def time_Unix_def duration_defs)

lemma claims0_expiry:
  assumes "access_claims issued issued' userID clientType = claims0"
  shows "time_Unix (time_Add issued (15 * Minute)) = 900"
  using arg_cong[OF assms, of "\<lambda>c. c ''exp''"] by (simp add: access_exp claims0_exp)

lemma lib0_laws: "jwt_laws lib0"
  by (auto simp: jwt_laws_def lib0_def Let_def dest!: claims0_expiry)

lemma lib0_issues: "GenerateAccessToken lib0 epoch epoch ''client-1'' ''machine-to-machine'' = Inr ''tok''"
  by (simp add: GenerateAccessToken_def lib0_def claims0_def)





section \<open>The handlers\<close>

record TokenRequest =
  tr_ClientID :: string
  tr_Secret :: string

definition TokenRequest_fields :: struct_type where
  "TokenRequest_fields = [(''client_id'', StringField), (''client_secret'', StringField)]"

definition DecodeTokenRequest :: "body \<Rightarrow> TokenRequest result" where
  "DecodeTokenRequest b =
     (case Decode TokenRequest_fields b of
        Inl e \<Rightarrow> Inl e
      | Inr m \<Rightarrow> Inr \<lparr>tr_ClientID = string_field m ''client_id'', tr_Secret = string_field m ''client_secret''\<rparr>)"

definition IssueTokenHandler :: "jwt_lib \<Rightarrow> gotime \<Rightarrow> gotime \<Rightarrow> body \<Rightarrow> wcall list" where
  "IssueTokenHandler lib now now' b =
     (case DecodeTokenRequest b of
        Inl e \<Rightarrow> http_Error ''Malformed token body request payload'' 400
      | Inr req \<Rightarrow>
          (case GenerateAccessToken lib now now' (tr_ClientID req) ''machine-to-machine'' of
             Inl e \<Rightarrow> http_Error ''Failed to cryptographically sign token asset'' 500
           | Inr token \<Rightarrow>
               [SetHeader ''Content-Type'' ''application/json'',
                Write (json_Encode (json_map [(''access_token'', JString token), (''token_type'', JString ''Bearer''),
                   (''expires_in'', JString ''900'')]))]))"

text \<open>
  \<^verbatim>\<open>strings.Trim\<close>, \<^verbatim>\<open>strings.ToLower\<close> and \<^verbatim>\<open>strings.TrimSpace\<close> on ASCII header values. No other rune
  lowers to a letter of \<^verbatim>\<open>bearer\<close>, so the prefix test is the same on all of them.
\<close>

definition trim :: "char set \<Rightarrow> string \<Rightarrow> string" where
  "trim cutset s = rev (dropWhile (\<lambda>c. c \<in> cutset) (rev (dropWhile (\<lambda>c. c \<in> cutset) s)))"

definition ascii_lower :: "char \<Rightarrow> char" where
  "ascii_lower c = (let n = (of_char c :: nat) in if 65 \<le> n \<and> n \<le> 90 then char_of (n + 32) else c)"

definition ascii_space :: "char set" where
  "ascii_space = {CHR 0x09, CHR 0x0A, CHR 0x0B, CHR 0x0C, CHR 0x0D, CHR 0x20}"

definition RevokeTokenHandler :: "'r redis \<Rightarrow> net \<Rightarrow> int \<Rightarrow> 'r handler" where
  "RevokeTokenHandler srv net t r st =
     (let authHeader = trim {CHR 0x22, CHR 0x20} (header_Get r ''Authorization'') in
      if take 7 (map ascii_lower authHeader) \<noteq> ''bearer ''
      then (st, http_Error ''Missing token target reference format'' 400)
      else (let tokenStr = trim ascii_space (drop 7 authHeader) in
        if tokenStr = '''' then (st, http_Error ''Empty token payload asset reference'' 400)
        else (case RevokeToken srv net t tokenStr (15 * Minute) st of
                (st', Some e) \<Rightarrow> (st', http_Error ''Failed to register revocation signature state'' 500)
              | (st', None) \<Rightarrow> (st', [WriteHeader 204]))))"

lemma trim_id:
  assumes "s \<noteq> []" and "hd s \<notin> cutset" and "last s \<notin> cutset" shows "trim cutset s = s"
proof -
  have "dropWhile (\<lambda>c. c \<in> cutset) s = s" using assms(1,2) by (cases s) auto
  moreover have "dropWhile (\<lambda>c. c \<in> cutset) (rev s) = rev s"
    using assms(1,3) by (cases s rule: rev_cases) auto
  ultimately show ?thesis by (simp add: trim_def)
qed

lemma ascii_lower_not_upper: "\<not> (97 \<le> (of_char d :: nat) \<and> of_char d \<le> (122 :: nat)) \<Longrightarrow> ascii_lower c = d \<Longrightarrow> c = d"
  by (auto simp: ascii_lower_def Let_def of_char_of split: if_splits)

lemma ascii_lower_cut: "c \<in> {CHR 0x22, CHR 0x20} \<Longrightarrow> ascii_lower c = c"
  by (auto simp: ascii_lower_def)

text \<open>
  Revoking through the API: for an \<^verbatim>\<open>Authorization\<close> header made of \<^verbatim>\<open>bearer\<close> in any case, a
  space and a token without blanks and quotes, the handler blacklists exactly that token for
  15 minutes and answers 204; a header without that prefix or with an empty token is answered
  400 and changes nothing.
\<close>

theorem revoke_handler_blacklists:
  assumes pre: "map ascii_lower pre = ''bearer ''"
    and tok: "set tok \<inter> ({CHR 0x22, CHR 0x20} \<union> ascii_space) = {}"
    and hdr: "header_Get r ''Authorization'' = pre @ tok"
  shows "RevokeTokenHandler srv NetOk t r st =
    (if tok = '''' then (st, http_Error ''Missing token target reference format'' 400)
     else (r_set srv t (blacklist_key tok) ''true'' (15 * Minute) st, [WriteHeader 204]))"
proof -
  have len: "length pre = 7" using arg_cong[OF pre, of length] by simp
  obtain p c where p: "pre = p @ [c]" using len by (cases pre rule: rev_cases) auto
  have low: "map ascii_lower p = ''bearer''" "ascii_lower c = CHR 0x20" using pre by (simp_all add: p)
  have c: "c = CHR 0x20" by (rule ascii_lower_not_upper[OF _ low(2)]) simp
  obtain b q where bq: "p = b # q" "ascii_lower b = CHR ''b''" using low(1) by (cases p) auto
  obtain q' e where qe: "p = q' @ [e]" "ascii_lower e = CHR ''r''" using low(1) by (cases p rule: rev_cases) auto
  have ends: "b \<notin> {CHR 0x22, CHR 0x20}" "e \<notin> {CHR 0x22, CHR 0x20}"
    using ascii_lower_cut[of b] ascii_lower_cut[of e] bq qe by auto
  show ?thesis
  proof (cases "tok = ''''")
    case True
    have "p \<noteq> []" "hd p = b" using bq(1) by simp_all
    moreover have "last p = e" unfolding qe(1) by simp
    ultimately have "trim {CHR 0x22, CHR 0x20} p = p" using ends by (intro trim_id) simp_all
    then have "trim {CHR 0x22, CHR 0x20} (p @ [CHR 0x20]) = p" using ends bq(1) by (simp add: trim_def)
    with True low(1) show ?thesis
      by (simp add: RevokeTokenHandler_def hdr p c Let_def)
  next
    case False
    have "last tok \<notin> {CHR 0x22, CHR 0x20}" using tok last_in_set[OF False] by blast
    then have "trim {CHR 0x22, CHR 0x20} (pre @ tok) = pre @ tok"
      using False ends(1) bq(1) by (intro trim_id) (simp_all add: p)
    moreover have "trim ascii_space tok = tok"
      using tok last_in_set[OF False] hd_in_set[OF False] False by (intro trim_id) blast+
    moreover have "take 7 (map ascii_lower (pre @ tok)) = ''bearer ''" using pre len by simp
    ultimately show ?thesis
      using False len by (simp add: RevokeTokenHandler_def hdr Let_def RevokeToken_def)
  qed
qed

theorem revoke_handler_blacklists_witness:
  "RevokeTokenHandler keyspace_server NetOk 0
     \<lparr>req_Method = ''POST'', req_Path = ''/v1/auth/revoke'', req_Header = [''Authorization'' \<mapsto> ''BEARER abc''], req_RemoteAddr = '''', req_Body = ('''', None)\<rparr>
     (\<lambda>_. None)
   = ((\<lambda>_. None)(blacklist_key ''abc'' := Some (RString ''true'', Some (15 * Minute))), [WriteHeader 204])"
proof -
  let ?r = "\<lparr>req_Method = ''POST'', req_Path = ''/v1/auth/revoke'',
    req_Header = [''Authorization'' \<mapsto> ''BEARER abc''], req_RemoteAddr = '''', req_Body = ('''', None)\<rparr>"
  have low: "map ascii_lower ''BEARER '' = ''bearer ''" by code_simp
  have tok: "set ''abc'' \<inter> ({CHR 0x22, CHR 0x20} \<union> ascii_space) = {}" by (auto simp: ascii_space_def)
  have hdr: "header_Get ?r ''Authorization'' = ''BEARER '' @ ''abc''" by (simp add: header_Get_def)
  show ?thesis
    using revoke_handler_blacklists[OF low tok hdr, of keyspace_server 0 "\<lambda>_. None"]
    by (simp add: keyspace_defs duration_defs)
qed

text \<open>
  A token is issued to everyone: whatever client id and secret a well-formed request names,
  if signing works the answer is 200 with a token, and that token validates with the given
  client id as its subject until it expires. The secret is not checked.
\<close>

theorem token_issued_to_everyone:
  assumes lib: "jwt_laws lib" and dec: "DecodeTokenRequest b = Inr req"
    and tok: "GenerateAccessToken lib now now' (tr_ClientID req) ''machine-to-machine'' = Inr tok"
    and "wall now'' < time_Unix (time_Add now (15 * Minute)) * Second"
    and "r_get srv t (blacklist_key tok) r \<noteq> Some ''true''"
  shows "rsp_status (render (IssueTokenHandler lib now now' b)) = 200
    \<and> (\<exists>c. ValidateAccessToken srv lib NetOk t now'' tok r = Inr c \<and> c ''sub'' = Some (JString (tr_ClientID req)))"
proof -
  have "ValidateAccessToken srv lib NetOk t now'' tok r = Inr (access_claims now now' (tr_ClientID req) ''machine-to-machine'')"
    using access_valid[OF lib tok assms(4)] assms(5)
    by (auto simp: ValidateAccessToken_def split: option.splits)
  moreover have "rsp_status (render (IssueTokenHandler lib now now' b)) = 200"
    using tok dec by (simp add: IssueTokenHandler_def writer_defs)
  ultimately show ?thesis by (simp add: access_claims_def)
qed

theorem token_issued_to_everyone_witness:
  "case (json_Encode (JObject [(''client_id'', JString ''client-1''), (''client_secret'', JString ''wrong'')]), None) of b \<Rightarrow>
     rsp_status (render (IssueTokenHandler lib0 epoch epoch b)) = 200
     \<and> (\<exists>c. ValidateAccessToken keyspace_server lib0 NetOk 0 epoch ''tok'' (\<lambda>_. None) = Inr c \<and> c ''sub'' = Some (JString ''client-1''))"
proof -
  let ?b = "(json_Encode (JObject [(''client_id'', JString ''client-1''), (''client_secret'', JString ''wrong'')]), None)"
  have "DecodeTokenRequest ?b = Inr \<lparr>tr_ClientID = ''client-1'', tr_Secret = ''wrong''\<rparr>"
    using Decode_two_strings [of "''client_id''" "''client_secret''" "''client-1''" "''wrong''" "[]" None]
    by (simp add: DecodeTokenRequest_def TokenRequest_fields_def string_field_def valid_utf8_ascii)
  from token_issued_to_everyone[OF lib0_laws this, of epoch epoch "''tok''" epoch keyspace_server 0 "\<lambda>_. None"] lib0_issues
  show ?thesis
    by (simp add: epoch_def time_Add_def time_Unix_def duration_defs keyspace_defs)
qed

end
