(* ===== verification/Handlers.thy ===== *)
theory Handlers
  imports Accounts Subscription Dispute AuditTrail Http
begin

text \<open>
  The remaining endpoint handlers: API keys (\<^verbatim>\<open>internal/handler/auth_handler.go\<close>), subscriptions
  (\<^verbatim>\<open>internal/handler/subscription_handler.go\<close>), disputes (\<^verbatim>\<open>internal/handler/dispute_handler.go\<close>),
  and the history and health endpoints of \<^verbatim>\<open>cmd/api/main.go\<close>. The body of the request, the
  random bytes and the clock are inputs.
\<close>

section \<open>API keys\<close>

record KeyRequest =
  kr_UserID :: string
  kr_Label :: string

definition KeyRequest_fields :: struct_type where
  "KeyRequest_fields = [(''user_id'', StringField), (''label'', StringField)]"

definition DecodeKeyRequest :: "body \<Rightarrow> KeyRequest result" where
  "DecodeKeyRequest b =
     (case Decode KeyRequest_fields b of
        Inl e \<Rightarrow> Inl e
      | Inr m \<Rightarrow> Inr \<lparr>kr_UserID = string_field m ''user_id'', kr_Label = string_field m ''label''\<rparr>)"

definition CreateAPIKeyHandler ::
    "string result \<Rightarrow> (string \<Rightarrow> string result) \<Rightarrow> pg \<Rightarrow> body \<Rightarrow> db \<Rightarrow> db \<times> wcall list" where
  "CreateAPIKeyHandler rand bcrypt pg b d =
     (case DecodeKeyRequest b of
        Inl e \<Rightarrow> (d, http_Error ''Invalid JSON payload syntax'' 400)
      | Inr req \<Rightarrow>
          if kr_UserID req = '''' then (d, http_Error ''Missing required payload field: user_id'' 400)
          else (case GenerateAPIKey rand bcrypt pg d (kr_UserID req) (kr_Label req) of
             (d', Inl e) \<Rightarrow> (d', http_Error ''Internal system failure generating access key'' 500)
           | (d', Inr plainKey) \<Rightarrow> (d', write_json 201 (json_map
               [(''api_key'', JString plainKey),
                (''note'', JString ''Copy this secret key down! It will never be shown in plaintext again.'')]))))"

section \<open>Subscriptions\<close>

record SubscriptionRequest =
  sr_UserID :: string
  sr_PlanID :: string
  sr_Amount :: int
  sr_BillingPeriod :: string

definition SubscriptionRequest_fields :: struct_type where
  "SubscriptionRequest_fields = [(''user_id'', StringField), (''plan_id'', StringField), (''amount'', Int64Field), (''billing_period'', StringField)]"

definition DecodeSubscriptionRequest :: "body \<Rightarrow> SubscriptionRequest result" where
  "DecodeSubscriptionRequest b =
     (case Decode SubscriptionRequest_fields b of
        Inl e \<Rightarrow> Inl e
      | Inr m \<Rightarrow> Inr \<lparr>sr_UserID = string_field m ''user_id'', sr_PlanID = string_field m ''plan_id'', sr_Amount = int64_field m ''amount'', sr_BillingPeriod = string_field m ''billing_period''\<rparr>)"

definition subscription_json :: "Subscription \<Rightarrow> json" where
  "subscription_json s = JObject
     [(''id'', JString (sub_ID s)), (''user_id'', JString (sub_UserID s)), (''plan_id'', JString (sub_PlanID s)),
      (''amount'', JInt (sub_Amount s)), (''billing_period'', JString (sub_BillingPeriod s)),
      (''current_period_start'', JTime (CurrentPeriodStart s)), (''current_period_end'', JTime (CurrentPeriodEnd s))]"

text \<open>\<open>b\<close> is the 8-byte buffer after \<^verbatim>\<open>rand.Read\<close>, whose error is ignored.\<close>

definition CreateSubscriptionHandler ::
    "string \<Rightarrow> gotime \<Rightarrow> sub_store handler" where
  "CreateSubscriptionHandler b now r store =
     (case DecodeSubscriptionRequest (req_Body r) of
        Inl e \<Rightarrow> (store, WriteProblemResponse (req_Path r) 400 ''Malformed Request Payload''
                   ''The JSON syntax provided in the request body is invalid.'')
      | Inr req \<Rightarrow>
          (case CreateSubscription now store (''sub_'' @ hex_EncodeToString b) (sr_UserID req) (sr_PlanID req)
                  (sr_Amount req) (sr_BillingPeriod req) of
             (store', Inl e) \<Rightarrow> (store', WriteProblemResponse (req_Path r) 422 ''Subscription Processing Failed'' (Error e))
           | (store', Inr sub) \<Rightarrow> (store', write_json 201 (subscription_json sub))))"

section \<open>Disputes\<close>

record DisputeRequest =
  dr_PaymentID :: string
  dr_Reason :: string

definition DisputeRequest_fields :: struct_type where
  "DisputeRequest_fields = [(''payment_id'', StringField), (''reason'', StringField)]"

definition DecodeDisputeRequest :: "body \<Rightarrow> DisputeRequest result" where
  "DecodeDisputeRequest b =
     (case Decode DisputeRequest_fields b of
        Inl e \<Rightarrow> Inl e
      | Inr m \<Rightarrow> Inr \<lparr>dr_PaymentID = string_field m ''payment_id'', dr_Reason = string_field m ''reason''\<rparr>)"

definition dispute_json :: "Dispute \<Rightarrow> json" where
  "dispute_json d = JObject
     [(''id'', JString (d_ID d)), (''payment_id'', JString (d_PaymentID d)), (''reason'', JString (d_Reason d)),
      (''status'', JString (d_Status d)), (''created_at'', JTime (d_CreatedAt d))]"

definition CreateDisputeHandler ::
    "string \<Rightarrow> gotime \<Rightarrow> body \<Rightarrow> DisputeService \<Rightarrow> DisputeService \<times> wcall list" where
  "CreateDisputeHandler b now bd s =
     (case DecodeDisputeRequest bd of
        Inl e \<Rightarrow> (s, http_Error ''Malformed dispute payload json structure'' 400)
      | Inr req \<Rightarrow>
          (case CreateDispute now s (''dp_'' @ hex_EncodeToString b) (dr_PaymentID req) (dr_Reason req) of
             (s', Inl e) \<Rightarrow> (s', http_Error (Error e) (if e = ErrPaymentNotFound then 404 else 409))
           | (s', Inr dispute) \<Rightarrow> (s', write_json 201 (dispute_json dispute))))"

section \<open>History and health\<close>

definition transition_json :: "StateTransitionAnalysis \<Rightarrow> json" where
  "transition_json a = JObject
     [(''event_id'', JInt (ta_ID a)), (''event_type'', JString (ta_EventType a)),
      (''changed_at'', JString (ta_CreatedAt a)), (''sequence_number'', JInt (ta_SequenceNumber a)),
      (''previous_state'', JString (ta_PreviousState a))]"

text \<open>An empty result is a nil slice, which is encoded as \<^verbatim>\<open>null\<close>. The status is the implicit 200.\<close>

definition historyHandler :: "pg \<Rightarrow> db \<Rightarrow> string \<Rightarrow> wcall list" where
  "historyHandler pg d paymentID =
     (case AnalyzeTransitions pg d paymentID of
        Inl e \<Rightarrow> http_Error (Error e) 500
      | Inr analysis \<Rightarrow> [SetHeader ''Content-Type'' ''application/json'',
          Write (json_Encode (if analysis = [] then JNull else JArray (map transition_json analysis)))])"

definition health_body :: string where
  "health_body =
     (let nl = (\<lambda>n. CHR 0x0A # replicate n (CHR 0x09)); key = (\<lambda>k. CHR 0x22 # k @ [CHR 0x22] @ '': '') in
      ''{'' @ nl 2 @ key ''status'' @ [CHR 0x22] @ ''available'' @ [CHR 0x22] @ '',''
      @ nl 2 @ key ''system_info'' @ ''{''
      @ nl 3 @ key ''environment'' @ [CHR 0x22] @ ''production'' @ [CHR 0x22] @ '',''
      @ nl 3 @ key ''version'' @ [CHR 0x22] @ ''1.0.0'' @ [CHR 0x22]
      @ nl 2 @ ''}'' @ nl 1 @ ''}'')"

definition healthcheckHandler :: "wcall list" where
  "healthcheckHandler =
     [SetHeader ''Content-Type'' ''application/json'', WriteHeader 200, Write health_body]"

lemmas endpoint_defs [http_defs] = CreateAPIKeyHandler_def CreateSubscriptionHandler_def CreateDisputeHandler_def
  historyHandler_def healthcheckHandler_def

end
