(* ===== verification/Server.thy ===== *)
theory Server
  imports Handlers Idempotency Jwt AbstractLedger
begin

text \<open>
  The HTTP server that \<^verbatim>\<open>cmd/api/main.go\<close> assembles: the global middlewares in the order of the
  \<^verbatim>\<open>r.Use\<close> calls, the Redis limiter on \<^verbatim>\<open>/v1\<close>, the idempotency guard on charges and the endpoint
  handlers over the shared state. Which endpoint a request reaches is decided by the chi router,
  an argument; so are chi's \<^verbatim>\<open>RequestID\<close> and \<^verbatim>\<open>Recoverer\<close>.
\<close>

section \<open>The access log\<close>

record log_entry =
  le_method :: string
  le_path :: string
  le_status :: int
  le_duration :: duration
  le_req_id :: string

text \<open>\<open>ww_status\<close> is what chi's wrapped writer reports after the calls, \<open>reqID\<close> what \<^verbatim>\<open>GetReqID\<close> finds.\<close>

definition StructuredLogger ::
    "(wcall list \<Rightarrow> int) \<Rightarrow> string \<Rightarrow> gotime \<Rightarrow> gotime \<Rightarrow> 's handler \<Rightarrow> (log_entry list \<times> 's) handler" where
  "StructuredLogger ww_status reqID startTime endTime nxt r ls =
     (case ls of (entries, s) \<Rightarrow>
        (case nxt r s of (s', calls) \<Rightarrow>
           if req_Path r = ''/metrics'' then ((entries, s'), calls)
           else ((entries @ [\<lparr>le_method = req_Method r, le_path = req_Path r, le_status = ww_status calls,
                         le_duration = time_Since endTime startTime, le_req_id = reqID\<rparr>], s'), calls)))"

section \<open>Endpoints\<close>

text \<open>
  The routes of \<^verbatim>\<open>main\<close>. \<open>Foreign\<close> is an answer that code outside the repository gives without
  touching the state: the Prometheus page, or chi's own 404 and 405, under \<^verbatim>\<open>/v1\<close> or not.
  \<^verbatim>\<open>POST /v1/subscriptions\<close> is registered twice, once outside the \<^verbatim>\<open>/v1\<close> group.
\<close>

datatype endpoint =
    Foreign bool "wcall list"
  | Healthcheck | SubscriptionsDirect
  | AuthToken | AuthRevoke | AuthKeys | Charges | Refunds | Subscriptions | Disputes
  | History string

fun under_v1 :: "endpoint \<Rightarrow> bool" where
  "under_v1 (Foreign v1 calls) = v1"
| "under_v1 Healthcheck = False"
| "under_v1 SubscriptionsDirect = False"
| "under_v1 ep = True"

text \<open>
  The registrations: the method and the path under which an endpoint is registered. \<^verbatim>\<open>HandleFunc\<close> and
  \<^verbatim>\<open>Handle\<close> without a method take any. chi runs a handler only for a request that matches its
  registration; whatever matches none is answered by foreign code.
\<close>

fun registered :: "endpoint \<Rightarrow> string \<Rightarrow> string \<Rightarrow> bool" where
  "registered (Foreign v1 calls) meth path = True"
| "registered Healthcheck meth path = (path = ''/v1/healthcheck'')"
| "registered SubscriptionsDirect meth path = (meth = ''POST'' \<and> path = ''/v1/subscriptions'')"
| "registered AuthToken meth path = (meth = ''POST'' \<and> path = ''/v1/auth/token'')"
| "registered AuthRevoke meth path = (meth = ''POST'' \<and> path = ''/v1/auth/revoke'')"
| "registered AuthKeys meth path = (meth = ''POST'' \<and> path = ''/v1/auth/keys'')"
| "registered Charges meth path = (meth = ''POST'' \<and> path = ''/v1/charges'')"
| "registered Refunds meth path = (meth = ''POST'' \<and> path = ''/v1/refunds'')"
| "registered Subscriptions meth path = (meth = ''POST'' \<and> path = ''/v1/subscriptions'')"
| "registered Disputes meth path = (meth = ''POST'' \<and> path = ''/v1/disputes'')"
| "registered (History paymentID) meth path =
     (meth = ''GET'' \<and> path = ''/v1/payments/'' @ paymentID @ ''/history'' \<and> paymentID \<noteq> [] \<and> CHR ''/'' \<notin> set paymentID)"

definition dispatched :: "(request \<Rightarrow> endpoint) \<Rightarrow> request \<Rightarrow> bool" where
  "dispatched route r \<longleftrightarrow> registered (route r) (req_Method r) (req_Path r)"

text \<open>The state the handlers share besides Redis.\<close>

record store =
  st_db :: db
  st_subs :: sub_store
  st_disputes :: DisputeService

text \<open>
  What one request meets: the servers and their behaviour, the clock readings, the random
  bytes. \<open>e_replica_view\<close> is what the replica holds of the master's data.
\<close>

record 'r env =
  e_srv :: "'r redis"
  e_master :: pg
  e_replica :: pg
  e_replica_view :: "db \<Rightarrow> db"
  e_jwt :: jwt_lib
  e_limit :: "net \<times> int \<times> gotime"
  e_idem_get :: "net \<times> int"
  e_idem_set :: "net \<times> int"
  e_revoke :: "net \<times> int"
  e_charge :: charge_env
  e_now :: gotime
  e_now' :: gotime
  e_bytes8 :: string
  e_bytes16 :: "string result"
  e_bcrypt :: "string \<Rightarrow> string result"

definition subscriptions_route :: "'r env \<Rightarrow> ('r \<times> store) handler" where
  "subscriptions_route env r s = (case s of (rst, st) \<Rightarrow>
     (case CreateSubscriptionHandler (e_bytes8 env) (e_now env) r (st_subs st) of
        (subs', calls) \<Rightarrow> ((rst, st\<lparr>st_subs := subs'\<rparr>), calls)))"

fun endpoint_handler :: "'r env \<Rightarrow> endpoint \<Rightarrow> ('r \<times> store) handler" where
  "endpoint_handler env (Foreign v1 calls) r s = (s, calls)"
| "endpoint_handler env Healthcheck r s = (s, healthcheckHandler)"
| "endpoint_handler env AuthToken r s = (s, IssueTokenHandler (e_jwt env) (e_now env) (e_now' env) (req_Body r))"
| "endpoint_handler env AuthRevoke r (rst, st) =
     (case RevokeTokenHandler (e_srv env) (fst (e_revoke env)) (snd (e_revoke env)) r rst of
        (rst', calls) \<Rightarrow> ((rst', st), calls))"
| "endpoint_handler env AuthKeys r (rst, st) =
     (case CreateAPIKeyHandler (e_bytes16 env) (e_bcrypt env) (e_master env) (req_Body r) (st_db st) of
        (d', calls) \<Rightarrow> ((rst, st\<lparr>st_db := d'\<rparr>), calls))"
| "endpoint_handler env Charges r (rst, st) =
     (case Handle (e_srv env) (fst (e_idem_get env)) (snd (e_idem_get env)) (fst (e_idem_set env)) (snd (e_idem_set env))
             (\<lambda>r. ChargeHandlerOn (e_srv env) (e_master env) (e_charge env) (req_Body r)) r (rst, st_db st) of
        ((rst', d'), calls) \<Rightarrow> ((rst', st\<lparr>st_db := d'\<rparr>), calls))"
| "endpoint_handler env Refunds r (rst, st) =
     (case CreateRefundHandler (sql_service (e_master env)) (req_Body r) (st_db st) of
        (d', calls) \<Rightarrow> ((rst, st\<lparr>st_db := d'\<rparr>), calls))"
| "endpoint_handler env Subscriptions r s = subscriptions_route env r s"
| "endpoint_handler env SubscriptionsDirect r s = subscriptions_route env r s"
| "endpoint_handler env Disputes r (rst, st) =
     (case CreateDisputeHandler (e_bytes8 env) (e_now env) (req_Body r) (st_disputes st) of
        (ds', calls) \<Rightarrow> ((rst, st\<lparr>st_disputes := ds'\<rparr>), calls))"
| "endpoint_handler env (History paymentID) r (rst, st) =
     ((rst, st), historyHandler (e_replica env) (e_replica_view env (st_db st)) paymentID)"

definition router :: "'r env \<Rightarrow> (request \<Rightarrow> endpoint) \<Rightarrow> ('r \<times> store) handler" where
  "router env route r =
     (let ep = route r in
      if under_v1 ep
      then (case e_limit env of (net, t, now) \<Rightarrow> Limit (e_srv env) net t now (endpoint_handler env ep) r)
      else endpoint_handler env ep r)"

section \<open>The chain of middlewares\<close>

text \<open>The clock readings of the middlewares and what chi contributes.\<close>

record chain_env =
  c_start :: gotime
  c_end :: gotime
  c_log_start :: gotime
  c_log_end :: gotime
  c_seen :: gotime
  c_allow_at :: gotime
  c_ww_status :: "wcall list \<Rightarrow> int"
  c_req_id :: string

type_synonym ('r, 'l) limited = "'l clients \<times> 'r \<times> store"
type_synonym ('r, 'l) server = "metrics \<times> log_entry list \<times> ('r, 'l) limited"

definition serve ::
    "(('r, 'l) server handler \<Rightarrow> ('r, 'l) server handler) \<Rightarrow> (('r, 'l) limited handler \<Rightarrow> ('r, 'l) limited handler) \<Rightarrow>
     (gotime \<Rightarrow> 'l \<Rightarrow> bool \<times> 'l) \<Rightarrow> 'l \<Rightarrow> chain_env \<Rightarrow> 'r env \<Rightarrow> (request \<Rightarrow> endpoint) \<Rightarrow> ('r, 'l) server handler" where
  "serve RequestID Recoverer allow fresh c env route =
     RequestID (MetricsTracker (c_start c) (c_end c)
       (StructuredLogger (c_ww_status c) (c_req_id c) (c_log_start c) (c_log_end c)
         (Recoverer (CORSSecurityMiddleware
           (RateLimitMiddleware allow fresh (c_seen c) (c_allow_at c)
             (swaggerCORS (router env route)))))))"

text \<open>
  chi's \<^verbatim>\<open>RequestID\<close> only adds to the context of the request, and \<^verbatim>\<open>Recoverer\<close> only acts on a panic,
  of which the modelled handlers have none: both hand the request on.
\<close>

definition hands_on :: "('s handler \<Rightarrow> 's handler) \<Rightarrow> bool" where
  "hands_on mw \<longleftrightarrow> (\<forall>h. mw h = h)"

section \<open>One status per response\<close>

text \<open>
  A handler sends its status once when it calls \<^verbatim>\<open>WriteHeader\<close> at most once and not after a
  \<^verbatim>\<open>Write\<close>. Then the code a wrapper records is the code that is sent.
\<close>

fun no_status :: "wcall list \<Rightarrow> bool" where
  "no_status [] = True"
| "no_status (WriteHeader c # calls) = False"
| "no_status (x # calls) = no_status calls"

fun single_status :: "wcall list \<Rightarrow> bool" where
  "single_status [] = True"
| "single_status (SetHeader k v # calls) = single_status calls"
| "single_status (WriteHeader c # calls) = no_status calls"
| "single_status (Write b # calls) = no_status calls"





text \<open>What the handlers write: one status out of a fixed set.\<close>

definition answers :: "int set \<Rightarrow> wcall list \<Rightarrow> bool" where
  "answers codes calls \<longleftrightarrow> single_status calls \<and> last_code 200 calls \<in> codes"

lemma answers_simps [simp]:
  "answers codes (http_Error msg c) \<longleftrightarrow> c \<in> codes"
  "answers codes (WriteProblemResponse path c title detail) \<longleftrightarrow> c \<in> codes"
  "answers codes (write_json c value) \<longleftrightarrow> c \<in> codes"
  "answers codes [WriteHeader c] \<longleftrightarrow> c \<in> codes"
  "answers codes (cached_reply body) \<longleftrightarrow> 200 \<in> codes"
  "answers codes [WriteHeader c, Write b] \<longleftrightarrow> c \<in> codes"
  "answers codes [Write b] \<longleftrightarrow> 200 \<in> codes"
  "answers codes (SetHeader k v # calls) \<longleftrightarrow> answers codes calls"
  by (simp_all add: answers_def http_Error_def WriteProblemResponse_def write_json_def cached_reply_def)







text \<open>The chain below the logger, for any request.\<close>

definition guarded_chain ::
    "(gotime \<Rightarrow> 'l \<Rightarrow> bool \<times> 'l) \<Rightarrow> 'l \<Rightarrow> chain_env \<Rightarrow> 'r env \<Rightarrow> (request \<Rightarrow> endpoint) \<Rightarrow> ('r, 'l) limited handler" where
  "guarded_chain allow fresh c env route = CORSSecurityMiddleware
     (RateLimitMiddleware allow fresh (c_seen c) (c_allow_at c) (swaggerCORS (router env route)))"


lemma serve_split:
  assumes "hands_on RequestID" and "hands_on Recoverer"
    and "serve RequestID Recoverer allow fresh c env route r (m, entries, s) = ((m', entries', s'), calls)"
  shows "guarded_chain allow fresh c env route r s = (s', calls)"
    and "httpRequestsTotal m' = (let key = (req_Path r, req_Method r, itoa (last_code 200 calls)) in
      (httpRequestsTotal m)(key := httpRequestsTotal m key + 1))"
proof -
  obtain s2 calls2 where g: "guarded_chain allow fresh c env route r s = (s2, calls2)" by fastforce
  have "serve RequestID Recoverer allow fresh c env route = MetricsTracker (c_start c) (c_end c)
      (StructuredLogger (c_ww_status c) (c_req_id c) (c_log_start c) (c_log_end c) (guarded_chain allow fresh c env route))"
    using assms(1,2) by (simp add: serve_def hands_on_def guarded_chain_def)
  with assms(3) g
  have "s' = s2" "calls = calls2" and "httpRequestsTotal m' = (let key = (req_Path r, req_Method r, itoa (last_code 200 calls)) in
      (httpRequestsTotal m)(key := httpRequestsTotal m key + 1))"
    by (auto simp: MetricsTracker_def StructuredLogger_def Let_def split: if_splits)
  with g show "guarded_chain allow fresh c env route r s = (s', calls)"
    and "httpRequestsTotal m' = (let key = (req_Path r, req_Method r, itoa (last_code 200 calls)) in
      (httpRequestsTotal m)(key := httpRequestsTotal m key + 1))" by simp_all
qed

section \<open>A concrete server\<close>

text \<open>The server of the closed examples: one wallet, an empty Redis, and a charge of 200 as the body.\<close>

definition senv0 :: "keyspace env" where
  "senv0 = \<lparr>e_srv = keyspace_server, e_master = pg0, e_replica = pg0, e_replica_view = (\<lambda>d. d), e_jwt = lib0,
     e_limit = (NetOk, 0, epoch), e_idem_get = (NetOk, 0), e_idem_set = (NetOk, 2), e_revoke = (NetOk, 0),
     e_charge = env0, e_now = epoch, e_now' = epoch, e_bytes8 = '''', e_bytes16 = Inr '''', e_bcrypt = Inr\<rparr>"

definition cenv0 :: chain_env where
  "cenv0 = \<lparr>c_start = epoch, c_end = epoch, c_log_start = epoch, c_log_end = epoch, c_seen = epoch, c_allow_at = epoch,
     c_ww_status = last_code 0, c_req_id = ''''\<rparr>"

definition server0 :: "(keyspace, nat \<times> int option) server" where
  "server0 = (\<lparr>httpRequestsTotal = (\<lambda>_. 0), httpRequestDuration = (\<lambda>_. [])\<rparr>, [], Map.empty, (\<lambda>_. None),
     \<lparr>st_db = wallet_db, st_subs = Map.empty, st_disputes = NewDisputeService\<rparr>)"

abbreviation serve0 :: "endpoint \<Rightarrow> (keyspace, nat \<times> int option) server handler" where
  "serve0 ep \<equiv> serve (\<lambda>h. h) (\<lambda>h. h) bucket_allow (2000000000, None) cenv0 senv0 (\<lambda>_. ep)"

lemma hands_on_id [simp]: "hands_on (\<lambda>h. h)"
  by (simp add: hands_on_def)

lemma limiter0:
  "fst (luaScript keyspace_server 0 (rate_key charge_request0) 0 60 1000 (\<lambda>_. None)) = 1"
  "snd (luaScript keyspace_server 0 (rate_key charge_request0) 0 60 1000 (\<lambda>_. None)) (lock_key ''u1'') = None"
  by (simp_all add: luaScript_def keyspace_server_def ks_zupdate_def ks_members_def ks_live_def Let_def
      rate_key_def charge_request0_def request0_def header_Get_def lock_key_def)

lemma router0:
  "\<exists>ks p. router senv0 (\<lambda>_. Charges) charge_request0 (\<lambda>_. None, st) =
     ((ks, st\<lparr>st_db := paid_db\<rparr>), write_json 200 (payment_json p))" if "st_db st = wallet_db"
proof -
  let ?ks = "snd (luaScript keyspace_server 0 (rate_key charge_request0) 0 60 1000 (\<lambda>_. None))"
  obtain p where "ChargeHandlerOn keyspace_server pg0 env0 body0 (?ks, wallet_db)
      = ((?ks, paid_db), write_json 200 (payment_json p))"
    using charge0_run_on[of ?ks] limiter0(2) by blast
  then have "endpoint_handler senv0 Charges charge_request0 (?ks, st) = ((?ks, st\<lparr>st_db := paid_db\<rparr>), write_json 200 (payment_json p))"
    using that by (simp add: senv0_def Handle_def charge_request0_def request0_def header_Get_def)
  then show ?thesis
    using limiter0(1) by (auto simp: router_def Limit_def senv0_def epoch_def time_Unix_def case_prod_beta)
qed

lemma guarded0:
  "\<exists>cl ks p. guarded_chain bucket_allow (2000000000, None) cenv0 senv0 (\<lambda>_. Charges) charge_request0 (snd (snd server0)) =
     ((cl, ks, \<lparr>st_db = paid_db, st_subs = Map.empty, st_disputes = NewDisputeService\<rparr>),
      [SetHeader ''Access-Control-Allow-Origin'' ''*'',
       SetHeader ''Access-Control-Allow-Methods'' ''POST, GET, OPTIONS, PUT, DELETE'',
       SetHeader ''Access-Control-Allow-Headers'' ''Content-Type, Authorization'',
       SetHeader ''Access-Control-Allow-Origin'' ''http://localhost:8081'',
       SetHeader ''Access-Control-Allow-Methods'' ''POST, GET, OPTIONS, PUT, DELETE'',
       SetHeader ''Access-Control-Allow-Headers''
         ''Accept, Content-Type, Content-Length, Accept-Encoding, X-CSRF-Token, Authorization'']
      @ write_json 200 (payment_json p))"
proof -
  have ip: "SplitHost (req_RemoteAddr charge_request0) = Some ''10.0.0.1''" by code_simp
  obtain cl where adm: "admit bucket_allow (2000000000, None) epoch epoch ''10.0.0.1'' Map.empty = (True, cl)"
    by (simp add: admit_def bucket_allow_def epoch_def)
  obtain ks p where run: "router senv0 (\<lambda>_. Charges) charge_request0
      (\<lambda>_. None, \<lparr>st_db = wallet_db, st_subs = Map.empty, st_disputes = NewDisputeService\<rparr>) =
     ((ks, \<lparr>st_db = paid_db, st_subs = Map.empty, st_disputes = NewDisputeService\<rparr>), write_json 200 (payment_json p))"
    using router0[of "\<lparr>st_db = wallet_db, st_subs = Map.empty, st_disputes = NewDisputeService\<rparr>"] by auto
  have "req_Method charge_request0 \<noteq> ''OPTIONS''" by (simp add: charge_request0_def request0_def)
  then show ?thesis
    by (simp add: guarded_chain_def CORSSecurityMiddleware_def RateLimitMiddleware_def swaggerCORS_def Let_def
        server0_def cenv0_def ip adm run) blast
qed



section \<open>Preflight requests\<close>

text \<open>
  A preflight request is answered by the first CORS middleware: status 200, every origin
  allowed, and as request headers only \<^verbatim>\<open>Content-Type\<close> and \<^verbatim>\<open>Authorization\<close>. It is not rate limited and
  neither the database nor Redis nor any other state of the application is touched.
\<close>

theorem preflight_answered_first:
  assumes "hands_on RequestID" and "hands_on Recoverer" and "req_Method r = ''OPTIONS''"
    and "serve RequestID Recoverer allow fresh c env route r (m, entries, s) = ((m', entries', s'), calls)"
  shows "s' = s \<and> rsp_status (render calls) = 200 \<and> rsp_body (render calls) = ''''
    \<and> rsp_headers (render calls) ''Access-Control-Allow-Origin'' = Some ''*''
    \<and> rsp_headers (render calls) ''Access-Control-Allow-Headers'' = Some ''Content-Type, Authorization''"
  using serve_split(1)[OF assms(1,2,4)] assms(3)
  by (auto simp: guarded_chain_def CORSSecurityMiddleware_def writer_defs)

theorem preflight_answered_first_witness:
  "case serve0 Charges (charge_request0\<lparr>req_Method := ''OPTIONS''\<rparr>) server0 of ((m', entries', s'), calls) \<Rightarrow>
     s' = snd (snd server0) \<and> rsp_status (render calls) = 200
     \<and> rsp_headers (render calls) ''Access-Control-Allow-Origin'' = Some ''*''"
proof -
  obtain m' entries' s' calls where
    run: "serve0 Charges (charge_request0\<lparr>req_Method := ''OPTIONS''\<rparr>) server0 = ((m', entries', s'), calls)"
    by (metis prod_cases3 surj_pair)
  then have run': "serve0 Charges (charge_request0\<lparr>req_Method := ''OPTIONS''\<rparr>)
      (fst server0, fst (snd server0), snd (snd server0)) = ((m', entries', s'), calls)"
    by simp
  from preflight_answered_first[OF hands_on_id hands_on_id _ run'] run show ?thesis by simp
qed

section \<open>What a request does to the ledger\<close>

lemma ChargeHandler_db:
  assumes "ChargeHandlerOn srv pg env b (rst, d) = ((rst', d'), calls)"
  shows "d' = d \<or> (\<exists>now userID amount currency res. ChargeOn pg now d userID amount currency = (d', res))"
  using assms by (auto simp: CreateChargeHandler_def Let_def split: sum.splits prod.splits if_splits)

lemma Handle_db:
  assumes "Handle srv n1 t1 n2 t2 (\<lambda>r. ChargeHandlerOn srv' pg env (req_Body r)) r (rst, d) = ((rst', d'), calls)"
  shows "d' = d \<or> (\<exists>now userID amount currency res. ChargeOn pg now d userID amount currency = (d', res))"
  using assms
  by (auto simp: Handle_def idem_finish_def Let_def split: if_splits option.splits prod.splits dest!: ChargeHandler_db)

lemma RefundHandler_db:
  assumes "CreateRefundHandler (sql_service pg) b d = (d', calls)"
  shows "d' = d \<or> (\<exists>paymentID res. RefundOn pg d paymentID = (d', res))"
  using assms by (auto simp: CreateRefundHandler_def split: sum.splits if_splits prod.splits)

lemma KeyHandler_db:
  assumes "CreateAPIKeyHandler rand bcrypt pg b d = (d', calls)"
  shows "d' = d \<or> (\<exists>userID label res. GenerateAPIKey rand bcrypt pg d userID label = (d', res))"
  using assms by (auto simp: CreateAPIKeyHandler_def split: sum.splits if_splits prod.splits)

lemma endpoint_db:
  assumes e: "engine_for uin (e_master env)"
    and run: "endpoint_handler env ep r (rst, st) = ((rst', st'), calls)"
  shows "st_db st' = st_db st \<or> ledger_step uin (st_db st) (st_db st')
    \<and> (ep \<in> {Charges, Refunds} \<or> book_of (st_db st') = book_of (st_db st))"
proof (cases ep)
  case Charges
  with run obtain d' where H: "Handle (e_srv env) (fst (e_idem_get env)) (snd (e_idem_get env)) (fst (e_idem_set env))
      (snd (e_idem_set env)) (\<lambda>r. ChargeHandlerOn (e_srv env) (e_master env) (e_charge env) (req_Body r)) r
      (rst, st_db st) = ((rst', d'), calls)" and "st' = st\<lparr>st_db := d'\<rparr>"
    by (auto split: prod.splits)
  with Handle_db[OF H] step_charge[OF e] Charges show ?thesis by auto
next
  case Refunds
  with run obtain d' where H: "CreateRefundHandler (sql_service (e_master env)) (req_Body r) (st_db st) = (d', calls)"
    and "st' = st\<lparr>st_db := d'\<rparr>" by (auto split: prod.splits)
  with RefundHandler_db[OF H] step_refund[OF e] Refunds show ?thesis by auto
next
  case AuthKeys
  with run obtain d' where
    H: "CreateAPIKeyHandler (e_bytes16 env) (e_bcrypt env) (e_master env) (req_Body r) (st_db st) = (d', calls)"
    and "st' = st\<lparr>st_db := d'\<rparr>" by (auto split: prod.splits)
  with KeyHandler_db[OF H] step_key[OF e] key_invisible show ?thesis by fastforce
qed (use run in \<open>auto simp: subscriptions_route_def split: prod.splits\<close>)

lemma guarded_chain_db:
  assumes e: "engine_for uin (e_master env)"
    and run: "guarded_chain allow fresh c env route r (cl, rst, st) = ((cl', rst', st'), calls)"
  shows "st_db st' = st_db st \<or> ledger_step uin (st_db st) (st_db st') \<and> req_Method r \<noteq> ''OPTIONS''
      \<and> (route r \<in> {Charges, Refunds} \<or> book_of (st_db st') = book_of (st_db st))"
proof (cases "st' = st")
  case False
  with run obtain rst1 calls1 where "router env route r (rst, st) = ((rst', st'), calls1)" and opt: "req_Method r \<noteq> ''OPTIONS''"
    by (auto simp: guarded_chain_def CORSSecurityMiddleware_def RateLimitMiddleware_def swaggerCORS_def Let_def
        split: if_splits prod.splits option.splits)
  with False obtain rst2 where "endpoint_handler env (route r) r (rst2, st) = ((rst', st'), calls1)"
    by (auto simp: router_def Limit_def Let_def split: if_splits prod.splits sum.splits)
  from endpoint_db[OF e this] opt show ?thesis by blast
qed simp

text \<open>
  C9. Every HTTP request, through the whole chain of middlewares and whatever fails on the way,
  keeps the invariant of the ledger and is at most one event of the abstract book; only a \<^verbatim>\<open>POST\<close>
  to \<^verbatim>\<open>/v1/charges\<close> or \<^verbatim>\<open>/v1/refunds\<close> changes the book at all.
\<close>

theorem request_refines_book:
  assumes "hands_on RequestID" and "hands_on Recoverer" and disp: "dispatched route r"
    and inv: "ledger_inv uin (st_db st)" and e: "engine_for uin (e_master env)"
    and run: "serve RequestID Recoverer allow fresh c env route r (m, entries, cl, rst, st)
      = ((m', entries', cl', rst', st'), calls)"
  shows "ledger_inv uin (st_db st')
    \<and> (book_of (st_db st') = book_of (st_db st)
       \<or> book_step (book_of (st_db st)) (book_of (st_db st'))
         \<and> req_Method r = ''POST'' \<and> req_Path r \<in> {''/v1/charges'', ''/v1/refunds''})"
proof -
  note D = guarded_chain_db[OF e serve_split(1)[OF assms(1,2) run]]
  have "req_Method r = ''POST'' \<and> req_Path r \<in> {''/v1/charges'', ''/v1/refunds''}" if "route r \<in> {Charges, Refunds}"
    using that disp by (auto simp: dispatched_def)
  then show ?thesis
    using D inv ledger.inv_step[OF inv] ledger_step_simulated[OF inv] by fastforce
qed

theorem request_refines_book_witness:
  "case serve0 Charges charge_request0 server0 of ((m', entries', cl', rst', st'), calls) \<Rightarrow>
     ledger_inv uin0 (st_db st') \<and> book_step (book_of wallet_db) (book_of (st_db st'))
     \<and> wallet (book_of (st_db st')) ''u1'' = Some 300"
proof -
  obtain m' entries' cl' rst' st' calls where
    run: "serve0 Charges charge_request0 server0 = ((m', entries', cl', rst', st'), calls)"
    by (metis prod_cases3 surj_pair)
  then have run': "serve0 Charges charge_request0 (fst server0, fst (snd server0), snd (snd server0))
      = ((m', entries', cl', rst', st'), calls)" by simp
  have db: "st_db st' = paid_db"
    using serve_split(1)[OF hands_on_id hands_on_id run'] guarded0 by auto
  have wallet: "wallet (book_of paid_db) ''u1'' = Some 300" "wallet (book_of wallet_db) ''u1'' = Some 500"
    by (simp_all add: book_of_def find_user_def paid_db_eq wallet_defs user0_def)
  then have "book_of paid_db \<noteq> book_of wallet_db" by auto
  moreover have "ledger_inv uin0 (st_db st') \<and> (book_of (st_db st') = book_of wallet_db
      \<or> book_step (book_of wallet_db) (book_of (st_db st')) \<and> req_Method charge_request0 = ''POST''
        \<and> req_Path charge_request0 \<in> {''/v1/charges'', ''/v1/refunds''})"
    using request_refines_book[OF hands_on_id hands_on_id _ _ _ run[unfolded server0_def], of uin0] wallet_inv engine0(1)
    by (simp add: senv0_def dispatched_def charge_request0_def request0_def)
  ultimately show ?thesis using run wallet db by simp
qed

end
