(* ===== verification/Wiring.thy ===== *)
theory Wiring
  imports Config Server
begin

text \<open>
  How \<^verbatim>\<open>main\<close> puts the parts together: the structs that hold a connection pool, a Redis client or
  another part, their constructors, and the order in which \<^verbatim>\<open>cmd/api/main.go\<close> calls them; and the methods of
  the repositories on the pools they hold, each with the node that it chooses. With it one can say on
  which database a statement runs. What the methods do there, the handlers and the middlewares are
  in their own theories.
\<close>

section \<open>Redis and its users\<close>

record redis_Client =
  rc_Addr :: string
  rc_Password :: string

text \<open>\<^verbatim>\<open>os.Getenv\<close> gives the empty string for an unset variable.\<close>

definition redis_NewClient :: "(string \<rightharpoonup> string) \<Rightarrow> Config \<Rightarrow> redis_Client" where
  "redis_NewClient env cfg = \<lparr>rc_Addr = redisAddr cfg, rc_Password = getEnv env ''REDIS_PASSWORD'' ''''\<rparr>"

record DistributedLock =
  dl_client :: redis_Client

definition NewDistributedLock :: "redis_Client \<Rightarrow> DistributedLock" where
  "NewDistributedLock c = \<lparr>dl_client = c\<rparr>"

record IdempotencyMiddleware =
  im_rdb :: redis_Client

definition NewIdempotencyMiddleware :: "redis_Client \<Rightarrow> IdempotencyMiddleware" where
  "NewIdempotencyMiddleware c = \<lparr>im_rdb = c\<rparr>"

record RateLimiterMiddleware =
  rl_rdb :: redis_Client

definition NewRateLimiterMiddleware :: "redis_Client \<Rightarrow> RateLimiterMiddleware" where
  "NewRateLimiterMiddleware c = \<lparr>rl_rdb = c\<rparr>"

record ('priv, 'pub) JWTAuthService =
  privateKey :: 'priv
  publicKey :: 'pub
  jwt_rdb :: redis_Client

text \<open>Reading files and parsing keys are arguments.\<close>

definition NewJWTAuthService ::
    "(string \<Rightarrow> string result) \<Rightarrow> (string \<Rightarrow> 'priv result) \<Rightarrow> (string \<Rightarrow> 'pub result) \<Rightarrow> redis_Client \<Rightarrow> string \<Rightarrow> string \<Rightarrow>
     ('priv, 'pub) JWTAuthService result" where
  "NewJWTAuthService ReadFile ParsePrivate ParsePublic rdb privateKeyPath publicKeyPath =
     (case ReadFile privateKeyPath of
        Inl e \<Rightarrow> Inl e
      | Inr privBytes \<Rightarrow>
          (case ParsePrivate privBytes of
             Inl e \<Rightarrow> Inl e
           | Inr privKey \<Rightarrow>
               (case ReadFile publicKeyPath of
                  Inl e \<Rightarrow> Inl e
                | Inr pubBytes \<Rightarrow>
                    (case ParsePublic pubBytes of
                       Inl e \<Rightarrow> Inl e
                     | Inr pubKey \<Rightarrow> Inr \<lparr>privateKey = privKey, publicKey = pubKey, jwt_rdb = rdb\<rparr>))))"

section \<open>Repositories\<close>

record UserRepository =
  ur_db :: sql_DB

definition NewUserRepository :: "sql_DB \<Rightarrow> UserRepository" where
  "NewUserRepository p = \<lparr>ur_db = p\<rparr>"

record KeyRepository =
  kr_db :: sql_DB

definition NewKeyRepository :: "sql_DB \<Rightarrow> KeyRepository" where
  "NewKeyRepository p = \<lparr>kr_db = p\<rparr>"

record AuditRepository =
  ar_cluster :: DatabaseCluster

definition NewAuditRepository :: "DatabaseCluster \<Rightarrow> AuditRepository" where
  "NewAuditRepository c = \<lparr>ar_cluster = c\<rparr>"

record sqlPaymentRepository =
  spr_cluster :: DatabaseCluster

definition NewPaymentRepository_pools :: "DatabaseCluster \<Rightarrow> sqlPaymentRepository" where
  "NewPaymentRepository_pools c = \<lparr>spr_cluster = c\<rparr>"

section \<open>Services, handlers and workers\<close>

record AuthService =
  as_keyRepo :: KeyRepository

definition NewAuthService :: "KeyRepository \<Rightarrow> AuthService" where
  "NewAuthService kr = \<lparr>as_keyRepo = kr\<rparr>"

text \<open>The outbox repository has no fields.\<close>

record wired_PaymentService =
  wps_paymentRepo :: sqlPaymentRepository

definition NewPaymentService_pools :: "sqlPaymentRepository \<Rightarrow> wired_PaymentService" where
  "NewPaymentService_pools pr = \<lparr>wps_paymentRepo = pr\<rparr>"

record AuthHandler =
  ah_authService :: AuthService

definition NewAuthHandler :: "AuthService \<Rightarrow> AuthHandler" where
  "NewAuthHandler s = \<lparr>ah_authService = s\<rparr>"

record wired_PaymentHandler =
  ph_service :: wired_PaymentService
  ph_locker :: DistributedLock

definition NewPaymentHandler :: "wired_PaymentService \<Rightarrow> DistributedLock \<Rightarrow> wired_PaymentHandler" where
  "NewPaymentHandler s l = \<lparr>ph_service = s, ph_locker = l\<rparr>"

record ('priv, 'pub) JWTAuthHandler =
  jh_jwtService :: "('priv, 'pub) JWTAuthService"

definition NewJWTAuthHandler :: "('priv, 'pub) JWTAuthService \<Rightarrow> ('priv, 'pub) JWTAuthHandler" where
  "NewJWTAuthHandler s = \<lparr>jh_jwtService = s\<rparr>"

record AdvancedWebhookWorker =
  aw_db :: sql_DB
  aw_paymentRepo :: sqlPaymentRepository
  aw_timeout :: duration

definition NewAdvancedWebhookWorker :: "sql_DB \<Rightarrow> sqlPaymentRepository \<Rightarrow> AdvancedWebhookWorker" where
  "NewAdvancedWebhookWorker p pr = \<lparr>aw_db = p, aw_paymentRepo = pr, aw_timeout = 10 * Second\<rparr>"

text \<open>
  Asynq opens its own connections to Redis. Its server has its options, its concurrency and the weights of
  its queues.
\<close>

record RedisClientOpt =
  opt_Addr :: string
  opt_Password :: string

definition asynq_server_opt :: "(string \<rightharpoonup> string) \<Rightarrow> Config \<Rightarrow> RedisClientOpt" where
  "asynq_server_opt env cfg = \<lparr>opt_Addr = RedisHost cfg @ '':'' @ RedisPort cfg, opt_Password = getEnv env ''REDIS_PASSWORD'' ''''\<rparr>"

definition asynq_client_opt :: "(string \<rightharpoonup> string) \<Rightarrow> Config \<Rightarrow> RedisClientOpt" where
  "asynq_client_opt env cfg = \<lparr>opt_Addr = RedisHost cfg @ '':'' @ RedisPort cfg, opt_Password = getEnv env ''REDIS_PASSWORD'' ''''\<rparr>"

record wired_OutboxWorker =
  ow_dbCluster :: DatabaseCluster
  ow_asynqClient :: RedisClientOpt
  ow_pollInterval :: duration

definition NewOutboxWorker :: "DatabaseCluster \<Rightarrow> RedisClientOpt \<Rightarrow> duration \<Rightarrow> wired_OutboxWorker" where
  "NewOutboxWorker c q interval = \<lparr>ow_dbCluster = c, ow_asynqClient = q, ow_pollInterval = interval\<rparr>"

record asynq_Server =
  aq_redis :: RedisClientOpt
  aq_Concurrency :: int
  aq_Queues :: "string \<rightharpoonup> int"
  aq_handlers :: "string \<rightharpoonup> AdvancedWebhookWorker"

definition asynq_server :: "RedisClientOpt \<Rightarrow> AdvancedWebhookWorker \<Rightarrow> asynq_Server" where
  "asynq_server opt w = \<lparr>aq_redis = opt, aq_Concurrency = 5, aq_Queues = [''critical'' \<mapsto> 6, ''default'' \<mapsto> 3],
     aq_handlers = [TypeWebhookRetryEvent \<mapsto> w]\<rparr>"

section \<open>The program\<close>

record ('priv, 'pub) wired =
  w_userRepo :: UserRepository
  w_auditRepo :: AuditRepository
  w_authHand :: AuthHandler
  w_paymentHand :: wired_PaymentHandler
  w_jwtHand :: "('priv, 'pub) JWTAuthHandler"
  w_idemMW :: IdempotencyMiddleware
  w_rateMW :: RateLimiterMiddleware
  w_asynqServer :: asynq_Server
  w_outboxWorker :: wired_OutboxWorker

definition wire ::
    "(string \<rightharpoonup> string) \<Rightarrow> Config \<Rightarrow> DatabaseCluster \<Rightarrow> redis_Client \<Rightarrow> ('priv, 'pub) JWTAuthService \<Rightarrow> ('priv, 'pub) wired" where
  "wire env cfg dbCluster rdb jwtServ =
     (let paymentLocker = NewDistributedLock rdb;
          userRepo = NewUserRepository (Master dbCluster);
          keyRepo = NewKeyRepository (Master dbCluster);
          paymentRepo = NewPaymentRepository_pools dbCluster;
          auditRepo = NewAuditRepository dbCluster;
          authServ = NewAuthService keyRepo;
          paymentServ = NewPaymentService_pools paymentRepo;
          advancedWorker = NewAdvancedWebhookWorker (Master dbCluster) paymentRepo
      in \<lparr>w_userRepo = userRepo, w_auditRepo = auditRepo, w_authHand = NewAuthHandler authServ,
          w_paymentHand = NewPaymentHandler paymentServ paymentLocker, w_jwtHand = NewJWTAuthHandler jwtServ,
          w_idemMW = NewIdempotencyMiddleware rdb, w_rateMW = NewRateLimiterMiddleware rdb,
          w_asynqServer = asynq_server (asynq_server_opt env cfg) advancedWorker,
          w_outboxWorker = NewOutboxWorker dbCluster (asynq_client_opt env cfg) (2 * Second)\<rparr>)"

lemmas wiring_defs = wire_def NewDistributedLock_def NewIdempotencyMiddleware_def NewRateLimiterMiddleware_def
  NewUserRepository_def NewKeyRepository_def NewAuditRepository_def NewPaymentRepository_pools_def NewAuthService_def NewPaymentService_pools_def
  NewAuthHandler_def NewPaymentHandler_def NewJWTAuthHandler_def NewOutboxWorker_def NewAdvancedWebhookWorker_def asynq_server_def
  asynq_server_opt_def asynq_client_opt_def Let_def

section \<open>The methods on their nodes\<close>

text \<open>The database behind each connection string; a pool reaches the one of its string.\<close>

type_synonym nodes = "string \<Rightarrow> db"

definition on_pool :: "sql_DB \<Rightarrow> (db \<Rightarrow> db \<times> 'a) \<Rightarrow> nodes \<Rightarrow> nodes \<times> 'a" where
  "on_pool p f ns = (case f (ns (dsn p)) of (d', a) \<Rightarrow> (ns(dsn p := d'), a))"

definition read_pool :: "sql_DB \<Rightarrow> (db \<Rightarrow> 'a) \<Rightarrow> nodes \<Rightarrow> nodes \<times> 'a" where
  "read_pool p f ns = (ns, f (ns (dsn p)))"

subsection \<open>The payment repository and the service over it\<close>

text \<open>\<^verbatim>\<open>BeginTx\<close> opens the transaction that the service and \<^verbatim>\<open>CreateTransactionRecord\<close> work in.\<close>

definition repo_tx_pool :: "sqlPaymentRepository \<Rightarrow> sql_DB" where
  "repo_tx_pool r = Master (spr_cluster r)"

definition service_ProcessCharge ::
    "wired_PaymentService \<Rightarrow> pg \<Rightarrow> gotime \<Rightarrow> string \<Rightarrow> int \<Rightarrow> string \<Rightarrow> nodes \<Rightarrow> nodes \<times> Payment result" where
  "service_ProcessCharge s pg now userID amount currency =
     on_pool (repo_tx_pool (wps_paymentRepo s)) (\<lambda>d. ChargeOn pg now d userID amount currency)"

definition repo_CreateTransactionRecord ::
    "sqlPaymentRepository \<Rightarrow> pg \<Rightarrow> string \<Rightarrow> int \<Rightarrow> string \<Rightarrow> nodes \<Rightarrow> nodes \<times> Payment result" where
  "repo_CreateTransactionRecord r pg userID amount currency =
     on_pool (repo_tx_pool r) (\<lambda>d. CreateTransactionRecord pg d userID amount currency)"

definition repo_Refund :: "sqlPaymentRepository \<Rightarrow> pg \<Rightarrow> string \<Rightarrow> nodes \<Rightarrow> nodes \<times> Payment result" where
  "repo_Refund r pg paymentID = on_pool (Master (spr_cluster r)) (\<lambda>d. RefundTransactionRecord pg d paymentID)"

definition service_ProcessRefund :: "wired_PaymentService \<Rightarrow> pg \<Rightarrow> string \<Rightarrow> nodes \<Rightarrow> nodes \<times> Payment result" where
  "service_ProcessRefund s pg paymentID ns =
     (if paymentID = '''' then (ns, Inl (ErrNew ''payment tracking reference ID cannot be empty''))
      else repo_Refund (wps_paymentRepo s) pg paymentID ns)"

definition repo_UpdatePaymentStatus ::
    "sqlPaymentRepository \<Rightarrow> pg \<Rightarrow> string \<Rightarrow> string \<Rightarrow> nodes \<Rightarrow> nodes \<times> goerr option" where
  "repo_UpdatePaymentStatus r pg paymentID nextStatus =
     on_pool (Master (spr_cluster r)) (\<lambda>d. UpdatePaymentStatus pg d paymentID nextStatus)"

definition repo_GetPaginatedTransactions ::
    "sqlPaymentRepository \<Rightarrow> pg \<Rightarrow> TransactionQuery \<Rightarrow> nodes \<Rightarrow> nodes \<times> (Transaction list \<times> string) result" where
  "repo_GetPaginatedTransactions r pg q = read_pool (Replica (spr_cluster r)) (\<lambda>d. GetPaginatedTransactions pg d q)"

subsection \<open>The audit repository\<close>

definition audit_LogEvent ::
    "AuditRepository \<Rightarrow> pg \<Rightarrow> string \<Rightarrow> string \<Rightarrow> json result \<Rightarrow> nodes \<Rightarrow> nodes \<times> goerr option" where
  "audit_LogEvent r pg paymentID eventType payloadData =
     on_pool (Master (ar_cluster r)) (\<lambda>d. LogEvent pg d paymentID eventType payloadData)"

definition audit_ReplayHistory :: "AuditRepository \<Rightarrow> pg \<Rightarrow> string \<Rightarrow> nodes \<Rightarrow> nodes \<times> PaymentEvent list result" where
  "audit_ReplayHistory r pg paymentID = read_pool (Replica (ar_cluster r)) (\<lambda>d. ReplayHistory pg d paymentID)"

definition audit_AnalyzeTransitions ::
    "AuditRepository \<Rightarrow> pg \<Rightarrow> string \<Rightarrow> nodes \<Rightarrow> nodes \<times> StateTransitionAnalysis list result" where
  "audit_AnalyzeTransitions r pg paymentID = read_pool (Replica (ar_cluster r)) (\<lambda>d. AnalyzeTransitions pg d paymentID)"

subsection \<open>Users, keys and the outbox worker\<close>

definition user_CreateUser :: "UserRepository \<Rightarrow> pg \<Rightarrow> string \<Rightarrow> int \<Rightarrow> nodes \<Rightarrow> nodes \<times> User result" where
  "user_CreateUser r pg email balance = on_pool (ur_db r) (\<lambda>d. CreateUser pg d email balance)"

definition key_InsertKey :: "KeyRepository \<Rightarrow> pg \<Rightarrow> string \<Rightarrow> string \<Rightarrow> string \<Rightarrow> nodes \<Rightarrow> nodes \<times> goerr option" where
  "key_InsertKey r pg userID hash label = on_pool (kr_db r) (\<lambda>d. InsertKey pg d userID hash label)"

definition worker_ProcessPendingEvents ::
    "wired_OutboxWorker \<Rightarrow> pg \<Rightarrow> 'q enqueue \<Rightarrow> (string \<Rightarrow> bool) \<Rightarrow> (string \<Rightarrow> bool) \<Rightarrow> (string \<Rightarrow> int) \<Rightarrow> 'q \<Rightarrow> nodes \<Rightarrow> nodes \<times> 'q" where
  "worker_ProcessPendingEvents w pg enq locked bad now q =
     on_pool (Master (ow_dbCluster w)) (\<lambda>d. ProcessPendingEvents pg enq locked bad now d q)"

subsection \<open>All calls\<close>

text \<open>Every call of the program on a database, and its answer.\<close>

datatype db_call =
    CallCharge gotime string int string
  | CallCreateRecord string int string
  | CallRefund string
  | CallUpdateStatus string string
  | CallPage TransactionQuery
  | CallLogEvent string string "json result"
  | CallReplay string
  | CallAnalyze string
  | CallCreateUser string int
  | CallInsertKey string string string
  | CallPoll "goerr option list" "string \<Rightarrow> bool" "string \<Rightarrow> bool" "string \<Rightarrow> int"

datatype db_answer =
    AnswerPayment "Payment result"
  | AnswerError "goerr option"
  | AnswerPage "(Transaction list \<times> string) result"
  | AnswerHistory "PaymentEvent list result"
  | AnswerTransitions "StateTransitionAnalysis list result"
  | AnswerUser "User result"
  | AnswerTasks "task list"

fun db_run :: "('priv, 'pub) wired \<Rightarrow> pg \<Rightarrow> db_call \<Rightarrow> nodes \<Rightarrow> nodes \<times> db_answer" where
  "db_run w pg (CallCharge now u a c) ns = apsnd AnswerPayment (service_ProcessCharge (ph_service (w_paymentHand w)) pg now u a c ns)"
| "db_run w pg (CallCreateRecord u a c) ns =
     apsnd AnswerPayment (repo_CreateTransactionRecord (wps_paymentRepo (ph_service (w_paymentHand w))) pg u a c ns)"
| "db_run w pg (CallRefund i) ns = apsnd AnswerPayment (service_ProcessRefund (ph_service (w_paymentHand w)) pg i ns)"
| "db_run w pg (CallUpdateStatus i st) ns =
     apsnd AnswerError (repo_UpdatePaymentStatus (wps_paymentRepo (ph_service (w_paymentHand w))) pg i st ns)"
| "db_run w pg (CallPage q) ns =
     apsnd AnswerPage (repo_GetPaginatedTransactions (wps_paymentRepo (ph_service (w_paymentHand w))) pg q ns)"
| "db_run w pg (CallLogEvent i ty v) ns = apsnd AnswerError (audit_LogEvent (w_auditRepo w) pg i ty v ns)"
| "db_run w pg (CallReplay i) ns = apsnd AnswerHistory (audit_ReplayHistory (w_auditRepo w) pg i ns)"
| "db_run w pg (CallAnalyze i) ns = apsnd AnswerTransitions (audit_AnalyzeTransitions (w_auditRepo w) pg i ns)"
| "db_run w pg (CallCreateUser email b) ns = apsnd AnswerUser (user_CreateUser (w_userRepo w) pg email b ns)"
| "db_run w pg (CallInsertKey u h l) ns = apsnd AnswerError (key_InsertKey (as_keyRepo (ah_authService (w_authHand w))) pg u h l ns)"
| "db_run w pg (CallPoll outs locked bad now) ns =
     apsnd (AnswerTasks \<circ> fst) (worker_ProcessPendingEvents (w_outboxWorker w) pg scripted_enqueue locked bad now ([], outs) ns)"

text \<open>What a call means on one database, wherever it runs; which calls only read.\<close>

fun meaning :: "pg \<Rightarrow> db_call \<Rightarrow> db \<Rightarrow> db \<times> db_answer" where
  "meaning pg (CallCharge now u a c) d = apsnd AnswerPayment (ChargeOn pg now d u a c)"
| "meaning pg (CallCreateRecord u a c) d = apsnd AnswerPayment (CreateTransactionRecord pg d u a c)"
| "meaning pg (CallRefund i) d = apsnd AnswerPayment (RefundOn pg d i)"
| "meaning pg (CallUpdateStatus i st) d = apsnd AnswerError (UpdatePaymentStatus pg d i st)"
| "meaning pg (CallPage q) d = (d, AnswerPage (GetPaginatedTransactions pg d q))"
| "meaning pg (CallLogEvent i ty v) d = apsnd AnswerError (LogEvent pg d i ty v)"
| "meaning pg (CallReplay i) d = (d, AnswerHistory (ReplayHistory pg d i))"
| "meaning pg (CallAnalyze i) d = (d, AnswerTransitions (AnalyzeTransitions pg d i))"
| "meaning pg (CallCreateUser email b) d = apsnd AnswerUser (CreateUser pg d email b)"
| "meaning pg (CallInsertKey u h l) d = apsnd AnswerError (InsertKey pg d u h l)"
| "meaning pg (CallPoll outs locked bad now) d =
     apsnd (AnswerTasks \<circ> fst) (ProcessPendingEvents pg scripted_enqueue locked bad now d ([], outs))"

fun reads :: "db_call \<Rightarrow> bool" where
  "reads (CallPage q) = True"
| "reads (CallReplay i) = True"
| "reads (CallAnalyze i) = True"
| "reads call = False"

lemmas method_defs = service_ProcessCharge_def repo_CreateTransactionRecord_def repo_Refund_def service_ProcessRefund_def
  repo_UpdatePaymentStatus_def repo_GetPaginatedTransactions_def audit_LogEvent_def audit_ReplayHistory_def
  audit_AnalyzeTransitions_def user_CreateUser_def key_InsertKey_def worker_ProcessPendingEvents_def repo_tx_pool_def

lemma refund_on_node:
  "service_ProcessRefund s pg i ns = on_pool (Master (spr_cluster (wps_paymentRepo s))) (\<lambda>d. RefundOn pg d i) ns"
  by (simp add: service_ProcessRefund_def repo_Refund_def on_pool_def ProcessRefund_def sql_service_def NewPaymentService_def
      NewPaymentRepository_def)

text \<open>In the program that \<^verbatim>\<open>main\<close> builds, a call that writes runs on the master, one that reads on the replica.\<close>

lemma wired_run:
  "db_run (wire env cfg c rdb j) pg call ns =
     (if reads call then (ns, snd (meaning pg call (ns (dsn (Replica c)))))
      else (ns(dsn (Master c) := fst (meaning pg call (ns (dsn (Master c))))), snd (meaning pg call (ns (dsn (Master c))))))"
proof (cases call)
  case (CallRefund i)
  then show ?thesis by (simp add: refund_on_node wiring_defs on_pool_def apsnd_def map_prod_def case_prod_beta)
qed (simp_all add: wiring_defs method_defs on_pool_def read_pool_def apsnd_def map_prod_def case_prod_beta)

end
