(* ===== verification/Boot.thy ===== *)
theory Boot
  imports Wiring Server
begin

text \<open>
  The start of the program, \<^verbatim>\<open>main\<close> in \<^verbatim>\<open>cmd/api/main.go\<close> up to listening, with \<^verbatim>\<open>RunMigrations\<close>
  (\<^verbatim>\<open>internal/database/migrations.go\<close>), and the running system of HTTP requests, polls of the outbox worker and rounds of the limiter's cleaner.
  golang-migrate, the file system, the PEM parsers and the Redis ping are arguments.
\<close>

section \<open>Migrations\<close>

text \<open>
  \<open>open_migrate\<close> is \<^verbatim>\<open>migrate.New\<close> on the migrations directory and the given URL, \<open>up\<close> is \<^verbatim>\<open>Up\<close> on the
  database, \<open>ErrNoChange\<close> its sentinel. \<open>Some msg\<close> is a \<^verbatim>\<open>log.Fatalf\<close> with that message.
\<close>

definition RunMigrations ::
    "(string \<Rightarrow> string \<Rightarrow> 'm result) \<Rightarrow> ('m \<Rightarrow> db \<Rightarrow> db \<times> goerr option) \<Rightarrow> goerr \<Rightarrow> string \<Rightarrow> db \<Rightarrow> db \<times> string option" where
  "RunMigrations open_migrate up ErrNoChange url d =
     (case open_migrate ''file://migrations'' url of
        Inl e \<Rightarrow> (d, Some (''CRITICAL: Failed to initialize migration driver engine: '' @ Error e))
      | Inr m \<Rightarrow>
          (case up m d of
             (d', Some e) \<Rightarrow>
               if errors_Is e ErrNoChange then (d', None)
               else (d', Some (''CRITICAL: Database migration processing execution failed: '' @ Error e))
           | (d', None) \<Rightarrow> (d', None)))"

section \<open>Start-up\<close>

text \<open>What the start meets.\<close>

record ('m, 'priv, 'pub) boot_env =
  b_environ :: "string \<rightharpoonup> string"
  b_sql_open :: "string \<Rightarrow> sql_DB result"
  b_ping :: "sql_DB \<Rightarrow> goerr option"
  b_open_migrate :: "string \<Rightarrow> string \<Rightarrow> 'm result"
  b_up :: "'m \<Rightarrow> db \<Rightarrow> db \<times> goerr option"
  b_no_change :: goerr
  b_redis_ping :: "string \<Rightarrow> goerr option"
  b_read_file :: "string \<Rightarrow> string result"
  b_parse_private :: "string \<Rightarrow> 'priv result"
  b_parse_public :: "string \<Rightarrow> 'pub result"
  b_seed1 :: pg
  b_seed2 :: pg

text \<open>The program exits with a message, or it listens.\<close>

datatype ('priv, 'pub) boot_result =
    Exited string
  | Listening "('priv, 'pub) wired"

definition boot :: "('m, 'priv, 'pub) boot_env \<Rightarrow> db \<Rightarrow> db \<times> ('priv, 'pub) boot_result" where
  "boot b d =
     (let cfg = Load (b_environ b) in
      case InitCluster (b_sql_open b) (b_ping b) cfg of
        Inl e \<Rightarrow> (d, Exited ''Critical boot failure: Database Cluster unreachable'')
      | Inr dbCluster \<Rightarrow>
          (case RunMigrations (b_open_migrate b) (b_up b) (b_no_change b) (migrationURL cfg) d of
             (d1, Some msg) \<Rightarrow> (d1, Exited msg)
           | (d1, None) \<Rightarrow>
               (let rdb = redis_NewClient (b_environ b) cfg in
                case b_redis_ping b (rc_Addr rdb) of
                  Some e \<Rightarrow> (d1, Exited (''CRITICAL: Failed to connect to Redis cache: '' @ Error e))
                | None \<Rightarrow>
                    (case NewJWTAuthService (b_read_file b) (b_parse_private b) (b_parse_public b)
                            rdb ''private_key.pem'' ''public_key.pem'' of
                       Inl e \<Rightarrow> (d1, Exited ''Critical boot failure: Failed to seed RSA Cryptographic Keys'')
                     | Inr jwtServ \<Rightarrow>
                         (case seed_users (b_seed1 b) (b_seed2 b) d1 of
                            (d2, r1, r2) \<Rightarrow> (d2, Listening (wire (b_environ b) cfg dbCluster rdb jwtServ)))))))"

lemma boot_Listening:
  assumes "boot b d = (d', Listening w)"
  obtains d1 c j where "RunMigrations (b_open_migrate b) (b_up b) (b_no_change b) (migrationURL (Load (b_environ b))) d = (d1, None)"
    and "d' = fst (seed_users (b_seed1 b) (b_seed2 b) d1)"
    and "InitCluster (b_sql_open b) (b_ping b) (Load (b_environ b)) = Inr c"
    and "b_redis_ping b (redisAddr (Load (b_environ b))) = None"
    and "w = wire (b_environ b) (Load (b_environ b)) c (redis_NewClient (b_environ b) (Load (b_environ b))) j"
    and "jwt_rdb j = redis_NewClient (b_environ b) (Load (b_environ b))"
  using assms
  by (auto simp: boot_def redis_NewClient_def NewJWTAuthService_def Let_def split: sum.splits prod.splits option.splits)

lemma seed_users_steps:
  assumes "engine_for uin pga" and "engine_for uin pgb"
  shows "(ledger_step uin)\<^sup>*\<^sup>* d (fst (seed_users pga pgb d))"
proof -
  obtain d1 r1 where c1: "CreateUser pga d ''merchant_india@gmail.com'' 1000000 = (d1, r1)" by fastforce
  obtain d2 r2 where c2: "CreateUser pgb d1 ''merchant_india@gmail.com'' 10000000 = (d2, r2)" by fastforce
  have "ledger_step uin d d1" "ledger_step uin d1 d2"
    using step_user[OF assms(1) _ c1] step_user[OF assms(2) _ c2] by simp_all
  then show ?thesis by (simp add: seed_users_def seed_again_def c1 c2)
qed


section \<open>The running system\<close>

text \<open>
  The state: the server, and the tasks the worker has queued. The server starts with empty counters,
  no clients and no subscriptions, the seeded dispute service, whatever Redis holds, and the
  database that the start left. The migrations leave an empty database, or, on a later start, the one
  that earlier runs of the program made.
\<close>

type_synonym ('r, 'l) system = "('r, 'l) server \<times> task list"

definition started :: "db \<Rightarrow> 'r \<Rightarrow> ('r, 'l) system" where
  "started d rst = ((\<lparr>httpRequestsTotal = (\<lambda>_. 0), httpRequestDuration = (\<lambda>_. [])\<rparr>, [], Map.empty, rst,
     \<lparr>st_db = d, st_subs = Map.empty, st_disputes = NewDisputeService\<rparr>), [])"

definition sys_db :: "('r, 'l) system \<Rightarrow> db" where
  "sys_db s = (case s of ((m, entries, cl, rst, st), q) \<Rightarrow> st_db st)"

inductive system_start ::
    "(string \<Rightarrow> string option) \<Rightarrow> ('m, 'priv, 'pub) boot_env \<Rightarrow> ('r, 'l) system \<Rightarrow> bool" for uin b where
  "boot b d0 = (d, Listening w) \<Longrightarrow>
   (\<And>m. reach (\<lambda>d. d = empty_db) (ledger_step uin) (fst (b_up b m d0))) \<Longrightarrow> engine_for uin (b_seed1 b) \<Longrightarrow> engine_for uin (b_seed2 b) \<Longrightarrow>
   system_start uin b (started d rst)"

inductive system_step :: "(string \<Rightarrow> string option) \<Rightarrow> ('r, 'l) system \<Rightarrow> ('r, 'l) system \<Rightarrow> bool" for uin where
  sys_request: "hands_on RequestID \<Longrightarrow> hands_on Recoverer \<Longrightarrow> engine_for uin (e_master env) \<Longrightarrow>
    serve RequestID Recoverer allow fresh c env route r s = (s', calls) \<Longrightarrow> system_step uin (s, q) (s', q)"
| sys_poll: "engine_for uin pg \<Longrightarrow> task_queue enq (\<lambda>q. q) \<Longrightarrow>
    ProcessPendingEvents pg enq locked bad now (st_db st) q = (d', q') \<Longrightarrow>
    system_step uin ((m, entries, cl, rst, st), q) ((m, entries, cl, rst, st\<lparr>st_db := d'\<rparr>), q')"
| sys_clean: "system_step uin ((m, entries, cl, rst, st), q) ((m, entries, clean now cl, rst, st), q)"

text \<open>Every step of the system is a step of the ledger, or none.\<close>

lemma system_step_ledger:
  assumes "system_step uin s s'"
  shows "(ledger_step uin)\<^sup>*\<^sup>* (sys_db s) (sys_db s')"
  using assms
proof (cases rule: system_step.cases)
  case (sys_request RequestID Recoverer env allow fresh c route r srv srv' calls q)
  obtain m entries cl rst st m' entries' cl' rst' st' where
    srv: "srv = (m, entries, cl, rst, st)" "srv' = (m', entries', cl', rst', st')"
    by (metis prod_cases5)
  from guarded_chain_db[OF sys_request(5) serve_split(1)[OF sys_request(3,4) sys_request(6)[unfolded srv]]]
  show ?thesis by (auto simp: sys_request(1,2) srv sys_db_def)
next
  case sys_poll
  from poll_scripted[OF sys_poll(5)] step_poll[OF sys_poll(3)] show ?thesis
    by (fastforce simp: sys_poll(1,2) sys_db_def)
qed (simp add: sys_db_def)

lemma reach_steps: "step\<^sup>*\<^sup>* s t \<Longrightarrow> reach init step s \<Longrightarrow> reach init step t"
  by (induction rule: rtranclp_induct) (auto intro: reach_step)

lemma system_start_ledger:
  assumes "system_start uin b s"
  shows "reach (\<lambda>d. d = empty_db) (ledger_step uin) (sys_db s)"
  using assms
proof (cases rule: system_start.cases)
  case (1 d0 d w rst)
  from 1(2) obtain d1 where mig: "RunMigrations (b_open_migrate b) (b_up b) (b_no_change b)
      (migrationURL (Load (b_environ b))) d0 = (d1, None)" and d: "d = fst (seed_users (b_seed1 b) (b_seed2 b) d1)"
    by (rule boot_Listening)
  from mig obtain m where "d1 = fst (b_up b m d0)"
    by (auto simp: RunMigrations_def split: sum.splits prod.splits option.splits if_splits) (metis fst_conv)+
  with 1(3) have "reach (\<lambda>d. d = empty_db) (ledger_step uin) d1" by simp
  from reach_steps[OF seed_users_steps[OF 1(4,5)] this] show ?thesis by (simp add: 1(1) d started_def sys_db_def)
qed

lemma system_reach_ledger:
  "reach (system_start uin b) (system_step uin) s \<Longrightarrow> reach (\<lambda>d. d = empty_db) (ledger_step uin) (sys_db s)"
  by (induction rule: reach.induct) (auto intro: system_start_ledger reach_steps[OF system_step_ledger])

text \<open>
  C8. The whole program: from a successful start on a freshly migrated database, or on the one an
  earlier run of the program left, after any number
  of HTTP requests, polls of the outbox worker and rounds of the cleaner, in any order and with
  any failures of PostgreSQL, Redis, the network and the queue, no wallet is overdrawn, every
  payment is positive and belongs to a user, the outbox holds exactly one event per payment,
  and the database is one the abstract book can reach.
\<close>

theorem system_sound:
  assumes "uuid_idem uin" and "reach (system_start uin b) (system_step uin) s"
  shows "(\<forall>u. 0 \<le> balance_of u (sys_db s))
    \<and> (\<forall>p \<in> set (tbl_payments (sys_db s)). 0 < pay_amount p \<and> pay_user_id p \<in> usr_id ` set (tbl_users (sys_db s)))
    \<and> notified_ids (sys_db s) = payment_ids (sys_db s)
    \<and> reach (\<lambda>a. a = empty_book) book_step (book_of (sys_db s))"
proof -
  note R = ledger_reach[OF assms(1) system_reach_ledger[OF assms(2)]]
  show ?thesis using ledger.reach_inv[OF R] ledger_book.reach_refines[OF R] by (auto simp: ledger_inv_def db_ok_def)
qed

text \<open>A start on an empty database with everything reachable.\<close>

definition boot0 :: "(unit, unit, unit) boot_env" where
  "boot0 = \<lparr>b_environ = Map.empty,
     b_sql_open = (\<lambda>s. Inr \<lparr>dsn = s, MaxOpenConns = 0, MaxIdleConns = 2, ConnMaxLifetime = 0\<rparr>), b_ping = (\<lambda>_. None),
     b_open_migrate = (\<lambda>_ _. Inr ()), b_up = (\<lambda>_ _. (empty_db, None)), b_no_change = ErrNew ''no change'',
     b_redis_ping = (\<lambda>_. None), b_read_file = Inr, b_parse_private = (\<lambda>_. Inr ()), b_parse_public = (\<lambda>_. Inr ()),
     b_seed1 = pg0, b_seed2 = pg0\<rparr>"

definition system0 :: "(keyspace, nat) system" where
  "system0 = started (fst (boot boot0 empty_db)) (\<lambda>_. None)"

lemma boot0_run:
  "\<exists>w. boot boot0 empty_db = (fst (boot boot0 empty_db), Listening w)"
  "balance_of ''evt-1'' (fst (boot boot0 empty_db)) = 1000000"
  by (simp_all add: boot_def boot0_def InitCluster_def RunMigrations_def NewJWTAuthService_def seed_users_def seed_again_def
      CreateUser_def sql_insert_user_def sql_defs pg0_def empty_db_def is_int64_def int64_bounds balance_of_def Let_def)




theorem system_sound_witness:
  "reach (system_start uin0 boot0) (system_step uin0) system0
   \<and> balance_of ''evt-1'' (sys_db system0) = 1000000 \<and> notified_ids (sys_db system0) = payment_ids (sys_db system0)"
proof -
  obtain w where run: "boot boot0 empty_db = (fst (boot boot0 empty_db), Listening w)" using boot0_run(1) by blast
  have "system_start uin0 boot0 system0"
    unfolding system0_def using engine0(1)
    by (intro system_start.intros[OF run]) (simp_all add: boot0_def reach_init)
  then have r: "reach (system_start uin0 boot0) (system_step uin0) system0" by (rule reach_init)
  have "balance_of ''evt-1'' (sys_db system0) = 1000000"
    using boot0_run(2) by (simp add: system0_def started_def sys_db_def)
  with r system_sound[OF engine0(2) r] show ?thesis by blast
qed

end
