(* ===== verification/Shutdown.thy ===== *)
theory Shutdown
  imports OutboxWorker
begin

text \<open>
  The end of the program: what \<^verbatim>\<open>main\<close> of \<^verbatim>\<open>cmd/api/main.go\<close> does after a termination signal, beside
  the connections of the HTTP server and the goroutine of the outbox worker
  (\<^verbatim>\<open>internal/service/outbox_worker.go\<close>), which go on meanwhile, and the Asynq server, which waits for
  the same signals. The sequence of \<^verbatim>\<open>main\<close> is a list of actions; a step relation interleaves them with
  the others. Of \<^verbatim>\<open>http.Server.Shutdown\<close> it uses what its documentation says: no new connections, and
  it returns when the last one that is not idle has ended or when its context is done, and then
  leaves the rest running; of \<^verbatim>\<open>asynq.Server.Run\<close>, that it catches a termination signal itself and
  shuts the workers down; of \<^verbatim>\<open>asynq.Server.Shutdown\<close>, that after it the workers are down.
\<close>

section \<open>The sequence\<close>

datatype action =
    HttpClose | HttpDrain | StopPoller | AsynqShutdown | CloseMaster | CloseReplica | CloseRedis | CloseClient

text \<open>
  \<^verbatim>\<open>srv.Shutdown\<close> is two actions. \<open>CloseClient\<close> is the deferred \<^verbatim>\<open>asynqClient.Close()\<close>: it runs when
  \<^verbatim>\<open>main\<close> returns, and then the process is gone.
\<close>

definition shutdown_sequence :: "action list" where
  "shutdown_sequence = [HttpClose, HttpDrain, StopPoller, AsynqShutdown, CloseMaster, CloseReplica, CloseRedis, CloseClient]"

datatype poller = Waiting | Polling | Gone

record process =
  todo :: "action list"
  signalled :: bool
  listening :: bool
  conns :: nat
  timed_out :: bool
  stopChan_closed :: bool
  worker :: poller
  asynq_up :: bool
  master_open :: bool
  replica_open :: bool
  redis_open :: bool
  client_open :: bool

definition running :: process where
  "running = \<lparr>todo = shutdown_sequence, signalled = False, listening = True, conns = 0, timed_out = False, stopChan_closed = False,
     worker = Waiting, asynq_up = True, master_open = True, replica_open = True, redis_open = True, client_open = True\<rparr>"

fun perform :: "action \<Rightarrow> process \<Rightarrow> process" where
  "perform HttpClose p = p\<lparr>listening := False\<rparr>"
| "perform HttpDrain p = p"
| "perform StopPoller p = p\<lparr>stopChan_closed := True\<rparr>"
| "perform AsynqShutdown p = p\<lparr>asynq_up := False\<rparr>"
| "perform CloseMaster p = p\<lparr>master_open := False\<rparr>"
| "perform CloseReplica p = p\<lparr>replica_open := False\<rparr>"
| "perform CloseRedis p = p\<lparr>redis_open := False\<rparr>"
| "perform CloseClient p = p\<lparr>client_open := False\<rparr>"

text \<open>
  The next thing \<^verbatim>\<open>main\<close> does. The first action waits for the signal on its channel, the second for the
  connections.
\<close>

inductive main_step :: "process \<Rightarrow> process \<Rightarrow> bool" where
  main_acts: "todo p = a # as \<Longrightarrow> a = HttpClose \<longrightarrow> signalled p \<Longrightarrow> a = HttpDrain \<longrightarrow> conns p = 0 \<Longrightarrow> main_step p ((perform a p)\<lparr>todo := as\<rparr>)"
| drain_deadline: "todo p = HttpDrain # as \<Longrightarrow> main_step p (p\<lparr>todo := as, timed_out := True\<rparr>)"

text \<open>
  What happens beside \<^verbatim>\<open>main\<close> while the process lives: a termination signal reaches the process, and
  with it both \<^verbatim>\<open>main\<close> and \<^verbatim>\<open>asynqServer.Run\<close>, which shuts its workers down on its own. The \<^verbatim>\<open>select\<close> of the worker may take a tick that
  is ready even when the stop channel is closed, and a poll that has begun is not interrupted.
\<close>

inductive other_step :: "process \<Rightarrow> process \<Rightarrow> bool" where
  signal_arrives: "todo p \<noteq> [] \<Longrightarrow> other_step p (p\<lparr>signalled := True\<rparr>)"
| asynq_stops: "todo p \<noteq> [] \<Longrightarrow> signalled p \<Longrightarrow> other_step p (p\<lparr>asynq_up := False\<rparr>)"
| conn_opens: "todo p \<noteq> [] \<Longrightarrow> listening p \<Longrightarrow> other_step p (p\<lparr>conns := conns p + 1\<rparr>)"
| conn_ends: "todo p \<noteq> [] \<Longrightarrow> 0 < conns p \<Longrightarrow> other_step p (p\<lparr>conns := conns p - 1\<rparr>)"
| poll_begins: "todo p \<noteq> [] \<Longrightarrow> worker p = Waiting \<Longrightarrow> other_step p (p\<lparr>worker := Polling\<rparr>)"
| poll_ends: "todo p \<noteq> [] \<Longrightarrow> worker p = Polling \<Longrightarrow> other_step p (p\<lparr>worker := Waiting\<rparr>)"
| worker_returns: "todo p \<noteq> [] \<Longrightarrow> worker p = Waiting \<Longrightarrow> stopChan_closed p \<Longrightarrow> other_step p (p\<lparr>worker := Gone\<rparr>)"

definition process_step :: "process \<Rightarrow> process \<Rightarrow> bool" where
  "process_step p p' \<longleftrightarrow> main_step p p' \<or> other_step p p'"

inductive_cases main_stepE: "main_step p p'"
inductive_cases other_stepE: "other_step p p'"

section \<open>The order of closing\<close>

text \<open>
  What is left to do determines what is still up, except for the Asynq workers, which may be down from the
  signal on; and once the drain is over there are no
  connections, unless its deadline passed.
\<close>

definition shutdown_inv :: "process \<Rightarrow> bool" where
  "shutdown_inv p \<longleftrightarrow>
     (\<exists>n. todo p = drop n shutdown_sequence)
   \<and> (listening p \<longleftrightarrow> HttpClose \<in> set (todo p)) \<and> (stopChan_closed p \<longleftrightarrow> StopPoller \<notin> set (todo p))
   \<and> (asynq_up p \<longrightarrow> AsynqShutdown \<in> set (todo p)) \<and> (asynq_up p \<or> signalled p)
   \<and> (HttpClose \<in> set (todo p) \<or> signalled p) \<and> (master_open p \<longleftrightarrow> CloseMaster \<in> set (todo p))
   \<and> (replica_open p \<longleftrightarrow> CloseReplica \<in> set (todo p)) \<and> (redis_open p \<longleftrightarrow> CloseRedis \<in> set (todo p))
   \<and> (client_open p \<longleftrightarrow> CloseClient \<in> set (todo p))
   \<and> (HttpDrain \<in> set (todo p) \<or> conns p = 0 \<or> timed_out p)
   \<and> (worker p = Gone \<longrightarrow> StopPoller \<notin> set (todo p))"

lemma shutdown_invD:
  assumes "shutdown_inv p"
  shows "HttpClose \<in> set (todo p) \<or> signalled p" and "listening p \<longleftrightarrow> HttpClose \<in> set (todo p)"
    and "\<exists>n. todo p = drop n shutdown_sequence"
  using assms by (simp_all add: shutdown_inv_def)

lemma todo_suffix:
  assumes "todo p = drop n shutdown_sequence" "todo p = a # as"
  shows "as = drop (Suc n) shutdown_sequence"
  using assms by (metis drop_Suc list.sel(3) tl_drop)

text \<open>No action occurs twice, so performing one removes exactly it.\<close>

lemma todo_head:
  assumes "todo p = drop n shutdown_sequence" "todo p = a # as"
  shows "a \<notin> set as"
proof -
  have "distinct (a # as)"
    using assms distinct_drop [of shutdown_sequence n] by (simp add: shutdown_sequence_def)
  then show ?thesis
    by simp
qed

lemma asynq_after_close:
  assumes "todo p = drop n shutdown_sequence" "todo p = AsynqShutdown # as"
  shows "HttpClose \<notin> set (todo p)"
proof -
  have "n \<noteq> 0"
  proof
    assume "n = 0"
    with assms show False by (simp add: shutdown_sequence_def)
  qed
  then have "set (todo p) \<subseteq> set (drop 1 shutdown_sequence)"
    unfolding assms(1) by (intro set_drop_subset_set_drop) simp
  then show ?thesis by (auto simp: shutdown_sequence_def)
qed

lemma main_step_inv:
  assumes "shutdown_inv p" "main_step p p'"
  shows "shutdown_inv p'"
  using assms(2)
proof (cases rule: main_step.cases)
  case (main_acts a as)
  obtain n where n: "todo p = drop n shutdown_sequence"
    using shutdown_invD(3)[OF assms(1)] by blast
  note left = todo_suffix [OF n main_acts(2)] todo_head [OF n main_acts(2)]
  have "\<exists>k. as = drop k shutdown_sequence"
    using left(1) by blast
  moreover have "signalled p" if "a = AsynqShutdown"
    using asynq_after_close[OF n, of as] main_acts(2) shutdown_invD(1)[OF assms(1)] that by metis
  ultimately show ?thesis
    using assms(1) left(2) main_acts(2-) unfolding shutdown_inv_def main_acts(1) by (cases a) simp_all
next
  case (drain_deadline as)
  obtain n where n: "todo p = drop n shutdown_sequence"
    using shutdown_invD(3)[OF assms(1)] by blast
  note left = todo_suffix [OF n drain_deadline(2)]
  have "\<exists>k. as = drop k shutdown_sequence"
    using left by blast
  then show ?thesis
    using assms(1) drain_deadline(2) unfolding shutdown_inv_def drain_deadline(1) by simp
qed

lemma drain_after_close:
  assumes "todo p = drop n shutdown_sequence" "HttpClose \<in> set (todo p)"
  shows "HttpDrain \<in> set (todo p)"
proof -
  have "n = 0"
    using assms by (cases n) (auto simp: shutdown_sequence_def dest: in_set_dropD)
  then show ?thesis
    using assms(1) by (simp add: shutdown_sequence_def)
qed

lemma other_step_inv:
  assumes "shutdown_inv p" "other_step p p'"
  shows "shutdown_inv p'"
  using assms(2)
proof (cases rule: other_step.cases)
  case conn_opens
  then have "HttpDrain \<in> set (todo p)"
    using shutdown_invD(2,3)[OF assms(1)] drain_after_close [of p] by blast
  then show ?thesis
    using assms(1) unfolding shutdown_inv_def conn_opens(1) by simp
qed (use assms(1) in \<open>auto simp: shutdown_inv_def\<close>)

interpretation shutdown: transition_system "\<lambda>p. p = running" process_step shutdown_inv
proof
  show "shutdown_inv p" if "p = running" for p
    unfolding that shutdown_inv_def
    by (intro conjI exI [of _ 0]) (simp_all add: running_def shutdown_sequence_def)
  show "shutdown_inv p'" if "shutdown_inv p" "process_step p p'" for p p'
    using that main_step_inv other_step_inv unfolding process_step_def by blast
qed

text \<open>
  C19. The pools outlive the requests: in every state the shutdown can reach, as long as a
  connection of the HTTP server is still being served, the database pools, Redis, the client of the
  task queue and the outbox worker are up, unless the ten seconds for draining had passed. The
  Asynq workers are only promised up to the signal: \<^verbatim>\<open>Run\<close> stops them at once, before the connections are
  drained.
\<close>

theorem shutdown_drains_before_closing:
  assumes "reach (\<lambda>p. p = running) process_step p" and "0 < conns p" and "\<not> timed_out p"
  shows "master_open p \<and> replica_open p \<and> redis_open p \<and> client_open p \<and> \<not> stopChan_closed p \<and> worker p \<noteq> Gone
    \<and> (asynq_up p \<or> signalled p)"
proof -
  note inv = shutdown.reach_inv [OF assms(1), unfolded shutdown_inv_def]
  from inv obtain n where n: "todo p = drop n shutdown_sequence"
    by (elim conjE exE)
  have drain: "HttpDrain \<in> set (todo p)"
    using inv assms(2,3) by simp
  have "n < 2"
  proof (rule ccontr)
    assume "\<not> n < 2"
    then have "set (todo p) \<subseteq> set (drop 2 shutdown_sequence)"
      unfolding n by (intro set_drop_subset_set_drop) simp
    then show False
      using drain by (auto simp: shutdown_sequence_def)
  qed
  then have "n = 0 \<or> n = 1"
    by linarith
  then have "{StopPoller, CloseMaster, CloseReplica, CloseRedis, CloseClient} \<subseteq> set (todo p)"
    using n by (auto simp: shutdown_sequence_def)
  then have "\<not> stopChan_closed p" "master_open p \<and> replica_open p \<and> redis_open p \<and> client_open p"
    using inv by simp_all
  then show ?thesis
    using inv by auto
qed

section \<open>What a shutdown can cut off\<close>

text \<open>A run: from one state to another by steps.\<close>

lemma reach_run: "process_step\<^sup>*\<^sup>* running p \<Longrightarrow> reach (\<lambda>p. p = running) process_step p"
  by (induction rule: rtranclp_induct) (auto intro: reach.intros)

lemma main_runs:
  "todo p = as @ bs \<Longrightarrow> signalled p \<Longrightarrow> HttpDrain \<in> set as \<longrightarrow> conns p = 0 \<Longrightarrow>
     process_step\<^sup>*\<^sup>* p ((fold perform as p)\<lparr>todo := bs\<rparr>)"
proof (induction as arbitrary: p)
  case Nil
  then have "p\<lparr>todo := bs\<rparr> = p"
    by simp
  then show ?case
    by simp
next
  case (Cons a as)
  have frame: "conns (perform a p) = conns p" "signalled (perform a p) = signalled p" "fold perform as (q\<lparr>todo := xs\<rparr>) = (fold perform as q)\<lparr>todo := xs\<rparr>" for q xs
  proof -
    have "perform c (q\<lparr>todo := xs\<rparr>) = (perform c q)\<lparr>todo := xs\<rparr>" for c q
      by (cases c) auto
    then show "fold perform as (q\<lparr>todo := xs\<rparr>) = (fold perform as q)\<lparr>todo := xs\<rparr>"
      by (induction as arbitrary: q) auto
    show "conns (perform a p) = conns p" "signalled (perform a p) = signalled p"
      by (cases a; simp)+
  qed
  have "process_step p ((perform a p)\<lparr>todo := as @ bs\<rparr>)"
    using Cons.prems by (auto simp: process_step_def intro: main_acts)
  then show ?case
    using Cons.IH [of "(perform a p)\<lparr>todo := as @ bs\<rparr>"] Cons.prems frame by (auto intro: converse_rtranclp_into_rtranclp)
qed

lemma exit_during_poll:
  "\<exists>p. reach (\<lambda>p. p = running) process_step p \<and> todo p = [] \<and> \<not> timed_out p \<and> worker p = Polling"
proof -
  let ?s = "running\<lparr>signalled := True\<rparr>" and ?p = "running\<lparr>signalled := True, worker := Polling\<rparr>"
  have start: "todo running \<noteq> []" "todo ?s \<noteq> []" "worker ?s = Waiting" "todo ?p = shutdown_sequence @ []" "conns ?p = 0" "signalled ?p"
    by (simp_all add: running_def shutdown_sequence_def)
  have "process_step running ?s" "process_step ?s ?p"
    unfolding process_step_def using signal_arrives [OF start(1)] poll_begins [OF start(2,3)] by simp_all
  then have "process_step\<^sup>*\<^sup>* running ?p" by (meson converse_rtranclp_into_rtranclp r_into_rtranclp)
  moreover have "process_step\<^sup>*\<^sup>* ?p ((fold perform shutdown_sequence ?p)\<lparr>todo := []\<rparr>)"
    using main_runs [OF start(4,6)] start(5) by simp
  ultimately have "reach (\<lambda>p. p = running) process_step ((fold perform shutdown_sequence ?p)\<lparr>todo := []\<rparr>)"
    by (intro reach_run) (rule rtranclp_trans)
  moreover have "worker (fold perform shutdown_sequence ?p) = Polling" "\<not> timed_out (fold perform shutdown_sequence ?p)"
    by (simp_all add: shutdown_sequence_def running_def)
  ultimately show ?thesis
    by (intro exI [of _ "(fold perform shutdown_sequence ?p)\<lparr>todo := []\<rparr>"]) simp
qed

text \<open>
  A poll that loses its connection before the commit, as it does when the process exits: the
  server rolls the transaction back, the tasks are queued.
\<close>

definition cut_off :: "goerr \<Rightarrow> pg \<Rightarrow> pg" where
  "cut_off e pg = pg\<lparr>commit_out := CommitRefused e\<rparr>"

lemma dispatch_cut_off: "dispatch (cut_off e pg) enq now evs q tx = dispatch pg enq now evs q tx"
proof (induction evs arbitrary: q tx)
  case (Cons ev evs)
  have "sql_update_outbox (cut_off e pg) = sql_update_outbox pg"
    by (simp add: fun_eq_iff cut_off_def sql_defs)
  with Cons show ?case
    by (simp add: case_prod_beta cong: sum.case_cong)
qed simp

lemma poll_cut_off:
  "ProcessPendingEvents (cut_off e pg) enq locked bad now d q = (d, snd (ProcessPendingEvents pg enq locked bad now d q))"
proof -
  have "events_of (cut_off e pg) locked bad d = events_of pg locked bad d" "fault (cut_off e pg) = fault pg"
    "tx_Commit (cut_off e pg) tx d = (d, Some e)" for tx
    by (simp_all add: events_of_def fetched_def cut_off_def tx_Commit_def)
  then show ?thesis
    by (simp add: ProcessPendingEvents_eq dispatch_cut_off case_prod_beta split: option.splits)
qed

text \<open>
  C18. The worker is not waited for: closing the stop channel does not end a poll that has begun,
  and the process can exit, after a shutdown in which everything was drained in time, while a
  poll is still before its commit. Then the tasks of the batch are queued and its rows still
  pending: the first poll after the next start queues every one of them a second time.
\<close>

theorem exit_redelivers_batch:
  assumes "reliable_queue enq tasks" and "healthy pg" and "outbox_ok pg d"
    and "ProcessPendingEvents (cut_off e pg) enq (\<lambda>_. False) (\<lambda>_. False) now d q = (d1, q1)"
    and "ProcessPendingEvents pg enq (\<lambda>_. False) (\<lambda>_. False) now' d1 q1 = (d2, q2)"
  shows "(\<exists>p. reach (\<lambda>p. p = running) process_step p \<and> todo p = [] \<and> \<not> timed_out p \<and> worker p = Polling)
    \<and> d1 = d \<and> (let batch = map (\<lambda>r. (TypeWebhookRetryEvent, ob_payload r)) (selected (\<lambda>_. False) d)
                in tasks q2 = tasks q @ batch @ batch)"
proof -
  let ?batch = "map (\<lambda>r. (TypeWebhookRetryEvent, ob_payload r)) (selected (\<lambda>_. False) d)"
  have once: "tasks (snd (ProcessPendingEvents pg enq (\<lambda>_. False) (\<lambda>_. False) n d r)) = tasks r @ ?batch" for n r
    using reliable_queue.poll_healthy [OF assms(1-3), of n r] by auto
  have "d1 = d" "q1 = snd (ProcessPendingEvents pg enq (\<lambda>_. False) (\<lambda>_. False) now d q)"
    using assms(4) unfolding poll_cut_off by blast+
  then show ?thesis
    using once [of now q] once [of now' q1] assms(5) exit_during_poll by (simp add: Let_def)
qed

theorem exit_redelivers_batch_witness:
  "case ProcessPendingEvents (cut_off (ErrNew ''EOF'') pg0) (list_enqueue (\<lambda>_. False)) (\<lambda>_. False) (\<lambda>_. False) (\<lambda>_. 7) outbox_db0 [] of
     (d1, q1) \<Rightarrow> map snd (snd (ProcessPendingEvents pg0 (list_enqueue (\<lambda>_. False)) (\<lambda>_. False) (\<lambda>_. False) (\<lambda>_. 9) d1 q1))
       = [''body a'', ''body b'', ''body a'', ''body b'']"
proof -
  obtain d1 q1 where one: "ProcessPendingEvents (cut_off (ErrNew ''EOF'') pg0) (list_enqueue (\<lambda>_. False))
      (\<lambda>_. False) (\<lambda>_. False) (\<lambda>_. 7) outbox_db0 [] = (d1, q1)"
    by fastforce
  obtain d2 q2 where two: "ProcessPendingEvents pg0 (list_enqueue (\<lambda>_. False)) (\<lambda>_. False) (\<lambda>_. False) (\<lambda>_. 9) d1 q1 = (d2, q2)"
    by fastforce
  have "healthy pg0" "outbox_ok pg0 outbox_db0"
    by (simp_all add: healthy_def outbox_ok_def outbox_witness_defs)
  from exit_redelivers_batch [OF open_queue.reliable_queue_axioms this one two]
  have "map snd q2 = [''body a'', ''body b'', ''body a'', ''body b'']"
    by (simp add: Let_def selected_def outbox_witness_defs)
  then show ?thesis
    by (simp add: one two)
qed

text \<open>
  The shutdown always gets to its end: from every state after the signal, the next steps of
  \<^verbatim>\<open>main\<close> are possible without waiting for anything but the ten seconds of the drain, and as many
  of them as there are actions left finish it. Nothing else adds to what is left.
\<close>

theorem shutdown_terminates:
  assumes "signalled p"
  shows "(\<exists>p'. (main_step ^^ length (todo p)) p p' \<and> todo p' = [])
    \<and> (\<forall>p'. process_step p p' \<longrightarrow> length (todo p') \<le> length (todo p))"
proof (intro conjI allI impI)
  show "\<exists>p'. (main_step ^^ length (todo p)) p p' \<and> todo p' = []"
    using assms
  proof (induction "todo p" arbitrary: p)
    case (Cons a as)
    have sig: "signalled (perform a p)" using Cons(3) by (cases a) auto
    have "\<exists>p1. main_step p p1 \<and> todo p1 = as \<and> signalled p1"
      using Cons(2) [symmetric] Cons(3) sig main_acts [of p a as] drain_deadline [of p as] by (cases "a = HttpDrain") fastforce+
    then obtain p1 where p1: "main_step p p1" "todo p1 = as" "signalled p1"
      by blast
    then obtain p' where "(main_step ^^ length as) p1 p'" "todo p' = []"
      using Cons(1) [of p1] by auto
    then show ?case
      using p1 Cons(2) [symmetric] by (intro exI [of _ p']) (auto simp: relpowp_Suc_I2 simp del: relpowp.simps)
  qed auto
next
  fix p'
  assume "process_step p p'"
  then show "length (todo p') \<le> length (todo p)"
    by (auto simp: process_step_def elim!: main_step.cases other_step.cases)
qed

text \<open>
  A state after the signal: a connection is open and being drained, and \<^verbatim>\<open>asynqServer.Run\<close> has already stopped
  the workers.
\<close>

definition draining0 :: process where
  "draining0 = running\<lparr>conns := 1, signalled := True, asynq_up := False, listening := False, todo := tl shutdown_sequence\<rparr>"

lemma draining0_reachable: "reach (\<lambda>p. p = running) process_step draining0"
proof (rule reach_run)
  let ?p1 = "running\<lparr>conns := 1\<rparr>" and ?p2 = "running\<lparr>conns := 1, signalled := True\<rparr>"
    and ?p3 = "running\<lparr>conns := 1, signalled := True, asynq_up := False\<rparr>"
  have "process_step running ?p1" "process_step ?p1 ?p2" "process_step ?p2 ?p3"
    unfolding process_step_def using conn_opens [of running] signal_arrives [of ?p1] asynq_stops [of ?p2]
    by (simp_all add: running_def shutdown_sequence_def)
  moreover have "process_step ?p3 draining0"
    unfolding process_step_def draining0_def
    using main_acts [of ?p3 HttpClose "tl shutdown_sequence"] by (simp add: running_def shutdown_sequence_def)
  ultimately show "process_step\<^sup>*\<^sup>* running draining0"
    by (meson converse_rtranclp_into_rtranclp r_into_rtranclp)
qed

theorem shutdown_drains_before_closing_witness:
  "conns draining0 = 1 \<and> \<not> listening draining0 \<and> \<not> asynq_up draining0
    \<and> master_open draining0 \<and> replica_open draining0 \<and> redis_open draining0 \<and> client_open draining0"
  using shutdown_drains_before_closing [OF draining0_reachable] by (simp add: draining0_def running_def)

theorem shutdown_terminates_witness: "\<exists>p'. (main_step ^^ 7) draining0 p' \<and> todo p' = []"
  using shutdown_terminates [of draining0] by (simp add: draining0_def shutdown_sequence_def eval_nat_numeral)

end
