(* ===== verification/Schema.thy ===== *)
theory Schema
  imports Database
begin

text \<open>
  The migrations (\<^verbatim>\<open>migrations/\<close>) as statements that build the schema, and the tables and columns that
  the statements of the payment event repository name. \<^verbatim>\<open>CREATE TABLE IF NOT EXISTS\<close> does nothing when a table of
  that name is there, whatever its columns are; this decides what the later migrations achieve.
\<close>

section \<open>Building a schema\<close>

datatype ddl =
    CreateTable bool string "string list"
  | CreateType string "string list"
  | CreateIndex bool string string "string list"

record schema =
  sch_tables :: "string \<rightharpoonup> string list"
  sch_enums :: "string \<rightharpoonup> string list"
  sch_indexes :: "string list"

definition empty_schema :: schema where
  "empty_schema = \<lparr>sch_tables = Map.empty, sch_enums = Map.empty, sch_indexes = []\<rparr>"

text \<open>The flag is \<^verbatim>\<open>IF NOT EXISTS\<close>.\<close>

fun run_ddl :: "ddl \<Rightarrow> schema \<Rightarrow> schema result" where
  "run_ddl (CreateTable ine t cols) s =
     (if sch_tables s t = None then Inr (s\<lparr>sch_tables := (sch_tables s)(t \<mapsto> cols)\<rparr>)
      else if ine then Inr s else Inl (pq_error ''relation already exists''))"
| "run_ddl (CreateType t labels) s =
     (if sch_enums s t = None then Inr (s\<lparr>sch_enums := (sch_enums s)(t \<mapsto> labels)\<rparr>)
      else Inl (pq_error ''type already exists''))"
| "run_ddl (CreateIndex ine i t cols) s =
     (if i \<in> set (sch_indexes s) then (if ine then Inr s else Inl (pq_error ''relation already exists''))
      else (case sch_tables s t of
         None \<Rightarrow> Inl (pq_error ''relation does not exist'')
       | Some cs \<Rightarrow> if list_all (\<lambda>c. c \<in> set cs) cols then Inr (s\<lparr>sch_indexes := i # sch_indexes s\<rparr>)
                   else Inl (pq_error ''column does not exist'')))"

fun run_ddls :: "ddl list \<Rightarrow> schema \<Rightarrow> schema result" where
  "run_ddls [] s = Inr s"
| "run_ddls (x # xs) s = (case run_ddl x s of Inl e \<Rightarrow> Inl e | Inr s' \<Rightarrow> run_ddls xs s')"

section \<open>The migrations\<close>

definition migration_000001 :: "ddl list" where
  "migration_000001 =
     [CreateTable False ''users'' [''id'', ''email'', ''balance'', ''currency'', ''created_at''],
      CreateTable False ''api_keys'' [''id'', ''user_id'', ''key_hash'', ''label'', ''created_at''],
      CreateType ''payment_status'' [''pending'', ''processing'', ''succeeded'', ''failed'', ''refunded''],
      CreateTable False ''payments'' [''id'', ''user_id'', ''amount'', ''currency'', ''status'', ''idempotency_key'',
        ''provider_tx_id'', ''created_at'', ''updated_at''],
      CreateIndex False ''idx_payments_user_id'' ''payments'' [''user_id''],
      CreateIndex False ''idx_api_keys_user_id'' ''api_keys'' [''user_id''],
      CreateTable True ''payment_events'' [''id'', ''payment_id'', ''event_type'', ''payload'', ''created_at''],
      CreateIndex True ''idx_payment_events_payment_id'' ''payment_events'' [''payment_id'']]"

definition migration_000004 :: "ddl list" where
  "migration_000004 =
     [CreateTable True ''subscriptions'' [''id'', ''merchant_id'', ''plan_name'', ''billing_period'', ''status'',
        ''current_period_start'', ''current_period_end'', ''created_at'', ''updated_at'']]"

definition migration_000005 :: "ddl list" where
  "migration_000005 =
     [CreateTable True ''payment_events'' [''id'', ''payment_id'', ''event_type'', ''previous_state'', ''current_state'',
        ''payload'', ''created_at''],
      CreateIndex True ''idx_payment_events_payment_id'' ''payment_events'' [''payment_id'']]"

definition migration_000006 :: "ddl list" where
  "migration_000006 =
     [CreateTable True ''outbox_events'' [''id'', ''aggregate_type'', ''aggregate_id'', ''event_type'', ''payload'', ''status'',
        ''retry_count'', ''created_at'', ''processed_at''],
      CreateIndex True ''idx_outbox_pending'' ''outbox_events'' [''status'', ''created_at'']]"

text \<open>The files are run in the order of their version numbers.\<close>

definition migrated :: "schema result" where
  "migrated = run_ddls (migration_000001 @ migration_000004 @ migration_000005 @ migration_000006) empty_schema"

section \<open>What a statement names\<close>

type_synonym table_use = "stmt \<times> string \<times> string list"

definition payment_event_sql :: "table_use list" where
  "payment_event_sql =
     [(S_insert_log, ''payment_events'', [''payment_id'', ''event_type'', ''previous_state'', ''current_state'', ''payload'',
        ''id'', ''created_at'']),
      (S_select_log, ''payment_events'', [''id'', ''payment_id'', ''event_type'', ''previous_state'', ''current_state'',
        ''payload'', ''created_at''])]"

definition conforms :: "schema \<Rightarrow> table_use \<Rightarrow> bool" where
  "conforms sch tu = (case tu of (st, t, cols) \<Rightarrow>
     (case sch_tables sch t of None \<Rightarrow> False | Some cs \<Rightarrow> list_all (\<lambda>c. c \<in> set cs) cols))"

lemmas migration_defs = migration_000001_def migration_000004_def migration_000005_def migration_000006_def

lemma migrated_schema:
  obtains sch where "migrated = Inr sch"
    and "sch_tables sch ''payment_events'' = Some [''id'', ''payment_id'', ''event_type'', ''payload'', ''created_at'']"
    and "sch_enums sch ''payment_status'' = Some payment_status_enum"
  by (simp add: migrated_def migration_defs empty_schema_def payment_status_enum_def)

end
