(* ===== verification/PaymentEvents.thy ===== *)
theory PaymentEvents
  imports Schema PaymentRepo
begin

text \<open>
  The payment event repository (\<^verbatim>\<open>internal/repository/postgres_payment_event.go\<close>, its interface and
  record in \<^verbatim>\<open>internal/repository/payment_event.go\<close>). Its statements are written for the table
  \<^verbatim>\<open>payment_events\<close> of migration 5. The engine rejects a statement that names a column the schema
  does not have when it parses it; only if there is none does it work on the rows.
\<close>

section \<open>Events and rows\<close>

text \<open>\<open>None\<close> is a nil \<^verbatim>\<open>json.RawMessage\<close>, which is stored as NULL.\<close>

record PaymentAuditLog =
  pal_ID :: string
  pal_PaymentID :: string
  pal_EventType :: string
  pal_PreviousState :: string
  pal_CurrentState :: string
  pal_Payload :: "string option"
  pal_CreatedAt :: gotime

record log_row =
  lr_id :: string
  lr_payment_id :: string
  lr_event_type :: string
  lr_previous_state :: "string option"
  lr_current_state :: string
  lr_payload :: "string option"
  lr_created_at :: int

text \<open>A statement after parsing: refused unless its table has its columns.\<close>

definition parsed :: "schema \<Rightarrow> table_use \<Rightarrow> 'a result \<Rightarrow> 'a result" where
  "parsed sch tu k = (if conforms sch tu then k else Inl (pq_error ''column does not exist''))"

definition jsonb_opt :: "pg \<Rightarrow> string option \<Rightarrow> (string option \<Rightarrow> 'a result) \<Rightarrow> 'a result" where
  "jsonb_opt pg payload k = (case payload of None \<Rightarrow> k None | Some s \<Rightarrow> jsonb_arg pg s (\<lambda>j. k (Some j)))"

definition sql_insert_log :: "pg \<Rightarrow> schema \<Rightarrow> log_row list \<Rightarrow> PaymentAuditLog \<Rightarrow> (log_row \<times> log_row list) result" where
  "sql_insert_log pg sch rows event =
     exec pg S_insert_log (parsed sch (payment_event_sql ! 0) (uuid_arg pg (pal_PaymentID event) (\<lambda>p.
       jsonb_opt pg (pal_Payload event) (\<lambda>j.
         if 50 < char_len pg (pal_EventType event) \<or> 50 < char_len pg (pal_PreviousState event)
            \<or> 50 < char_len pg (pal_CurrentState event)
         then Inl (pq_error ''value too long for type character varying'')
         else (let row = \<lparr>lr_id = gen_uuid pg S_insert_log, lr_payment_id = p, lr_event_type = pal_EventType event,
                 lr_previous_state = Some (pal_PreviousState event), lr_current_state = pal_CurrentState event,
                 lr_payload = j, lr_created_at = tx_now pg\<rparr>
               in if lr_id row \<in> lr_id ` set rows
                  then Inl (pq_error ''duplicate key value violates unique constraint payment_events_pkey'')
                  else Inr (row, rows @ [row]))))))"

text \<open>\<^verbatim>\<open>CreateEvent\<close> fills in the identifier and the time of its argument when it succeeds.\<close>

definition CreateEvent ::
    "pg \<Rightarrow> schema \<Rightarrow> log_row list \<Rightarrow> PaymentAuditLog \<Rightarrow> log_row list \<times> PaymentAuditLog \<times> goerr option" where
  "CreateEvent pg sch rows event =
     (case autocommit pg rows (sql_insert_log pg sch rows event) of
        (rows', Inl e) \<Rightarrow> (rows', event, Some e)
      | (rows', Inr row) \<Rightarrow> (rows', event\<lparr>pal_ID := lr_id row, pal_CreatedAt := db_time (lr_created_at row)\<rparr>, None))"

definition sql_select_log :: "pg \<Rightarrow> schema \<Rightarrow> log_row list \<Rightarrow> string \<Rightarrow> log_row list result" where
  "sql_select_log pg sch rows paymentID =
     exec pg S_select_log (parsed sch (payment_event_sql ! 1) (uuid_arg pg paymentID (\<lambda>p.
       Inr (sort_key lr_created_at (unordered pg (filter (\<lambda>r. lr_payment_id r = p) rows))))))"

text \<open>\<^verbatim>\<open>Scan\<close> refuses NULL for a string and for a \<^verbatim>\<open>json.RawMessage\<close>.\<close>

definition scan_log :: "log_row \<Rightarrow> PaymentAuditLog result" where
  "scan_log r =
     (case (lr_previous_state r, lr_payload r) of
        (Some prev, Some payload) \<Rightarrow> Inr \<lparr>pal_ID = lr_id r, pal_PaymentID = lr_payment_id r, pal_EventType = lr_event_type r,
           pal_PreviousState = prev, pal_CurrentState = lr_current_state r, pal_Payload = Some payload,
           pal_CreatedAt = db_time (lr_created_at r)\<rparr>
      | _ \<Rightarrow> Inl (ErrNew ''sql: Scan error: converting NULL''))"

fun scan_logs :: "log_row list \<Rightarrow> PaymentAuditLog list result" where
  "scan_logs [] = Inr []"
| "scan_logs (r # rows) =
     (case scan_log r of
        Inl e \<Rightarrow> Inl e
      | Inr e \<Rightarrow> (case scan_logs rows of Inl err \<Rightarrow> Inl err | Inr es \<Rightarrow> Inr (e # es)))"

definition GetHistoryByPaymentID :: "pg \<Rightarrow> schema \<Rightarrow> log_row list \<Rightarrow> string \<Rightarrow> PaymentAuditLog list result" where
  "GetHistoryByPaymentID pg sch rows paymentID =
     (case sql_select_log pg sch rows paymentID of
        Inl e \<Rightarrow> Inl e
      | Inr found \<Rightarrow> scan_logs (fetched pg S_select_log found))"

section \<open>On the schema of the program\<close>

lemma migrated_events:
  assumes "migrated = Inr sch"
  shows "\<not> conforms sch (payment_event_sql ! 0) \<and> \<not> conforms sch (payment_event_sql ! 1)"
proof -
  have "sch_tables sch ''payment_events'' = Some [''id'', ''payment_id'', ''event_type'', ''payload'', ''created_at'']"
    using migrated_schema assms by (metis sum.inject(2))
  then show ?thesis
    by (simp add: conforms_def payment_event_sql_def)
qed

text \<open>
  C34. On a database set up by the migrations the payment event repository does nothing: every
  call of \<^verbatim>\<open>CreateEvent\<close> and of \<^verbatim>\<open>GetHistoryByPaymentID\<close> returns an error, whatever its arguments and
  whatever the table holds, and no row is ever written.
\<close>

theorem payment_events_refused:
  assumes "migrated = Inr sch"
  shows "(\<exists>e. CreateEvent pg sch rows event = (rows, event, Some e)) \<and> (\<exists>e. GetHistoryByPaymentID pg sch rows paymentID = Inl e)"
  using migrated_events [OF assms]
  by (auto simp: CreateEvent_def GetHistoryByPaymentID_def sql_insert_log_def sql_select_log_def parsed_def autocommit_def
      exec_def split: option.splits)

section \<open>On the schema it is written for\<close>

lemma scan_logs_Inr: "(\<forall>r \<in> set rows. \<exists>e. scan_log r = Inr e) \<Longrightarrow> scan_logs rows = Inr (map (\<lambda>r. projr (scan_log r)) rows)"
  by (induction rows) auto

text \<open>
  Where the table has the columns of migration 5, an event with a payload that was stored is found
  in the history of its payment, as it was returned to the caller.
\<close>

theorem created_event_in_history:
  assumes "CreateEvent pg sch rows event = (rows', event', None)"
    and "conforms sch (payment_event_sql ! 1)" and "fault pg' S_select_log = None" and "rows_lost pg' S_select_log = None"
    and "uuid_in pg' = uuid_in pg" and "uuid_in pg (pal_PaymentID event) = Some (pal_PaymentID event)"
    and "pal_Payload event = Some j" and "jsonb_in pg j = Some j"
    and scannable: "\<forall>r \<in> set rows. \<exists>e. scan_log r = Inr e"
  shows "\<exists>history. GetHistoryByPaymentID pg' sch rows' (pal_PaymentID event) = Inr history \<and> event' \<in> set history"
proof -
  obtain row where row: "rows' = rows @ [row]" "scan_log row = Inr event'" "lr_payment_id row = pal_PaymentID event"
    using assms(1,6-8)
    by (auto simp: CreateEvent_def autocommit_def tx_Commit_def sql_insert_log_def parsed_def exec_def uuid_arg_def jsonb_arg_def
        jsonb_opt_def Let_def scan_log_def split: sum.splits prod.splits option.splits commit_outcome.splits if_splits)
  let ?found = "sort_key lr_created_at (unordered pg' (filter (\<lambda>r. lr_payment_id r = pal_PaymentID event) rows'))"
  have found: "set ?found = {r \<in> set rows'. lr_payment_id r = pal_PaymentID event}"
    by simp
  have "scan_logs ?found = Inr (map (\<lambda>r. projr (scan_log r)) ?found)"
    using scannable row(1,2) found by (intro scan_logs_Inr) auto
  moreover have "event' \<in> set (map (\<lambda>r. projr (scan_log r)) ?found)"
    using row found by (force simp: image_iff)
  ultimately show ?thesis
    using assms(2-6) by (simp add: GetHistoryByPaymentID_def sql_select_log_def parsed_def exec_def uuid_arg_def fetched_def)
qed

theorem payment_events_refused_witness:
  "\<exists>sch e. migrated = Inr sch \<and> CreateEvent pg0 sch [] \<lparr>pal_ID = '''', pal_PaymentID = ''pay-1'', pal_EventType = ''created'',
     pal_PreviousState = '''', pal_CurrentState = ''pending'', pal_Payload = None, pal_CreatedAt = time_zero\<rparr>
     = ([], \<lparr>pal_ID = '''', pal_PaymentID = ''pay-1'', pal_EventType = ''created'',
     pal_PreviousState = '''', pal_CurrentState = ''pending'', pal_Payload = None, pal_CreatedAt = time_zero\<rparr>, Some e)"
proof -
  obtain sch where "migrated = Inr sch"
    by (rule migrated_schema)
  then show ?thesis
    using payment_events_refused [of sch pg0 "[]"] by blast
qed

end
