(* ===== verification/EnumTool.thy ===== *)
theory EnumTool
  imports Config Schema
begin

text \<open>
  The listing tool \<^verbatim>\<open>get_merchant_id.go\<close>: it connects like the server does and prints the labels of the
  enumeration \<^verbatim>\<open>payment_status\<close>. The result is what it writes to the standard output and the message
  of the \<^verbatim>\<open>log.Fatalf\<close> it ends with, if any.
\<close>

text \<open>The join of \<^verbatim>\<open>pg_enum\<close> and \<^verbatim>\<open>pg_type\<close>, without an \<^verbatim>\<open>ORDER BY\<close>.\<close>

definition sql_select_enum :: "pg \<Rightarrow> schema \<Rightarrow> string list result" where
  "sql_select_enum pg sch =
     exec pg S_select_enum (Inr (unordered pg (case sch_enums sch ''payment_status'' of None \<Rightarrow> [] | Some labels \<Rightarrow> labels)))"

definition enum_banner :: string where
  "enum_banner = [CHR 0x0A, CHR 0xF0, CHR 0x9F, CHR 0x93, CHR 0x8B]
     @ '' ALLOWED PAYMENT STATUS ENUM VALUES IN DATABASE:'' @ [CHR 0x0A]"

definition enum_line :: "string \<Rightarrow> string" where
  "enum_line label = ''- '' @ [CHR 0x27] @ label @ [CHR 0x27, CHR 0x0A]"

definition enum_main ::
    "(string \<rightharpoonup> string) \<Rightarrow> (string \<Rightarrow> sql_DB result) \<Rightarrow> (sql_DB \<Rightarrow> goerr option) \<Rightarrow> pg \<Rightarrow> schema \<Rightarrow> string \<times> string option" where
  "enum_main env sql_open ping pg sch =
     (case InitCluster sql_open ping (Load env) of
        Inl e \<Rightarrow> ('''', Some (''Database connection failed: '' @ Error e))
      | Inr dbCluster \<Rightarrow>
          (case sql_select_enum pg sch of
             Inl e \<Rightarrow> ('''', Some (''Failed to query enum values: '' @ Error e))
           | Inr rows \<Rightarrow>
               (enum_banner @ concat (map enum_line (fetched pg S_select_enum rows)) @ [CHR 0x0A], None)))"

text \<open>
  On a migrated database the tool prints each of the five statuses once, in some order; when the
  connection is lost while the rows are read it prints some of them and ends as if it had all.
\<close>

theorem enum_tool_lists_statuses:
  assumes "InitCluster sql_open ping (Load env) = Inr c" and "migrated = Inr sch" and "fault pg S_select_enum = None"
  shows "\<exists>labels k. mset labels = mset payment_status_enum
    \<and> enum_main env sql_open ping pg sch = (enum_banner @ concat (map enum_line (take k labels)) @ [CHR 0x0A], None)
    \<and> (rows_lost pg S_select_enum = None \<longrightarrow> k = 5)"
proof -
  have enum: "sch_enums sch ''payment_status'' = Some payment_status_enum"
    using migrated_schema assms(2) by (metis sum.inject(2))
  let ?labels = "unordered pg payment_status_enum"
  let ?k = "case rows_lost pg S_select_enum of None \<Rightarrow> 5 | Some n \<Rightarrow> n"
  have "length ?labels = 5"
    by (simp add: payment_status_enum_def)
  then have "fetched pg S_select_enum ?labels = take ?k ?labels"
    by (simp add: fetched_def split: option.splits)
  then show ?thesis
    using assms enum
    by (intro exI [of _ ?labels] exI [of _ ?k]) (auto simp: enum_main_def sql_select_enum_def exec_def)
qed

end
