(* ===== verification/Statements.thy ===== *)
theory Statements
  imports Ledger
begin

text \<open>
  The three transactions of the program one SQL statement at a time: the charge of
  \<^verbatim>\<open>internal/service/payment_service.go\<close>, the refund of \<^verbatim>\<open>internal/repository/payment_repo.go\<close> and the
  poll of \<^verbatim>\<open>internal/service/outbox_worker.go\<close>. Between two statements other transactions run. A
  transaction holds row locks until it ends and keeps the row versions it wrote to itself until
  it commits. What PostgreSQL does is written out: \<^verbatim>\<open>FOR UPDATE\<close> and \<^verbatim>\<open>UPDATE\<close> wait for the row lock; at
  the level \<^verbatim>\<open>SERIALIZABLE\<close> (the charge) rows are read from the snapshot of the first statement and a row
  that was changed since is an error; at the level \<^verbatim>\<open>READ COMMITTED\<close> (refund and poll) each statement
  reads what is committed when it runs; \<^verbatim>\<open>SKIP LOCKED\<close> leaves out rows that others hold; an insert waits
  for another transaction that is inserting the same key. Run without others, the statements are
  the functions \<open>ProcessCharge\<close> and \<open>ProcessRefund\<close>.
\<close>

section \<open>Row locks and row versions\<close>

text \<open>The lock of a row that is being inserted is the entry of its key in the unique index.\<close>

datatype row_lock = UserRow string | PaymentRow string | OutboxRow string

datatype version =
    PutUser user_row
  | NewPayment payment_row
  | PutPayment payment_row
  | NewOutbox outbox_row
  | PutOutbox outbox_row

fun install1 :: "version \<Rightarrow> db \<Rightarrow> db" where
  "install1 (PutUser r) d = d\<lparr>tbl_users := update_where (\<lambda>x. usr_id x = usr_id r) (\<lambda>_. r) (tbl_users d)\<rparr>"
| "install1 (NewPayment r) d = d\<lparr>tbl_payments := tbl_payments d @ [r]\<rparr>"
| "install1 (PutPayment r) d = d\<lparr>tbl_payments := update_where (\<lambda>x. pay_id x = pay_id r) (\<lambda>_. r) (tbl_payments d)\<rparr>"
| "install1 (NewOutbox r) d = d\<lparr>tbl_outbox := tbl_outbox d @ [r]\<rparr>"
| "install1 (PutOutbox r) d = d\<lparr>tbl_outbox := update_where (\<lambda>x. ob_id x = ob_id r) (\<lambda>_. r) (tbl_outbox d)\<rparr>"

definition install :: "version list \<Rightarrow> db \<Rightarrow> db" where
  "install ws d = fold install1 ws d"

fun version_lock :: "version \<Rightarrow> row_lock" where
  "version_lock (PutUser r) = UserRow (usr_id r)"
| "version_lock (NewPayment r) = PaymentRow (pay_id r)"
| "version_lock (PutPayment r) = PaymentRow (pay_id r)"
| "version_lock (NewOutbox r) = OutboxRow (ob_id r)"
| "version_lock (PutOutbox r) = OutboxRow (ob_id r)"

definition find_outbox :: "string \<Rightarrow> db \<Rightarrow> outbox_row option" where
  "find_outbox i d = List.find (\<lambda>r. ob_id r = i) (tbl_outbox d)"

section \<open>Transactions\<close>

text \<open>How far a transaction has come, with the local variables of its function.\<close>

datatype charge_phase =
    ChargeReceived | ChargeBegun | AwaitBalance db | BalanceRead db | Debited | Inserted Payment | Staged Payment

datatype refund_phase =
    RefundReceived | RefundBegun | Chosen payment_row | Credited payment_row | Marked payment_row payment_row

datatype poll_phase =
    PollReceived | PollBegun | Dispatching "fetchedEvent list" | Enqueued "goerr option" fetchedEvent "fetchedEvent list"

datatype work =
    Charge string int string charge_phase
  | Refund string refund_phase
  | Poll "string \<Rightarrow> bool" "string \<Rightarrow> int" poll_phase

record txn =
  tx_pg :: pg
  tx_clock :: gotime
  tx_work :: work
  tx_locks :: "row_lock set"
  tx_writes :: "version list"

text \<open>
  What the next statement leads to: it waits for a lock; the transaction goes on; an event is to be
  put in the task queue; the function returns an answer, or just returns, and rolls back; or it
  commits.
\<close>

datatype outcome = Wait | Next txn | Send fetchedEvent | Answer "Payment result" | Quit | Commit

text \<open>The value a parameter of type \<^verbatim>\<open>uuid\<close> denotes; a statement with any other text fails.\<close>

definition canon :: "pg \<Rightarrow> string \<Rightarrow> string" where
  "canon pg s = (case uuid_in pg s of Some u \<Rightarrow> u | None \<Rightarrow> s)"

definition serialization_failure :: goerr where
  "serialization_failure = pq_error ''could not serialize access due to concurrent update''"

definition new_user_version :: "string \<Rightarrow> db \<Rightarrow> version list" where
  "new_user_version u v = (case find_user u v of Some r \<Rightarrow> [PutUser r] | None \<Rightarrow> [])"

definition new_outbox_version :: "string \<Rightarrow> db \<Rightarrow> version list" where
  "new_outbox_version i v = (case find_outbox i v of Some r \<Rightarrow> [PutOutbox r] | None \<Rightarrow> [])"

subsection \<open>Charging\<close>

text \<open>
  \<open>held\<close> are the locks of the other transactions, \<open>d\<close> is the committed database. Constraints are
  checked against what is committed now, together with the rows of the transaction itself.
\<close>

definition charge_stmt ::
    "(row_lock \<Rightarrow> bool) \<Rightarrow> db \<Rightarrow> txn \<Rightarrow> string \<Rightarrow> int \<Rightarrow> string \<Rightarrow> charge_phase \<Rightarrow> outcome" where
  "charge_stmt held d t userID amount currency ph =
     (let pg = tx_pg t; u = canon pg userID; goto = (\<lambda>ph. t\<lparr>tx_work := Charge userID amount currency ph\<rparr>) in
      case ph of
        ChargeReceived \<Rightarrow>
          if amount \<le> 0 then Answer (Inl (ErrNew ''transaction amount must be strictly positive''))
          else (case BeginTx pg d of
             Inl e \<Rightarrow> Answer (Inl (wrapf ''failed to initialize payment transaction context'' e))
           | Inr _ \<Rightarrow> Next (goto ChargeBegun))
      | ChargeBegun \<Rightarrow> Next (goto (AwaitBalance d))
      | AwaitBalance snapshot \<Rightarrow>
          if held (UserRow u) then Wait
          else (case sql_select_balance pg snapshot userID of
             Inl e \<Rightarrow> Answer (Inl (wrapf ''failed to look up target user balance inside tx'' e))
           | Inr currentBalance \<Rightarrow>
               if find_user u d \<noteq> find_user u snapshot
               then Answer (Inl (wrapf ''failed to look up target user balance inside tx'' serialization_failure))
               else if currentBalance < amount
               then Answer (Inl (ErrNew ''insufficient account balances to clear transaction''))
               else Next ((goto (BalanceRead snapshot))\<lparr>tx_locks := insert (UserRow u) (tx_locks t)\<rparr>))
      | BalanceRead snapshot \<Rightarrow>
          (case sql_debit_user pg snapshot amount userID of
             Inl e \<Rightarrow> Answer (Inl (wrapf ''failed to adjust user ledger balance accounts'' e))
           | Inr v \<Rightarrow> Next ((goto Debited)\<lparr>tx_writes := tx_writes t @ new_user_version u v\<rparr>))
      | Debited \<Rightarrow>
          (let pid = gen_uuid pg S_insert_payment in
           if held (PaymentRow pid) \<and> find_payment pid d = None then Wait
           else (case sql_insert_payment pg (install (tx_writes t) d) userID amount currency of
              Inl e \<Rightarrow> Answer (Inl (wrapf ''failed to register permanent payment record log'' e))
            | Inr (row, v) \<Rightarrow> Next ((goto (Inserted (scan_payment row)))\<lparr>tx_locks := insert (PaymentRow pid) (tx_locks t),
                                 tx_writes := tx_writes t @ [NewPayment row]\<rparr>)))
      | Inserted payment \<Rightarrow>
          (let oid = gen_uuid pg S_insert_outbox in
           if held (OutboxRow oid) \<and> find_outbox oid d = None then Wait
           else (case SaveEventTx pg (install (tx_writes t) d) ''payment'' (p_ID payment) ''payment.succeeded''
                   (webhookPayload payment (tx_clock t)) of
              Inl e \<Rightarrow> Answer (Inl (wrapf ''failed to stage transactional outbox event'' e))
            | Inr v \<Rightarrow> Next ((goto (Staged payment))\<lparr>tx_locks := insert (OutboxRow oid) (tx_locks t),
                          tx_writes := tx_writes t @ [NewOutbox (last (tbl_outbox v))]\<rparr>)))
      | Staged payment \<Rightarrow> Commit)"

subsection \<open>Refunding\<close>

definition refund_stmt :: "(row_lock \<Rightarrow> bool) \<Rightarrow> db \<Rightarrow> txn \<Rightarrow> string \<Rightarrow> refund_phase \<Rightarrow> outcome" where
  "refund_stmt held d t paymentID ph =
     (let pg = tx_pg t; i = canon pg paymentID; goto = (\<lambda>ph. t\<lparr>tx_work := Refund paymentID ph\<rparr>) in
      case ph of
        RefundReceived \<Rightarrow>
          if paymentID = '''' then Answer (Inl (ErrNew ''payment tracking reference ID cannot be empty''))
          else (case db_BeginTx pg d of
             Inl e \<Rightarrow> Answer (Inl (wrapf ''failed to open refund transaction'' e))
           | Inr _ \<Rightarrow> Next (goto RefundBegun))
      | RefundBegun \<Rightarrow>
          if held (PaymentRow i) \<and> find_payment i d \<noteq> None then Wait
          else (case sql_select_payment pg d paymentID of
             Inl e \<Rightarrow> Answer (Inl (wrapf ''payment record not found or lock acquisition timed out'' e))
           | Inr p \<Rightarrow>
               if \<not> refundable (pay_status p)
               then Answer (Inl (ErrNew (''invalid state transition: cannot refund a transaction with status ''
                      @ [CHR 0x27] @ pay_status p @ [CHR 0x27])))
               else Next ((goto (Chosen p))\<lparr>tx_locks := insert (PaymentRow i) (tx_locks t)\<rparr>))
      | Chosen p \<Rightarrow>
          (let u = canon pg (pay_user_id p) in
           if held (UserRow u) then Wait
           else (case sql_credit_user pg d (pay_amount p) (pay_user_id p) of
              Inl e \<Rightarrow> Answer (Inl (wrapf ''failed to return funds to user wallet balance'' e))
            | Inr v \<Rightarrow> Next ((goto (Credited p))\<lparr>tx_locks := insert (UserRow u) (tx_locks t),
                          tx_writes := tx_writes t @ new_user_version u v\<rparr>)))
      | Credited p \<Rightarrow>
          (case sql_mark_refunded pg (install (tx_writes t) d) paymentID of
             Inl e \<Rightarrow> Answer (Inl (wrapf ''failed to update payment record lifecycle status'' e))
           | Inr (row, v) \<Rightarrow> Next ((goto (Marked p row))\<lparr>tx_writes := tx_writes t @ [PutPayment row]\<rparr>))
      | Marked p row \<Rightarrow> Commit)"

subsection \<open>Polling\<close>

definition poll_stmt ::
    "(row_lock \<Rightarrow> bool) \<Rightarrow> db \<Rightarrow> txn \<Rightarrow> (string \<Rightarrow> bool) \<Rightarrow> (string \<Rightarrow> int) \<Rightarrow> poll_phase \<Rightarrow> outcome" where
  "poll_stmt held d t bad now ph =
     (let pg = tx_pg t; goto = (\<lambda>ph. t\<lparr>tx_work := Poll bad now ph\<rparr>) in
      case ph of
        PollReceived \<Rightarrow> (case db_BeginTx pg d of Inl e \<Rightarrow> Quit | Inr _ \<Rightarrow> Next (goto PollBegun))
      | PollBegun \<Rightarrow>
          (case sql_select_pending pg (\<lambda>i. held (OutboxRow i)) d of
             Inl e \<Rightarrow> Quit
           | Inr rows \<Rightarrow>
               (let events = map scan_event (filter (\<lambda>r. \<not> bad (ob_id r)) (fetched pg S_select_pending rows))
                in if events = [] then Quit
                   else Next ((goto (Dispatching events))\<lparr>tx_locks := tx_locks t \<union> set (map (OutboxRow \<circ> ob_id) rows)\<rparr>)))
      | Dispatching [] \<Rightarrow> Commit
      | Dispatching (ev # evs) \<Rightarrow> Send ev
      | Enqueued err ev evs \<Rightarrow>
          (let status = (if err = None then ''PROCESSED'' else ''FAILED'');
               processedAt = (if err = None then Some (now (fe_ID ev)) else None)
           in (case sql_update_outbox pg (install (tx_writes t) d) status processedAt (fe_ID ev) of
                 Inl e \<Rightarrow> Quit
               | Inr v \<Rightarrow> Next ((goto (Dispatching evs))\<lparr>tx_writes := tx_writes t @ new_outbox_version (canon pg (fe_ID ev)) v\<rparr>))))"

subsection \<open>Any of them\<close>

definition stmt :: "(row_lock \<Rightarrow> bool) \<Rightarrow> db \<Rightarrow> txn \<Rightarrow> outcome" where
  "stmt held d t =
     (case tx_work t of
        Charge userID amount currency ph \<Rightarrow> charge_stmt held d t userID amount currency ph
      | Refund paymentID ph \<Rightarrow> refund_stmt held d t paymentID ph
      | Poll bad now ph \<Rightarrow> poll_stmt held d t bad now ph)"

text \<open>The reply of the task queue to the event that was sent.\<close>

definition replied :: "goerr option \<Rightarrow> txn \<Rightarrow> txn" where
  "replied err t =
     (case tx_work t of
        Poll bad now (Dispatching (ev # evs)) \<Rightarrow> t\<lparr>tx_work := Poll bad now (Enqueued err ev evs)\<rparr>
      | _ \<Rightarrow> t)"

text \<open>What the function returns after its commit.\<close>

definition commit_answer :: "txn \<Rightarrow> goerr option \<Rightarrow> Payment result option" where
  "commit_answer t e =
     (case tx_work t of
        Charge userID amount currency (Staged payment) \<Rightarrow>
          Some (case e of Some x \<Rightarrow> Inl (wrapf ''failed to commit payment transaction chain'' x) | None \<Rightarrow> Inr payment)
      | Refund paymentID (Marked p row) \<Rightarrow>
          Some (case e of Some x \<Rightarrow> Inl (wrapf ''failed to commit financial refund block'' x)
                | None \<Rightarrow> Inr \<lparr>p_ID = pay_id p, p_UserID = pay_user_id p, p_Amount = pay_amount p, p_Currency = pay_currency p,
                     p_Status = pay_status row, p_CreatedAt = db_time (pay_created_at p), p_UpdatedAt = db_time (pay_updated_at row)\<rparr>)
      | _ \<Rightarrow> None)"

definition new_txn :: "pg \<Rightarrow> gotime \<Rightarrow> work \<Rightarrow> txn" where
  "new_txn pg now w = \<lparr>tx_pg = pg, tx_clock = now, tx_work = w, tx_locks = {}, tx_writes = []\<rparr>"

section \<open>Row versions and updates\<close>

lemma install_simps [simp]:
  "install [] d = d" "install (w # ws) d = install ws (install1 w d)" "install (ws @ vs) d = install vs (install ws d)"
  by (simp_all add: install_def)

text \<open>With unique keys an update of the row with a key is the replacement of that row by its new version.\<close>

lemma update_where_put:
  assumes "distinct (map k rows)" and "List.find (\<lambda>x. k x = i) rows = Some r"
  shows "update_where (\<lambda>x. k x = i) f rows = update_where (\<lambda>x. k x = i) (\<lambda>_. f r) rows"
proof -
  have "x = r" if "x \<in> set rows" "k x = i" for x
    using find_key_unique[OF assms(1) that(1)] assms(2) that(2) by simp
  then show ?thesis by (auto simp: update_where_def)
qed

lemma add_balance_put:
  assumes "distinct (map usr_id (tbl_users d))" and r: "find_user u d = Some r"
  shows "add_balance delta u d = (if is_int64 (usr_balance r + delta)
     then Inr (install1 (PutUser (r\<lparr>usr_balance := usr_balance r + delta\<rparr>)) d) else Inl (pq_error ''bigint out of range''))"
proof -
  have row: "r \<in> set (tbl_users d)" "usr_id r = u" using find_user_Some[OF r] by auto
  have "x = r" if "x \<in> set (tbl_users d)" "usr_id x = u" for x
    using find_key_unique[OF assms(1) that(1)] r that(2) by (simp add: find_user_def)
  then have "list_all (\<lambda>x. usr_id x = u \<longrightarrow> is_int64 (usr_balance x + delta)) (tbl_users d) = is_int64 (usr_balance r + delta)"
    unfolding list_all_iff using row by blast
  then show ?thesis
    by (simp add: add_balance_def row(2)
        update_where_put[OF assms(1) r[unfolded find_user_def], of "\<lambda>x. x\<lparr>usr_balance := usr_balance x + delta\<rparr>"])
qed

lemma add_balance_absent: "find_user u d = None \<Longrightarrow> add_balance delta u d = Inr d"
proof -
  assume "find_user u d = None"
  then have absent: "usr_id r \<noteq> u" if "r \<in> set (tbl_users d)" for r
    using that by (auto simp: find_user_None)
  then have "update_where (\<lambda>r. usr_id r = u) f (tbl_users d) = tbl_users d" for f
    by (intro update_where_absent) blast
  with absent show ?thesis by (simp add: add_balance_def list_all_iff)
qed

text \<open>The new version of the user's row that an \<^verbatim>\<open>UPDATE\<close> evaluated on \<open>v\<close> leaves, whatever other rows \<open>v\<close> has.\<close>

lemma new_user_version_add_balance:
  assumes "add_balance delta u v = Inr v'" and r: "find_user u v = Some r"
  shows "new_user_version u v' = [PutUser (r\<lparr>usr_balance := usr_balance r + delta\<rparr>)]"
    and "is_int64 (usr_balance r + delta)"
proof -
  have "find_user u v' = Some (r\<lparr>usr_balance := usr_balance r + delta\<rparr>)"
    using r by (simp add: add_balance_Inr(1)[OF assms(1)] find_user_def find_update_where_same)
  then show "new_user_version u v' = [PutUser (r\<lparr>usr_balance := usr_balance r + delta\<rparr>)]"
    by (simp add: new_user_version_def)
  show "is_int64 (usr_balance r + delta)"
    using add_balance_Inr(2)[OF assms(1)] find_user_Some[OF r] by blast
qed

lemma set_status_put:
  assumes "distinct (map pay_id (tbl_payments d))" and "find_payment i d = Some p"
  shows "set_status st t i d = install1 (PutPayment (p\<lparr>pay_status := st, pay_updated_at := t\<rparr>)) d"
  using find_payment_Some[OF assms(2)]
  by (simp add: set_status_def update_where_put[OF assms(1) assms(2)[unfolded find_payment_def],
        of "\<lambda>r. r\<lparr>pay_status := st, pay_updated_at := t\<rparr>"])

lemma install1_users_frame [simp]:
  "find_payment i (install1 (PutUser r) d) = find_payment i d" "tbl_payments (install1 (PutUser r) d) = tbl_payments d"
  "tbl_outbox (install1 (PutUser r) d) = tbl_outbox d"
  by (simp_all add: find_payment_def)

section \<open>A transaction alone\<close>

fun run_alone :: "nat \<Rightarrow> db \<Rightarrow> txn \<Rightarrow> (db \<times> Payment result) option" where
  "run_alone 0 d t = None"
| "run_alone (Suc n) d t =
     (case stmt (\<lambda>_. False) d t of
        Next t' \<Rightarrow> run_alone n d t'
      | Answer res \<Rightarrow> Some (d, res)
      | Commit \<Rightarrow> (case tx_Commit (tx_pg t) (install (tx_writes t) d) d of (d', e) \<Rightarrow> map_option (Pair d') (commit_answer t e))
      | _ \<Rightarrow> None)"

lemma find_user_insert1 [simp]:
  "find_user u (install1 (PutUser r) d) = (if u = usr_id r \<and> find_user u d \<noteq> None then Some r else find_user u d)"
proof -
  have "List.find (\<lambda>x. usr_id x = u) (update_where (\<lambda>x. usr_id x = usr_id r) (\<lambda>_. r) rows)
      = (if u = usr_id r \<and> List.find (\<lambda>x. usr_id x = u) rows \<noteq> None then Some r else List.find (\<lambda>x. usr_id x = u) rows)" for rows
    by (induction rows) auto
  then show ?thesis by (auto simp: find_user_def)
qed

lemma sql_select_balance_Inr:
  "sql_select_balance pg d userID = Inr b \<Longrightarrow>
     uuid_in pg userID = Some (canon pg userID) \<and> fault pg S_select_balance = None
     \<and> (\<exists>r. find_user (canon pg userID) d = Some r \<and> usr_balance r = b)"
  by (auto simp: sql_select_balance_def exec_def uuid_arg_def canon_def split: option.splits)

lemma sql_debit_user_Inr:
  assumes "sql_debit_user pg d amount userID = Inr v"
  shows "add_balance (- amount) (canon pg userID) d = Inr v" and "fault pg S_debit_user = None"
  using assms by (auto simp: sql_debit_user_def exec_def uuid_arg_def canon_def split: option.splits)

lemma sql_credit_user_Inr:
  assumes "sql_credit_user pg d amount userID = Inr v"
  shows "add_balance amount (canon pg userID) d = Inr v" and "fault pg S_credit_user = None"
    and "uuid_in pg userID = Some (canon pg userID)"
  using assms by (auto simp: sql_credit_user_def exec_def uuid_arg_def canon_def split: option.splits)

lemma install_new_user_version:
  assumes dist: "distinct (map usr_id (tbl_users d))" and "add_balance delta u d = Inr v"
  shows "install (new_user_version u v) d = v"
proof (cases "find_user u d")
  case None
  with assms(2) have "v = d" by (simp add: add_balance_absent)
  with None show ?thesis by (simp add: new_user_version_def)
next
  case (Some r)
  show ?thesis
    using add_balance_put[OF dist Some, of delta] new_user_version_add_balance[OF assms(2) Some] assms(2) by simp
qed

lemma sql_insert_payment_install:
  "sql_insert_payment pg v userID amount currency = Inr (row, v') \<Longrightarrow> install1 (NewPayment row) v = v'"
  by (auto simp: sql_insert_payment_def exec_def uuid_arg_def Let_def split: option.splits if_splits)

lemma SaveEventTx_install:
  "SaveEventTx pg v atype aid etype payload = Inr v' \<Longrightarrow> install1 (NewOutbox (last (tbl_outbox v'))) v = v'"
  by (auto dest!: SaveEventTx_Inr)

lemma sql_mark_refunded_install:
  assumes "distinct (map pay_id (tbl_payments v))" and "sql_mark_refunded pg v paymentID = Inr (row, v')"
  shows "install1 (PutPayment row) v = v'"
proof -
  let ?i = "canon pg paymentID"
  from assms(2) have v': "v' = set_status ''refunded'' (tx_now pg) ?i v" and row: "find_payment ?i v' = Some row"
    by (auto simp: sql_mark_refunded_def exec_def uuid_arg_def canon_def Let_def split: option.splits)
  then obtain p where p: "find_payment ?i v = Some p"
    "row = p\<lparr>pay_status := ''refunded'', pay_updated_at := tx_now pg\<rparr>"
    by (auto simp: find_payment_set_status split: option.splits)
  show ?thesis unfolding v' p(2) by (rule set_status_put[OF assms(1) p(1), symmetric])
qed

text \<open>
  Without other transactions the statements of a charge are \<open>ProcessCharge\<close> and those of a refund
  \<open>ProcessRefund\<close>, on every branch: the same answer and the same database.
\<close>

lemmas service_defs = ProcessCharge_def ProcessRefund_def sql_service_def NewPaymentService_def NewPaymentRepository_def
  NewOutboxRepository_def BeginTx_def CreateTransactionRecordTx_def RefundTransactionRecord_def

lemma run_alone_unfold:
  "n = Suc m \<Longrightarrow> run_alone n d t =
     (case stmt (\<lambda>_. False) d t of
        Next t' \<Rightarrow> run_alone m d t'
      | Answer res \<Rightarrow> Some (d, res)
      | Commit \<Rightarrow> (case tx_Commit (tx_pg t) (install (tx_writes t) d) d of (d', e) \<Rightarrow> map_option (Pair d') (commit_answer t e))
      | _ \<Rightarrow> None)"
  by simp

lemma charge_alone_Inserted:
  assumes "tx_work t = Charge userID amount currency (Inserted p)"
  shows "run_alone 2 d t = Some (case SaveEventTx (tx_pg t) (install (tx_writes t) d) ''payment'' (p_ID p) ''payment.succeeded''
        (webhookPayload p (tx_clock t)) of
      Inl e \<Rightarrow> (d, Inl (wrapf ''failed to stage transactional outbox event'' e))
    | Inr v \<Rightarrow> (case tx_Commit (tx_pg t) v d of
          (d', Some e) \<Rightarrow> (d', Inl (wrapf ''failed to commit payment transaction chain'' e)) | (d', None) \<Rightarrow> (d', Inr p)))"
  using assms by (auto simp: numeral_eq_Suc stmt_def charge_stmt_def Let_def commit_answer_def SaveEventTx_install
      simp del: install1.simps split: sum.splits prod.splits option.splits)

lemma charge_alone_Debited:
  assumes "tx_work t = Charge userID amount currency Debited"
  shows "run_alone 3 d t = Some (case sql_insert_payment (tx_pg t) (install (tx_writes t) d) userID amount currency of
      Inl e \<Rightarrow> (d, Inl (wrapf ''failed to register permanent payment record log'' e))
    | Inr (row, v) \<Rightarrow> (case SaveEventTx (tx_pg t) v ''payment'' (p_ID (scan_payment row)) ''payment.succeeded''
        (webhookPayload (scan_payment row) (tx_clock t)) of
      Inl e \<Rightarrow> (d, Inl (wrapf ''failed to stage transactional outbox event'' e))
    | Inr v \<Rightarrow> (case tx_Commit (tx_pg t) v d of
          (d', Some e) \<Rightarrow> (d', Inl (wrapf ''failed to commit payment transaction chain'' e))
        | (d', None) \<Rightarrow> (d', Inr (scan_payment row)))))"
  using assms
  by (auto simp: run_alone_unfold[of 3 2] charge_alone_Inserted stmt_def charge_stmt_def Let_def sql_insert_payment_install
      simp del: install1.simps split: sum.splits prod.splits)

lemma charge_alone:
  assumes dist: "distinct (map usr_id (tbl_users d))"
  shows "run_alone 7 d (new_txn pg now (Charge userID amount currency ChargeReceived)) = Some (ChargeOn pg now d userID amount currency)"
proof -
  note steps = run_alone_unfold[of 7 6] run_alone_unfold[of 6 5] run_alone_unfold[of 5 4] run_alone_unfold[of 4 3]
  note defs = steps service_defs stmt_def charge_stmt_def new_txn_def db_BeginTx_def exec_def
  show ?thesis
  proof (cases "amount \<le> 0 \<or> fault pg S_begin \<noteq> None")
    case True
    then show ?thesis by (auto simp: defs)
  next
    case False
    show ?thesis
    proof (cases "sql_select_balance pg d userID")
      case (Inr b)
      show ?thesis
      proof (cases "b < amount \<or> (\<exists>e. sql_debit_user pg d amount userID = Inl e)")
        case True
        with False Inr show ?thesis by (auto simp: defs)
      next
        case enough: False
        then obtain v where v: "sql_debit_user pg d amount userID = Inr v"
          by (cases "sql_debit_user pg d amount userID") auto
        have "install (new_user_version (canon pg userID) v) d = v"
          by (rule install_new_user_version[OF dist sql_debit_user_Inr(1)[OF v]])
        with False Inr enough v show ?thesis
          by (simp add: defs charge_alone_Debited split: sum.split)
      qed
    qed (use False in \<open>auto simp: defs\<close>)
  qed
qed

lemma refund_alone:
  assumes dist: "distinct (map usr_id (tbl_users d))" "distinct (map pay_id (tbl_payments d))"
  shows "run_alone 5 d (new_txn pg now (Refund paymentID RefundReceived)) = Some (RefundOn pg d paymentID)"
proof -
  have credit: "install (new_user_version (canon pg u) v) d = v \<and> tbl_payments v = tbl_payments d"
    if "sql_credit_user pg d amount u = Inr v" for v u amount
    using install_new_user_version[OF dist(1)] add_balance_frame(3) sql_credit_user_Inr(1)[OF that] by blast
  then show ?thesis
    using dist(2) sql_mark_refunded_install
    by (auto simp: service_defs stmt_def refund_stmt_def new_txn_def numeral_eq_Suc Let_def commit_answer_def db_BeginTx_def exec_def
        simp del: install1.simps split: sum.splits prod.splits option.splits)
qed

end
