(* ===== verification/Locking.thy ===== *)
theory Locking
  imports Prelude
begin

text \<open>
  Transactions that work side by side on one shared store and exclude each other by locks. A
  transaction has a local state with the locks it holds; it \<open>fits\<close> the store when what it has read and
  what it is going to publish would be the same if it ran on the present store alone. The contract is
  that publishing leaves every transaction fitting that holds other locks. What the clients get is that
  all live transactions always fit, so that each commit is a complete run on the store it finds.
\<close>

definition held_by_others :: "('l \<Rightarrow> 'k set) \<Rightarrow> (nat \<Rightarrow> 'l option) \<Rightarrow> nat \<Rightarrow> 'k \<Rightarrow> bool" where
  "held_by_others locks live n k \<longleftrightarrow> (\<exists>m l. m \<noteq> n \<and> live m = Some l \<and> k \<in> locks l)"

definition consistent :: "('l \<Rightarrow> 'k set) \<Rightarrow> ('l \<Rightarrow> 'd \<Rightarrow> bool) \<Rightarrow> 'd \<Rightarrow> (nat \<Rightarrow> 'l option) \<Rightarrow> bool" where
  "consistent locks fits d live \<longleftrightarrow>
     (\<forall>n l. live n = Some l \<longrightarrow> fits l d \<and> (\<forall>k \<in> locks l. \<not> held_by_others locks live n k))"

lemma consistentD:
  assumes "consistent locks fits d live" and "live n = Some l"
  shows "fits l d" and "k \<in> locks l \<Longrightarrow> \<not> held_by_others locks live n k"
  using assms by (auto simp: consistent_def)

lemma consistent_disjoint:
  assumes "consistent locks fits d live" and "live n = Some l" and "live m = Some l'" and "n \<noteq> m"
  shows "locks l \<inter> locks l' = {}"
proof -
  have False if "k \<in> locks l" "k \<in> locks l'" for k
    using consistentD(2)[OF assms(1,2) that(1)] that(2) assms(3,4) by (auto simp: held_by_others_def)
  then show ?thesis by blast
qed

locale exclusive_locks =
  fixes locks :: "'l \<Rightarrow> 'k set"
    and fits :: "'l \<Rightarrow> 'd \<Rightarrow> bool"
    and publish :: "'l \<Rightarrow> 'd \<Rightarrow> 'd"
  assumes publish_frame: "fits l d \<Longrightarrow> fits l' d \<Longrightarrow> locks l \<inter> locks l' = {} \<Longrightarrow> fits l' (publish l d)"
begin

abbreviation cons :: "'d \<Rightarrow> (nat \<Rightarrow> 'l option) \<Rightarrow> bool" where
  "cons \<equiv> consistent locks fits"

lemma begins:
  assumes "cons d live" and "live n = None" and "fits l d" and "locks l = {}"
  shows "cons d (live(n \<mapsto> l))"
  using assms by (auto simp: consistent_def held_by_others_def)

lemma advances:
  assumes "cons d live" and l: "live n = Some l" and "fits l' d"
    and new: "\<And>k. k \<in> locks l' \<Longrightarrow> k \<in> locks l \<or> \<not> held_by_others locks live n k"
  shows "cons d (live(n \<mapsto> l'))"
proof -
  have "\<not> held_by_others locks live n k" if "k \<in> locks l'" for k
    using new[OF that] consistentD(2)[OF assms(1) l] by blast
  then show ?thesis
    using assms(1,3) by (auto simp: consistent_def held_by_others_def split: if_splits)
qed

lemma ends:
  assumes "cons d live"
  shows "cons d (live(n := None))"
  using assms by (auto simp: consistent_def held_by_others_def)

lemma moves:
  assumes "cons d live" and "\<And>n l. live n = Some l \<Longrightarrow> fits l d'"
  shows "cons d' live"
  using assms by (auto simp: consistent_def)

lemma publishes:
  assumes c: "cons d live" and l: "live n = Some l"
  shows "cons (publish l d) (live(n := None))"
proof (rule moves[OF ends[OF c]])
  fix m l'
  assume "(live(n := None)) m = Some l'"
  then have l': "live m = Some l'" and "n \<noteq> m" by (auto split: if_splits)
  then show "fits l' (publish l d)"
    using publish_frame[OF consistentD(1)[OF c l] consistentD(1)[OF c l']] consistent_disjoint[OF c l l'] by simp
qed

end

end
