(* ===== verification/Fitting.thy ===== *)
theory Fitting
  imports Statements Locking
begin

text \<open>
  When a transaction that is under way fits the committed database (\<open>Locking\<close>): the rows it has read are
  still there as it read them, and its private versions are those it would write now. It fits as long as
  the rows it holds locks on do not change; its own statements keep it fitting; and when it commits, its
  effect and its answer are those of the serial function on the database at that moment.
\<close>

section \<open>Fitting the committed database\<close>

text \<open>
  The rows a charge has found so far, as conditions on the database \<open>d\<close>; \<open>r\<close> is the row of the user.
\<close>

definition debit_version :: "int \<Rightarrow> user_row \<Rightarrow> version" where
  "debit_version amount r = PutUser (r\<lparr>usr_balance := usr_balance r - amount\<rparr>)"

definition outbox_version :: "pg \<Rightarrow> string \<Rightarrow> version" where
  "outbox_version pg j = NewOutbox (outbox_row_for pg (gen_uuid pg S_insert_payment) j)"

definition covered :: "pg \<Rightarrow> string \<Rightarrow> int \<Rightarrow> user_row \<Rightarrow> db \<Rightarrow> bool" where
  "covered pg userID amount r d \<longleftrightarrow> 0 < amount \<and> fault pg S_begin = None \<and> fault pg S_select_balance = None
     \<and> uuid_in pg userID = Some (usr_id r) \<and> find_user (usr_id r) d = Some r \<and> amount \<le> usr_balance r"

definition debitable :: "pg \<Rightarrow> int \<Rightarrow> user_row \<Rightarrow> bool" where
  "debitable pg amount r \<longleftrightarrow> fault pg S_debit_user = None \<and> is_int64 (usr_balance r - amount)"

definition insertable :: "pg \<Rightarrow> db \<Rightarrow> bool" where
  "insertable pg d \<longleftrightarrow> fault pg S_insert_payment = None \<and> find_payment (gen_uuid pg S_insert_payment) d = None"

definition stageable :: "pg \<Rightarrow> gotime \<Rightarrow> Payment \<Rightarrow> string \<Rightarrow> db \<Rightarrow> bool" where
  "stageable pg now p j d \<longleftrightarrow> fault pg S_insert_outbox = None \<and> jsonb_in pg (json_Marshal (webhookPayload p now)) = Some j
     \<and> length (gen_uuid pg S_insert_payment) \<le> 100 \<and> find_outbox (gen_uuid pg S_insert_outbox) d = None"

fun charge_fits :: "pg \<Rightarrow> gotime \<Rightarrow> string \<Rightarrow> int \<Rightarrow> string \<Rightarrow> charge_phase \<Rightarrow> row_lock set \<Rightarrow> version list \<Rightarrow> db \<Rightarrow> bool" where
  "charge_fits pg now userID amount currency ChargeReceived L ws d \<longleftrightarrow> L = {} \<and> ws = []"
| "charge_fits pg now userID amount currency ChargeBegun L ws d \<longleftrightarrow>
     L = {} \<and> ws = [] \<and> 0 < amount \<and> fault pg S_begin = None"
| "charge_fits pg now userID amount currency (AwaitBalance snapshot) L ws d \<longleftrightarrow>
     L = {} \<and> ws = [] \<and> 0 < amount \<and> fault pg S_begin = None"
| "charge_fits pg now userID amount currency (BalanceRead snapshot) L ws d \<longleftrightarrow>
     (\<exists>r. covered pg userID amount r d \<and> find_user (usr_id r) snapshot = Some r \<and> L = {UserRow (usr_id r)} \<and> ws = [])"
| "charge_fits pg now userID amount currency Debited L ws d \<longleftrightarrow>
     (\<exists>r. covered pg userID amount r d \<and> debitable pg amount r \<and> L = {UserRow (usr_id r)} \<and> ws = [debit_version amount r])"
| "charge_fits pg now userID amount currency (Inserted p) L ws d \<longleftrightarrow>
     (\<exists>r. covered pg userID amount r d \<and> debitable pg amount r \<and> insertable pg d
        \<and> p = scan_payment (new_payment_row pg (usr_id r) amount currency)
        \<and> L = {UserRow (usr_id r), PaymentRow (gen_uuid pg S_insert_payment)}
        \<and> ws = [debit_version amount r, NewPayment (new_payment_row pg (usr_id r) amount currency)])"
| "charge_fits pg now userID amount currency (Staged p) L ws d \<longleftrightarrow>
     (\<exists>r j. covered pg userID amount r d \<and> debitable pg amount r \<and> insertable pg d \<and> stageable pg now p j d
        \<and> p = scan_payment (new_payment_row pg (usr_id r) amount currency)
        \<and> L = {UserRow (usr_id r), PaymentRow (gen_uuid pg S_insert_payment), OutboxRow (gen_uuid pg S_insert_outbox)}
        \<and> ws = [debit_version amount r, NewPayment (new_payment_row pg (usr_id r) amount currency), outbox_version pg j])"

definition chosen :: "pg \<Rightarrow> string \<Rightarrow> payment_row \<Rightarrow> db \<Rightarrow> bool" where
  "chosen pg paymentID p d \<longleftrightarrow> paymentID \<noteq> '''' \<and> fault pg S_begin = None \<and> fault pg S_select_payment = None
     \<and> uuid_in pg paymentID = Some (pay_id p) \<and> find_payment (pay_id p) d = Some p \<and> refundable (pay_status p)"

definition creditable :: "pg \<Rightarrow> payment_row \<Rightarrow> user_row \<Rightarrow> db \<Rightarrow> bool" where
  "creditable pg p r d \<longleftrightarrow> fault pg S_credit_user = None \<and> uuid_in pg (pay_user_id p) = Some (usr_id r)
     \<and> find_user (usr_id r) d = Some r \<and> is_int64 (usr_balance r + pay_amount p)"

definition credit_version :: "payment_row \<Rightarrow> user_row \<Rightarrow> version" where
  "credit_version p r = PutUser (r\<lparr>usr_balance := usr_balance r + pay_amount p\<rparr>)"

definition refunded_row :: "pg \<Rightarrow> payment_row \<Rightarrow> payment_row" where
  "refunded_row pg p = p\<lparr>pay_status := ''refunded'', pay_updated_at := tx_now pg\<rparr>"

fun refund_fits :: "pg \<Rightarrow> string \<Rightarrow> refund_phase \<Rightarrow> row_lock set \<Rightarrow> version list \<Rightarrow> db \<Rightarrow> bool" where
  "refund_fits pg paymentID RefundReceived L ws d \<longleftrightarrow> L = {} \<and> ws = []"
| "refund_fits pg paymentID RefundBegun L ws d \<longleftrightarrow> L = {} \<and> ws = [] \<and> paymentID \<noteq> '''' \<and> fault pg S_begin = None"
| "refund_fits pg paymentID (Chosen p) L ws d \<longleftrightarrow> chosen pg paymentID p d \<and> L = {PaymentRow (pay_id p)} \<and> ws = []"
| "refund_fits pg paymentID (Credited p) L ws d \<longleftrightarrow>
     (\<exists>r. chosen pg paymentID p d \<and> creditable pg p r d \<and> L = {PaymentRow (pay_id p), UserRow (usr_id r)}
        \<and> ws = [credit_version p r])"
| "refund_fits pg paymentID (Marked p row) L ws d \<longleftrightarrow>
     (\<exists>r. chosen pg paymentID p d \<and> creditable pg p r d \<and> fault pg S_mark_refunded = None \<and> row = refunded_row pg p
        \<and> L = {PaymentRow (pay_id p), UserRow (usr_id r)} \<and> ws = [credit_version p r, PutPayment row])"

text \<open>
  For a poll: the rows it selected are those it would select now if it skipped all others, and of
  its events the first ones have been handled, with the given replies of the queue.
\<close>

definition settle :: "pg \<Rightarrow> (string \<Rightarrow> int) \<Rightarrow> outbox_row \<times> goerr option \<Rightarrow> outbox_row" where
  "settle pg now ro = (fst ro)\<lparr>ob_status := (if snd ro = None then ''PROCESSED'' else ''FAILED''),
     ob_processed_at := (if snd ro = None then Some (ts_in pg (now (ob_id (fst ro)))) else None)\<rparr>"

definition batch_fits ::
    "pg \<Rightarrow> (string \<Rightarrow> bool) \<Rightarrow> (string \<Rightarrow> int) \<Rightarrow> fetchedEvent list \<Rightarrow> (outbox_row \<times> goerr option) list
     \<Rightarrow> row_lock set \<Rightarrow> version list \<Rightarrow> db \<Rightarrow> bool" where
  "batch_fits pg bad now evs handled L ws d \<longleftrightarrow>
     fault pg S_begin = None \<and> fault pg S_select_pending = None
   \<and> L = OutboxRow ` ob_id ` set (selected (\<lambda>i. OutboxRow i \<notin> L) d)
   \<and> map (scan_event \<circ> fst) handled @ evs = events_of pg (\<lambda>i. OutboxRow i \<notin> L) bad d
   \<and> map (scan_event \<circ> fst) handled @ evs \<noteq> []
   \<and> set (map fst handled) \<subseteq> set (tbl_outbox d)
   \<and> (\<forall>ro \<in> set handled. fault pg (S_update_outbox (ob_id (fst ro))) = None)
   \<and> ws = map (PutOutbox \<circ> settle pg now) handled"

lemma batch_fitsD:
  assumes "batch_fits pg bad now evs handled L ws d"
  shows "fault pg S_begin = None" and "fault pg S_select_pending = None"
    and "L = OutboxRow ` ob_id ` set (selected (\<lambda>i. OutboxRow i \<notin> L) d)"
    and "map (scan_event \<circ> fst) handled @ evs = events_of pg (\<lambda>i. OutboxRow i \<notin> L) bad d"
    and "set (map fst handled) \<subseteq> set (tbl_outbox d)"
    and "ro \<in> set handled \<Longrightarrow> fault pg (S_update_outbox (ob_id (fst ro))) = None"
    and "ws = map (PutOutbox \<circ> settle pg now) handled"
    and "map (scan_event \<circ> fst) handled @ evs \<noteq> []"
  using assms unfolding batch_fits_def by blast+

fun poll_fits :: "pg \<Rightarrow> (string \<Rightarrow> bool) \<Rightarrow> (string \<Rightarrow> int) \<Rightarrow> poll_phase \<Rightarrow> row_lock set \<Rightarrow> version list \<Rightarrow> db \<Rightarrow> bool" where
  "poll_fits pg bad now PollReceived L ws d \<longleftrightarrow> L = {} \<and> ws = []"
| "poll_fits pg bad now PollBegun L ws d \<longleftrightarrow> L = {} \<and> ws = [] \<and> fault pg S_begin = None"
| "poll_fits pg bad now (Dispatching evs) L ws d \<longleftrightarrow> (\<exists>handled. batch_fits pg bad now evs handled L ws d)"
| "poll_fits pg bad now (Enqueued err ev evs) L ws d \<longleftrightarrow> (\<exists>handled. batch_fits pg bad now (ev # evs) handled L ws d)"

definition fits :: "txn \<Rightarrow> db \<Rightarrow> bool" where
  "fits t d \<longleftrightarrow>
     (case tx_work t of
        Charge userID amount currency ph \<Rightarrow> charge_fits (tx_pg t) (tx_clock t) userID amount currency ph (tx_locks t) (tx_writes t) d
      | Refund paymentID ph \<Rightarrow> refund_fits (tx_pg t) paymentID ph (tx_locks t) (tx_writes t) d
      | Poll bad now ph \<Rightarrow> poll_fits (tx_pg t) bad now ph (tx_locks t) (tx_writes t) d)"

section \<open>Only locked rows matter, and only locked rows change\<close>

definition agree :: "row_lock set \<Rightarrow> db \<Rightarrow> db \<Rightarrow> bool" where
  "agree L d d' \<longleftrightarrow>
     (\<forall>u. UserRow u \<in> L \<longrightarrow> find_user u d' = find_user u d)
   \<and> (\<forall>i. PaymentRow i \<in> L \<longrightarrow> find_payment i d' = find_payment i d)
   \<and> filter (\<lambda>r. OutboxRow (ob_id r) \<in> L) (tbl_outbox d') = filter (\<lambda>r. OutboxRow (ob_id r) \<in> L) (tbl_outbox d)"

lemma agree_trans: "agree L d d' \<Longrightarrow> agree L d' d'' \<Longrightarrow> agree L d d''"
  by (auto simp: agree_def)

lemma agree_refl [simp]: "agree L d d"
  by (simp add: agree_def)

lemma find_filter: "(\<And>x. P x \<Longrightarrow> Q x) \<Longrightarrow> List.find P (filter Q xs) = List.find P xs"
  by (induction xs) auto

lemma agree_outbox:
  assumes "agree L d d'"
  shows "OutboxRow i \<in> L \<Longrightarrow> find_outbox i d' = find_outbox i d"
    and "selected (\<lambda>i. OutboxRow i \<notin> L) d' = selected (\<lambda>i. OutboxRow i \<notin> L) d"
    and "events_of pg (\<lambda>i. OutboxRow i \<notin> L) bad d' = events_of pg (\<lambda>i. OutboxRow i \<notin> L) bad d"
    and "OutboxRow (ob_id r) \<in> L \<Longrightarrow> r \<in> set (tbl_outbox d') \<longleftrightarrow> r \<in> set (tbl_outbox d)"
proof -
  let ?l = "\<lambda>r. OutboxRow (ob_id r) \<in> L"
  have same: "filter ?l (tbl_outbox d') = filter ?l (tbl_outbox d)" using assms by (simp add: agree_def)
  show "find_outbox i d' = find_outbox i d" if "OutboxRow i \<in> L"
  proof -
    have "find_outbox i x = List.find (\<lambda>r. ob_id r = i) (filter ?l (tbl_outbox x))" for x
      unfolding find_outbox_def using that by (intro find_filter[symmetric]) auto
    then show ?thesis by (simp only: same)
  qed
  have "filter (\<lambda>r. ob_status r = ''PENDING'' \<and> ?l r) (tbl_outbox x) = filter (\<lambda>r. ob_status r = ''PENDING'') (filter ?l (tbl_outbox x))" for x :: db
    by (simp add: conj_commute)
  then show sel: "selected (\<lambda>i. OutboxRow i \<notin> L) d' = selected (\<lambda>i. OutboxRow i \<notin> L) d"
    by (simp only: selected_def not_not same)
  show "events_of pg (\<lambda>i. OutboxRow i \<notin> L) bad d' = events_of pg (\<lambda>i. OutboxRow i \<notin> L) bad d"
    by (simp add: events_of_def sel)
  show "r \<in> set (tbl_outbox d') \<longleftrightarrow> r \<in> set (tbl_outbox d)" if "?l r"
  proof -
    have "r \<in> set (tbl_outbox x) \<longleftrightarrow> r \<in> set (filter ?l (tbl_outbox x))" for x :: db using that by simp
    then show ?thesis by (simp only: same)
  qed
qed

lemma batch_locked:
  assumes b: "batch_fits pg bad now evs handled L ws d"
  shows "ev \<in> set (map (scan_event \<circ> fst) handled @ evs) \<Longrightarrow> OutboxRow (fe_ID ev) \<in> L"
    and "ro \<in> set handled \<Longrightarrow> OutboxRow (ob_id (fst ro)) \<in> L"
proof -
  show locked: "OutboxRow (fe_ID ev) \<in> L" if "ev \<in> set (map (scan_event \<circ> fst) handled @ evs)" for ev
  proof -
    from that have "ev \<in> set (events_of pg (\<lambda>i. OutboxRow i \<notin> L) bad d)" by (simp only: batch_fitsD(4)[OF b])
    then obtain r where "r \<in> set (selected (\<lambda>i. OutboxRow i \<notin> L) d)" "ev = scan_event r"
      using set_fetched by (fastforce simp: events_of_def)
    then show ?thesis using batch_fitsD(3)[OF b] by (metis imageI scan_event_simps(1))
  qed
  show "OutboxRow (ob_id (fst ro)) \<in> L" if "ro \<in> set handled"
    using locked[of "scan_event (fst ro)"] that by simp
qed

lemmas batch_handled_locked = batch_locked(2)

lemma batch_fits_agree:
  assumes b: "batch_fits pg bad now evs handled L ws d" and a: "agree L d d'"
  shows "batch_fits pg bad now evs handled L ws d'"
proof -
  have "set (map fst handled) \<subseteq> set (tbl_outbox d')"
    using agree_outbox(4)[OF a] batch_handled_locked[OF b] batch_fitsD(5)[OF b] by fastforce
  then show ?thesis
    using b unfolding batch_fits_def agree_outbox(2,3)[OF a] by blast
qed

lemma fits_agree:
  assumes "fits t d" and a: "agree (tx_locks t) d d'"
  shows "fits t d'"
proof -
  have found: "UserRow u \<in> tx_locks t \<Longrightarrow> find_user u d' = find_user u d"
    "PaymentRow i \<in> tx_locks t \<Longrightarrow> find_payment i d' = find_payment i d" for u i
    using a by (auto simp: agree_def)
  show ?thesis
  proof (cases "tx_work t")
    case (Charge userID amount currency ph)
    with assms(1) found agree_outbox(1)[OF a] show ?thesis
      by (cases ph) (auto simp: fits_def covered_def insertable_def stageable_def)
  next
    case (Refund paymentID ph)
    with assms(1) found show ?thesis
      by (cases ph) (auto simp: fits_def chosen_def creditable_def)
  next
    case (Poll bad now ph)
    with assms(1) show ?thesis
      by (cases ph) (auto simp: fits_def intro: batch_fits_agree[OF _ a])
  qed
qed

text \<open>Installing versions changes only the rows they are versions of.\<close>

lemma install1_agree:
  assumes "version_lock w \<notin> L"
  shows "agree L d (install1 w d)"
proof -
  have other: "List.find (\<lambda>x. k x = i) (update_where (\<lambda>x. k x = k r) (\<lambda>_. r) rows) = List.find (\<lambda>x. k x = i) rows"
    if "i \<noteq> k r" for i k and r :: 'r and rows
    using that by (induction rows) auto
  have kept: "filter P (update_where Q (\<lambda>_. r) rows) = filter P rows" if "\<And>x. Q x \<Longrightarrow> \<not> P x" "\<not> P r" for P Q and r :: 'r and rows
    using that by (induction rows) auto
  show ?thesis
    using assms
  proof (cases w)
    case (PutUser r)
    with assms show ?thesis by (auto simp: agree_def find_user_def find_payment_def intro!: other)
  next
    case (NewPayment r)
    with assms show ?thesis by (auto simp: agree_def find_user_def find_payment_def find_append_list split: option.splits)
  next
    case (PutPayment r)
    with assms show ?thesis by (auto simp: agree_def find_user_def find_payment_def intro!: other)
  next
    case (NewOutbox r)
    with assms show ?thesis by (auto simp: agree_def find_user_def find_payment_def)
  next
    case (PutOutbox r)
    with assms show ?thesis by (auto simp: agree_def find_user_def find_payment_def intro!: kept)
  qed
qed

lemma install_agree:
  "\<forall>w \<in> set ws. version_lock w \<notin> L \<Longrightarrow> agree L d (install ws d)"
proof (induction ws arbitrary: d)
  case (Cons w ws)
  then show ?case using agree_trans[OF install1_agree[of w L d]] by simp
qed simp

lemma fits_writes_locked:
  assumes "fits t d"
  shows "\<forall>w \<in> set (tx_writes t). version_lock w \<in> tx_locks t"
proof (cases "tx_work t")
  case (Charge userID amount currency ph)
  with assms show ?thesis
    by (cases ph; simp add: fits_def; elim exE conjE; simp add: debit_version_def outbox_version_def outbox_row_for_def)
next
  case (Refund paymentID ph)
  with assms show ?thesis
    by (cases ph; simp add: fits_def; elim exE conjE; simp add: credit_version_def refunded_row_def)
next
  case (Poll bad now ph)
  have "\<forall>w \<in> set ws. version_lock w \<in> L" if "batch_fits pg bad now evs handled L ws d" for pg evs handled L ws
    using batch_handled_locked[OF that] by (auto simp: batch_fitsD(7)[OF that] settle_def)
  with Poll assms show ?thesis by (cases ph) (auto simp: fits_def)
qed

interpretation payments_2pl: exclusive_locks tx_locks fits "\<lambda>t. install (tx_writes t)"
proof
  fix d t t'
  assume "fits t d" "fits t' d" "tx_locks t \<inter> tx_locks t' = {}"
  then have "\<forall>w \<in> set (tx_writes t). version_lock w \<notin> tx_locks t'"
    using fits_writes_locked by blast
  then show "fits t' (install (tx_writes t) d)"
    using fits_agree[OF \<open>fits t' d\<close> install_agree] by blast
qed

section \<open>Statements keep a transaction fitting\<close>

text \<open>What a statement may do to the local state: the work goes on, and new locks were free.\<close>

definition goes_on :: "(row_lock \<Rightarrow> bool) \<Rightarrow> db \<Rightarrow> txn \<Rightarrow> txn \<Rightarrow> bool" where
  "goes_on held d t t' \<longleftrightarrow> fits t' d \<and> tx_pg t' = tx_pg t \<and> tx_locks t \<subseteq> tx_locks t'
     \<and> (\<forall>k \<in> tx_locks t'. k \<in> tx_locks t \<or> \<not> held k)"

lemma outbox_version_SaveEventTx:
  assumes "SaveEventTx pg v ''payment'' (p_ID p) ''payment.succeeded'' (webhookPayload p now) = Inr v'"
    and "p_ID p = gen_uuid pg S_insert_payment" and "tbl_outbox v = tbl_outbox d"
  shows "\<exists>j. stageable pg now p j d \<and> NewOutbox (last (tbl_outbox v')) = outbox_version pg j"
  using assms
  by (auto simp: SaveEventTx_def sql_insert_outbox_def sql_defs stageable_def outbox_version_def outbox_row_for_def find_outbox_def
      find_None_iff image_iff split: option.splits if_splits)

text \<open>One lemma for each statement that reads or writes rows.\<close>

lemma charge_reads_balance:
  assumes w: "tx_work t = Charge userID amount currency (AwaitBalance snapshot)" and fit: "fits t d" and st: "stmt held d t = Next t'"
  shows "goes_on held d t t'"
proof -
  let ?pg = "tx_pg t"
  from st obtain b where b: "sql_select_balance ?pg snapshot userID = Inr b" "amount \<le> b"
    and free: "\<not> held (UserRow (canon ?pg userID))"
    and same: "find_user (canon ?pg userID) d = find_user (canon ?pg userID) snapshot"
    and t': "t' = t\<lparr>tx_work := Charge userID amount currency (BalanceRead snapshot), tx_locks := insert (UserRow (canon ?pg userID)) (tx_locks t)\<rparr>"
    by (auto simp: stmt_def w charge_stmt_def Let_def split: if_splits sum.splits)
  from sql_select_balance_Inr[OF b(1)] obtain r where "uuid_in ?pg userID = Some (canon ?pg userID)" "fault ?pg S_select_balance = None"
    and r: "find_user (canon ?pg userID) snapshot = Some r" "usr_balance r = b"
    by blast
  moreover have "usr_id r = canon ?pg userID" using find_user_Some[OF r(1)] by simp
  ultimately have "covered ?pg userID amount r d \<and> find_user (usr_id r) snapshot = Some r \<and> tx_locks t' = {UserRow (usr_id r)}"
    using fit w b same by (simp add: covered_def t' fits_def)
  with free fit w \<open>usr_id r = canon ?pg userID\<close> show ?thesis
    by (auto simp: goes_on_def fits_def t')
qed

lemma charge_debits:
  assumes w: "tx_work t = Charge userID amount currency (BalanceRead snapshot)" and fit: "fits t d" and st: "stmt held d t = Next t'"
  shows "goes_on held d t t'"
proof -
  let ?pg = "tx_pg t"
  from fit w obtain r where r: "covered ?pg userID amount r d" "find_user (usr_id r) snapshot = Some r"
    "tx_locks t = {UserRow (usr_id r)}" "tx_writes t = []" by (auto simp: fits_def)
  have u: "canon ?pg userID = usr_id r" using r(1) by (simp add: covered_def canon_def)
  from st obtain v where v: "sql_debit_user ?pg snapshot amount userID = Inr v"
    and t': "t' = t\<lparr>tx_work := Charge userID amount currency Debited, tx_writes := tx_writes t @ new_user_version (usr_id r) v\<rparr>"
    by (auto simp: stmt_def w charge_stmt_def Let_def u split: sum.splits)
  note V = new_user_version_add_balance[OF sql_debit_user_Inr(1)[OF v, unfolded u] r(2)]
  have "debitable ?pg amount r" using V(2) sql_debit_user_Inr(2)[OF v] by (simp add: debitable_def)
  with r V(1) show ?thesis by (auto simp: goes_on_def fits_def t' debit_version_def)
qed

lemma charge_inserts:
  assumes w: "tx_work t = Charge userID amount currency Debited" and fit: "fits t d" and st: "stmt held d t = Next t'"
  shows "goes_on held d t t'"
proof -
  let ?pg = "tx_pg t" and ?pid = "gen_uuid (tx_pg t) S_insert_payment"
  from fit w obtain r where r: "covered ?pg userID amount r d" "debitable ?pg amount r"
    "tx_locks t = {UserRow (usr_id r)}" "tx_writes t = [debit_version amount r]" by (auto simp: fits_def)
  from st obtain row v where ins: "sql_insert_payment ?pg (install (tx_writes t) d) userID amount currency = Inr (row, v)"
    and free: "held (PaymentRow ?pid) \<longrightarrow> find_payment ?pid d \<noteq> None"
    and t': "t' = t\<lparr>tx_work := Charge userID amount currency (Inserted (scan_payment row)),
        tx_locks := insert (PaymentRow ?pid) (tx_locks t), tx_writes := tx_writes t @ [NewPayment row]\<rparr>"
    by (auto simp: stmt_def w charge_stmt_def Let_def split: sum.splits if_splits)
  have "uuid_in ?pg userID = Some (usr_id r)" using r(1) by (simp add: covered_def)
  with ins have "insertable ?pg d \<and> row = new_payment_row ?pg (usr_id r) amount currency"
    by (auto simp: sql_insert_payment_def exec_def uuid_arg_def Let_def insertable_def r(4) debit_version_def simp del: install1.simps
        split: option.splits if_splits)
  with r free show ?thesis by (auto simp: goes_on_def fits_def t' insertable_def)
qed

lemma charge_stages:
  assumes w: "tx_work t = Charge userID amount currency (Inserted p)" and fit: "fits t d" and st: "stmt held d t = Next t'"
  shows "goes_on held d t t'"
proof -
  let ?pg = "tx_pg t" and ?oid = "gen_uuid (tx_pg t) S_insert_outbox"
  from fit w obtain r where r: "covered ?pg userID amount r d" "debitable ?pg amount r" "insertable ?pg d"
    "p = scan_payment (new_payment_row ?pg (usr_id r) amount currency)"
    "tx_locks t = {UserRow (usr_id r), PaymentRow (gen_uuid ?pg S_insert_payment)}"
    "tx_writes t = [debit_version amount r, NewPayment (new_payment_row ?pg (usr_id r) amount currency)]" by (auto simp: fits_def)
  from st obtain v where v: "SaveEventTx ?pg (install (tx_writes t) d) ''payment'' (p_ID p) ''payment.succeeded''
      (webhookPayload p (tx_clock t)) = Inr v"
    and free: "held (OutboxRow ?oid) \<longrightarrow> find_outbox ?oid d \<noteq> None"
    and t': "t' = t\<lparr>tx_work := Charge userID amount currency (Staged p),
        tx_locks := insert (OutboxRow ?oid) (tx_locks t), tx_writes := tx_writes t @ [NewOutbox (last (tbl_outbox v))]\<rparr>"
    by (auto simp: stmt_def w charge_stmt_def Let_def split: sum.splits if_splits)
  from outbox_version_SaveEventTx[OF v] obtain j where "stageable ?pg (tx_clock t) p j d" "NewOutbox (last (tbl_outbox v)) = outbox_version ?pg j"
    by (auto simp: r(4,6) scan_payment_def debit_version_def)
  with r free show ?thesis by (fastforce simp: goes_on_def fits_def t' stageable_def)
qed

lemma charge_goes_on:
  assumes w: "tx_work t = Charge userID amount currency ph" and fit: "fits t d" and st: "stmt held d t = Next t'"
  shows "goes_on held d t t'"
proof (cases ph)
  case ChargeReceived
  with assms show ?thesis
    by (auto simp: stmt_def charge_stmt_def goes_on_def fits_def BeginTx_def db_BeginTx_def exec_def Let_def split: if_splits option.splits)
next
  case ChargeBegun
  with assms show ?thesis by (auto simp: stmt_def charge_stmt_def goes_on_def fits_def Let_def)
next
  case (Staged p)
  with assms show ?thesis by (simp add: stmt_def charge_stmt_def Let_def)
qed (use w in \<open>auto intro: charge_reads_balance[OF _ fit st] charge_debits[OF _ fit st] charge_inserts[OF _ fit st] charge_stages[OF _ fit st]\<close>)

text \<open>A refund relies on the foreign key of its payment: the user it credits is there.\<close>

lemma refund_chooses:
  assumes w: "tx_work t = Refund paymentID RefundBegun" and fit: "fits t d" and st: "stmt held d t = Next t'"
  shows "goes_on held d t t'"
proof -
  let ?pg = "tx_pg t" and ?i = "canon (tx_pg t) paymentID"
  from st obtain p where sel: "sql_select_payment ?pg d paymentID = Inr p" "refundable (pay_status p)"
    and free: "held (PaymentRow ?i) \<longrightarrow> find_payment ?i d = None"
    and t': "t' = t\<lparr>tx_work := Refund paymentID (Chosen p), tx_locks := insert (PaymentRow ?i) (tx_locks t)\<rparr>"
    by (auto simp: stmt_def w refund_stmt_def Let_def split: if_splits sum.splits)
  from sel(1) have p: "find_payment ?i d = Some p" "uuid_in ?pg paymentID = Some ?i" "fault ?pg S_select_payment = None"
    by (auto simp: sql_select_payment_def exec_def uuid_arg_def canon_def split: option.splits)
  with find_payment_Some[OF p(1)] sel fit w free show ?thesis
    by (auto simp: goes_on_def fits_def t' chosen_def)
qed

lemma refund_credits:
  assumes w: "tx_work t = Refund paymentID (Chosen p)" and fit: "fits t d" and st: "stmt held d t = Next t'"
    and ok: "ledger_ok (tx_pg t) d"
  shows "goes_on held d t t'"
proof -
  let ?pg = "tx_pg t" and ?u = "canon (tx_pg t) (pay_user_id p)"
  from fit w have p: "chosen ?pg paymentID p d" "tx_locks t = {PaymentRow (pay_id p)}" "tx_writes t = []" by (auto simp: fits_def)
  from st obtain v where v: "sql_credit_user ?pg d (pay_amount p) (pay_user_id p) = Inr v"
    and free: "\<not> held (UserRow ?u)"
    and t': "t' = t\<lparr>tx_work := Refund paymentID (Credited p), tx_locks := insert (UserRow ?u) (tx_locks t),
        tx_writes := tx_writes t @ new_user_version ?u v\<rparr>"
    by (auto simp: stmt_def w refund_stmt_def Let_def split: if_splits sum.splits)
  have row: "p \<in> set (tbl_payments d)" using p(1) find_payment_Some by (auto simp: chosen_def)
  with ok have "uuid_in ?pg (pay_user_id p) = Some (pay_user_id p)" "pay_user_id p \<in> usr_id ` set (tbl_users d)"
    by (auto simp: ledger_ok_def db_ok_def)
  then obtain r where r: "find_user ?u d = Some r" by (cases "find_user ?u d") (auto simp: canon_def find_user_None)
  have id: "usr_id r = ?u" using find_user_Some[OF r] by simp
  note V = new_user_version_add_balance[OF sql_credit_user_Inr(1)[OF v] r]
  have "creditable ?pg p r d"
    using V(2) sql_credit_user_Inr(2,3)[OF v] r by (simp add: creditable_def id)
  with p V(1) free show ?thesis
    by (auto simp: goes_on_def fits_def t' credit_version_def id[symmetric])
qed

lemma refund_marks:
  assumes w: "tx_work t = Refund paymentID (Credited p)" and fit: "fits t d" and st: "stmt held d t = Next t'"
  shows "goes_on held d t t'"
proof -
  let ?pg = "tx_pg t"
  from fit w obtain r where r: "chosen ?pg paymentID p d" "creditable ?pg p r d" "tx_locks t = {PaymentRow (pay_id p), UserRow (usr_id r)}"
    "tx_writes t = [credit_version p r]" by (auto simp: fits_def)
  from st obtain row v where m: "sql_mark_refunded ?pg (install (tx_writes t) d) paymentID = Inr (row, v)"
    and t': "t' = t\<lparr>tx_work := Refund paymentID (Marked p row), tx_writes := tx_writes t @ [PutPayment row]\<rparr>"
    by (auto simp: stmt_def w refund_stmt_def Let_def split: sum.splits)
  have "row = refunded_row ?pg p \<and> fault ?pg S_mark_refunded = None"
    using m r(1) by (auto simp: sql_mark_refunded_def exec_def uuid_arg_def Let_def r(4) credit_version_def chosen_def find_payment_set_status
        refunded_row_def simp del: install1.simps split: option.splits)
  with r show ?thesis by (auto simp: goes_on_def fits_def t')
qed

lemma refund_goes_on:
  assumes w: "tx_work t = Refund paymentID ph" and fit: "fits t d" and st: "stmt held d t = Next t'"
    and ok: "ledger_ok (tx_pg t) d"
  shows "goes_on held d t t'"
proof (cases ph)
  case RefundReceived
  with assms show ?thesis
    by (auto simp: stmt_def refund_stmt_def goes_on_def fits_def db_BeginTx_def exec_def Let_def split: if_splits option.splits)
next
  case (Marked p row)
  with assms show ?thesis by (simp add: stmt_def refund_stmt_def Let_def)
qed (use w in \<open>auto intro: refund_chooses[OF _ fit st] refund_credits[OF _ fit st ok] refund_marks[OF _ fit st]\<close>)

subsection \<open>Polls\<close>

lemma filter_prefix_keys:
  assumes "distinct (map k xs)"
  shows "filter (\<lambda>x. k x \<in> k ` set (take n xs)) xs = take n xs"
proof -
  have "distinct (map k (take n xs @ drop n xs))" using assms by simp
  then have "k ` set (take n xs) \<inter> k ` set (drop n xs) = {}" by (simp only: map_append distinct_append) auto
  then have "filter (\<lambda>x. k x \<in> k ` set (take n xs)) (drop n xs) = []" by (auto simp: filter_empty_conv)
  moreover have "filter (\<lambda>x. k x \<in> k ` set (take n xs)) (take n xs) = take n xs" by (simp add: filter_id_conv)
  ultimately show ?thesis by (metis append_Nil2 append_take_drop_id filter_append)
qed

lemma selected_again:
  assumes dist: "distinct (map ob_id (tbl_outbox d))" and L: "L = OutboxRow ` ob_id ` set (selected locked d)"
  shows "selected (\<lambda>i. OutboxRow i \<notin> L) d = selected locked d"
proof -
  let ?Q = "\<lambda>r. ob_status r = ''PENDING'' \<and> \<not> locked (ob_id r)"
  let ?S = "sort_key ob_created_at (filter ?Q (tbl_outbox d))"
  let ?in = "\<lambda>r. ob_id r \<in> ob_id ` set (take 10 ?S)"
  have sel: "selected locked d = take 10 ?S" by (simp only: selected_def)
  have in_L: "OutboxRow (ob_id r) \<in> L \<longleftrightarrow> ?in r" for r by (auto simp: L sel)
  have "?Q r" if r: "r \<in> set (tbl_outbox d)" and "?in r" for r
  proof -
    from that(2) obtain x where x: "x \<in> set (take 10 ?S)" "ob_id x = ob_id r" by auto
    then have "x \<in> set (tbl_outbox d)" "?Q x" by (auto dest!: in_set_takeD)
    with x(2) r dist have "x = r" by (auto simp: distinct_map inj_on_def)
    with \<open>?Q x\<close> show ?thesis by simp
  qed
  then have "filter (\<lambda>r. ob_status r = ''PENDING'' \<and> ?in r) (tbl_outbox d) = filter ?in (filter ?Q (tbl_outbox d))"
    unfolding filter_filter by (intro filter_cong) blast+
  moreover have "filter ?in ?S = take 10 ?S"
    using dist by (intro filter_prefix_keys) (auto simp: distinct_map inj_on_def)
  ultimately have "take 10 (sort_key ob_created_at (filter (\<lambda>r. ob_status r = ''PENDING'' \<and> ?in r) (tbl_outbox d))) = take 10 (take 10 ?S)"
    by (simp only: filter_sort)
  then show ?thesis unfolding selected_def not_not in_L by simp
qed

lemma poll_starts_batch:
  assumes ok: "outbox_ok pg d" and rows: "sql_select_pending pg locked d = Inr rows"
    and evs: "evs = map scan_event (filter (\<lambda>r. \<not> bad (ob_id r)) (fetched pg S_select_pending rows))" "evs \<noteq> []"
    and begun: "fault pg S_begin = None"
  shows "batch_fits pg bad now evs [] (OutboxRow ` ob_id ` set rows) [] d"
proof -
  let ?L = "OutboxRow ` ob_id ` set rows"
  have sel: "rows = selected locked d" "fault pg S_select_pending = None"
    using rows by (auto simp: sql_select_pending_eq exec_def split: option.splits)
  have again: "selected (\<lambda>i. OutboxRow i \<notin> ?L) d = rows"
    using ok selected_again[of d ?L locked] by (simp add: sel(1) outbox_ok_def)
  show ?thesis
    unfolding batch_fits_def events_of_def again using sel(2) begun evs by simp
qed

lemma batch_ids:
  assumes "outbox_ok pg d" and b: "batch_fits pg bad now evs handled L ws d"
  shows "distinct (map (ob_id \<circ> fst) handled @ map fe_ID evs)"
    and "ev \<in> set evs \<Longrightarrow> \<exists>r. r \<in> set (tbl_outbox d) \<and> ob_status r = ''PENDING'' \<and> scan_event r = ev"
proof -
  have "batch_of (map (scan_event \<circ> fst) handled @ evs) d"
    unfolding batch_fitsD(4)[OF b] events_of_def by (rule selected_batch[OF assms(1)])
  then show "distinct (map (ob_id \<circ> fst) handled @ map fe_ID evs)"
    and "ev \<in> set evs \<Longrightarrow> \<exists>r. r \<in> set (tbl_outbox d) \<and> ob_status r = ''PENDING'' \<and> scan_event r = ev"
    by (auto simp: batch_of_def comp_def)
qed

lemma batch_update:
  fixes err :: "goerr option"
  assumes ok: "outbox_ok pg d" and b: "batch_fits pg bad now (ev # evs) handled L ws d"
    and up: "sql_update_outbox pg (install ws d) (if err = None then ''PROCESSED'' else ''FAILED'')
        (if err = None then Some (now (fe_ID ev)) else None) (fe_ID ev) = Inr v"
  shows "\<exists>handled'. batch_fits pg bad now evs handled' L (ws @ new_outbox_version (canon pg (fe_ID ev)) v) d"
    and "\<exists>r. new_outbox_version (canon pg (fe_ID ev)) v = [PutOutbox r] \<and> ob_id r = fe_ID ev"
proof -
  obtain r where r: "r \<in> set (tbl_outbox d)" "scan_event r = ev" using batch_ids(2)[OF ok b, of ev] by auto
  have id: "fe_ID ev = ob_id r" using r(2) by auto
  have canon: "uuid_in pg (ob_id r) = Some (ob_id r)" "canon pg (ob_id r) = ob_id r"
    using ok r(1) by (auto simp: outbox_ok_def canon_def)
  have "ob_id (fst ro) \<noteq> ob_id r" if "ro \<in> set handled" for ro
    using batch_ids(1)[OF ok b] that id by (force simp: image_iff)
  then have "agree {OutboxRow (ob_id r)} d (install ws d)"
    by (intro install_agree) (auto simp: batch_fitsD(7)[OF b] settle_def)
  then have "find_outbox (ob_id r) (install ws d) = find_outbox (ob_id r) d" by (rule agree_outbox(1)) simp
  also have "\<dots> = Some r" using ok r(1) by (simp add: find_outbox_def outbox_ok_def find_key_unique)
  finally have found: "find_outbox (ob_id r) (install ws d) = Some r" .
  let ?r' = "settle pg now (r, err)"
  note v = sql_update_outbox_Inr[OF up, unfolded id, OF canon(1)]
  have "find_outbox (ob_id r) v = Some ?r'"
    using found unfolding v by (simp add: find_outbox_def find_update_where_same settle_def)
  then have new: "new_outbox_version (canon pg (fe_ID ev)) v = [PutOutbox ?r']"
    by (simp add: id canon(2) new_outbox_version_def)
  have "fault pg (S_update_outbox (ob_id r)) = None"
    using up by (auto simp: id sql_update_outbox_def exec_def split: option.splits)
  then have "batch_fits pg bad now evs (handled @ [(r, err)]) L (ws @ [PutOutbox ?r']) d"
    unfolding batch_fits_def
  proof (intro conjI)
    show "L = OutboxRow ` ob_id ` set (selected (\<lambda>i. OutboxRow i \<notin> L) d)" by (rule batch_fitsD(3)[OF b])
  qed (use batch_fitsD(1,2)[OF b] batch_fitsD(4,8)[OF b] batch_fitsD(5,6)[OF b] r in \<open>auto simp: batch_fitsD(7)[OF b]\<close>)
  then show "\<exists>handled'. batch_fits pg bad now evs handled' L (ws @ new_outbox_version (canon pg (fe_ID ev)) v) d"
    unfolding new by blast
  show "\<exists>r. new_outbox_version (canon pg (fe_ID ev)) v = [PutOutbox r] \<and> ob_id r = fe_ID ev"
    using new by (simp add: id settle_def)
qed

lemma poll_goes_on:
  assumes w: "tx_work t = Poll bad now ph" and fit: "fits t d" and "stmt held d t = Next t'"
    and ok: "outbox_ok (tx_pg t) d"
  shows "goes_on held d t t'"
proof -
  let ?pg = "tx_pg t"
  have st: "poll_stmt held d t bad now ph = Next t'" using assms by (simp add: stmt_def)
  have pf: "poll_fits ?pg bad now ph (tx_locks t) (tx_writes t) d" using fit w by (simp add: fits_def)
  show ?thesis
  proof (cases ph)
    case PollReceived
    with st pf show ?thesis
      by (auto simp: poll_stmt_def goes_on_def fits_def db_BeginTx_def exec_def split: option.splits)
  next
    case PollBegun
    with st obtain rows where rows: "sql_select_pending ?pg (\<lambda>i. held (OutboxRow i)) d = Inr rows"
      and some: "map scan_event (filter (\<lambda>r. \<not> bad (ob_id r)) (fetched ?pg S_select_pending rows)) \<noteq> []"
      and t': "t' = t\<lparr>tx_work := Poll bad now (Dispatching (map scan_event (filter (\<lambda>r. \<not> bad (ob_id r)) (fetched ?pg S_select_pending rows)))),
          tx_locks := tx_locks t \<union> set (map (OutboxRow \<circ> ob_id) rows)\<rparr>"
      by (auto simp: poll_stmt_def Let_def split: sum.splits if_splits)
    have locks: "tx_locks t' = OutboxRow ` ob_id ` set rows" "tx_writes t' = []" using pf PollBegun by (auto simp: t')
    have "\<forall>k \<in> tx_locks t'. \<not> held k"
      using rows unfolding locks by (auto simp: sql_select_pending_def exec_def dest!: in_set_takeD split: option.splits)
    moreover have "fits t' d"
      using poll_starts_batch[OF ok rows refl some, of now] pf PollBegun locks by (auto simp: fits_def t')
    ultimately show ?thesis by (auto simp: goes_on_def t')
  next
    case (Dispatching evs)
    with st show ?thesis by (cases evs) (simp_all add: poll_stmt_def)
  next
    case (Enqueued err ev evs)
    with pf obtain handled where b: "batch_fits ?pg bad now (ev # evs) handled (tx_locks t) (tx_writes t) d" by auto
    from st Enqueued obtain v where up: "sql_update_outbox ?pg (install (tx_writes t) d) (if err = None then ''PROCESSED'' else ''FAILED'')
        (if err = None then Some (now (fe_ID ev)) else None) (fe_ID ev) = Inr v"
      and t': "t' = t\<lparr>tx_work := Poll bad now (Dispatching evs), tx_writes := tx_writes t @ new_outbox_version (canon ?pg (fe_ID ev)) v\<rparr>"
      by (auto simp: poll_stmt_def Let_def split: sum.splits)
    from batch_update(1)[OF ok b up] show ?thesis by (auto simp: goes_on_def fits_def t')
  qed
qed

lemma replied_goes_on:
  assumes "fits t d" and "stmt held d t = Send ev"
  shows "goes_on held d t (replied err t)"
  using assms
  by (auto simp: stmt_def charge_stmt_def refund_stmt_def poll_stmt_def replied_def goes_on_def fits_def Let_def
      split: work.splits poll_phase.splits list.splits charge_phase.splits refund_phase.splits sum.splits if_splits prod.splits)

section \<open>A commit is a complete serial run\<close>

lemma charge_commit:
  assumes w: "tx_work t = Charge userID amount currency ph" and fit: "fits t d" and st: "stmt held d t = Commit"
    and dist: "distinct (map usr_id (tbl_users d))"
    and com: "tx_Commit (tx_pg t) (install (tx_writes t) d) d = (d', e)"
  shows "\<exists>res. commit_answer t e = Some res \<and> ChargeOn (tx_pg t) (tx_clock t) d userID amount currency = (d', res)"
proof -
  let ?pg = "tx_pg t"
  obtain p where ph: "ph = Staged p"
    using st w by (cases ph) (auto simp: stmt_def charge_stmt_def Let_def split: if_splits sum.splits)
  from fit w ph obtain r j where c: "covered ?pg userID amount r d" "debitable ?pg amount r" "insertable ?pg d"
    "stageable ?pg (tx_clock t) p j d" and p: "p = scan_payment (new_payment_row ?pg (usr_id r) amount currency)"
    and ws: "tx_writes t = [debit_version amount r, NewPayment (new_payment_row ?pg (usr_id r) amount currency), outbox_version ?pg j]"
    by (auto simp: fits_def)
  have u: "uuid_in ?pg userID = Some (usr_id r)" "find_user (usr_id r) d = Some r" using c(1) by (simp_all add: covered_def)
  let ?v1 = "install1 (debit_version amount r) d"
  let ?v2 = "install1 (NewPayment (new_payment_row ?pg (usr_id r) amount currency)) ?v1"
  have "add_balance (- amount) (usr_id r) d = Inr ?v1"
    using add_balance_put[OF dist u(2), of "- amount"] c(2) by (simp add: debitable_def debit_version_def)
  then have debit: "sql_debit_user ?pg d amount userID = Inr ?v1"
    using c(2) u(1) by (simp add: sql_debit_user_def exec_def uuid_arg_def debitable_def)
  have "find_user (usr_id r) ?v1 \<noteq> None" "find_payment i ?v1 = find_payment i d" for i
    using u(2) by (simp_all add: debit_version_def del: install1.simps)
  then have create: "CreateTransactionRecordTx ?pg d userID amount currency = Inr (p, ?v2)"
    using c(1,3) u debit
    by (auto simp: CreateTransactionRecordTx_def sql_select_balance_def sql_insert_payment_def exec_def uuid_arg_def covered_def
        insertable_def Let_def p)
  have save: "SaveEventTx ?pg ?v2 ''payment'' (p_ID p) ''payment.succeeded'' (webhookPayload p (tx_clock t)) = Inr (install (tx_writes t) d)"
    using c(4) by (auto simp: SaveEventTx_def sql_insert_outbox_def exec_def jsonb_arg_def stageable_def ws outbox_version_def outbox_row_for_def
        find_outbox_def find_None_iff p scan_payment_def debit_version_def)
  have "BeginTx ?pg d = Inr d" "0 < amount" using c(1) by (simp_all add: BeginTx_def db_BeginTx_def exec_def covered_def)
  with create save com show ?thesis
    by (auto simp: w ph commit_answer_def ProcessCharge_def sql_service_def NewPaymentService_def NewPaymentRepository_def NewOutboxRepository_def
        split: option.splits)
qed

lemma refund_commit:
  assumes w: "tx_work t = Refund paymentID ph" and fit: "fits t d" and st: "stmt held d t = Commit"
    and ok: "db_ok d" and com: "tx_Commit (tx_pg t) (install (tx_writes t) d) d = (d', e)"
  shows "\<exists>res. commit_answer t e = Some res \<and> RefundOn (tx_pg t) d paymentID = (d', res)"
proof -
  let ?pg = "tx_pg t"
  obtain p row where ph: "ph = Marked p row"
    using st w by (cases ph) (auto simp: stmt_def refund_stmt_def Let_def split: if_splits sum.splits)
  from fit w ph obtain r where c: "chosen ?pg paymentID p d" "creditable ?pg p r d" "fault ?pg S_mark_refunded = None" "row = refunded_row ?pg p"
    and ws: "tx_writes t = [credit_version p r, PutPayment row]"
    by (auto simp: fits_def)
  let ?v = "install1 (credit_version p r) d"
  have dist: "distinct (map usr_id (tbl_users d))" "distinct (map pay_id (tbl_payments d))" using ok by (simp_all add: db_ok_def)
  have i: "uuid_in ?pg paymentID = Some (pay_id p)" "find_payment (pay_id p) d = Some p" using c(1) by (simp_all add: chosen_def)
  have "find_user (usr_id r) d = Some r" using c(2) by (simp add: creditable_def)
  from add_balance_put[OF dist(1) this, of "pay_amount p"] c(2)
  have credit: "sql_credit_user ?pg d (pay_amount p) (pay_user_id p) = Inr ?v"
    by (simp add: sql_credit_user_def exec_def uuid_arg_def creditable_def credit_version_def)
  have v: "find_payment (pay_id p) ?v = Some p" "distinct (map pay_id (tbl_payments ?v))"
    using i(2) dist(2) by (simp_all add: credit_version_def find_payment_def)
  have "set_status ''refunded'' (tx_now ?pg) (pay_id p) ?v = install (tx_writes t) d"
    using set_status_put[OF v(2,1)] by (simp add: ws c(4) refunded_row_def del: install1.simps)
  then have mark: "sql_mark_refunded ?pg ?v paymentID = Inr (row, install (tx_writes t) d)"
    using c(3,4) i(1) v(1) find_payment_set_status[of "pay_id p" "''refunded''" "tx_now ?pg" "pay_id p" ?v]
    by (simp add: sql_mark_refunded_def exec_def uuid_arg_def refunded_row_def Let_def del: install1.simps)
  have sel: "db_BeginTx ?pg d = Inr d" "sql_select_payment ?pg d paymentID = Inr p" "paymentID \<noteq> ''''" "refundable (pay_status p)"
    using c(1) i by (simp_all add: db_BeginTx_def sql_select_payment_def exec_def uuid_arg_def chosen_def)
  with credit mark com show ?thesis
    by (auto simp: w ph commit_answer_def ProcessRefund_def sql_service_def NewPaymentService_def NewPaymentRepository_def
        RefundTransactionRecord_def simp del: install1.simps split: option.splits)
qed

lemma dispatch_handled:
  assumes "outbox_ok pg tx" and "distinct (map (ob_id \<circ> fst) handled)" and "set (map fst handled) \<subseteq> set (tbl_outbox tx)"
    and "\<forall>ro \<in> set handled. fault pg (S_update_outbox (ob_id (fst ro))) = None"
  shows "\<exists>q. dispatch pg scripted_enqueue now (map (scan_event \<circ> fst) handled) (ts, map snd handled) tx
     = (q, Some (install (map (PutOutbox \<circ> settle pg now) handled) tx))"
  using assms
proof (induction handled arbitrary: ts tx)
  case (Cons ro handled)
  obtain r err where ro: "ro = (r, err)" by fastforce
  have row: "r \<in> set (tbl_outbox tx)" and rest: "set (map fst handled) \<subseteq> set (tbl_outbox tx)" using Cons.prems(3) by (auto simp: ro)
  have ids: "uuid_in pg (ob_id r) = Some (ob_id r)" and dist: "distinct (map ob_id (tbl_outbox tx))"
    using Cons.prems(1) row by (auto simp: outbox_ok_def)
  let ?tx = "install1 (PutOutbox (settle pg now ro)) tx"
  let ?f = "\<lambda>x. x\<lparr>ob_status := (if err = None then ''PROCESSED'' else ''FAILED''), ob_processed_at := (if err = None then Some (ts_in pg (now (ob_id r))) else None)\<rparr>"
  have "update_where (\<lambda>x. ob_id x = ob_id r) ?f (tbl_outbox tx) = update_where (\<lambda>x. ob_id x = ob_id r) (\<lambda>_. ?f r) (tbl_outbox tx)"
    by (rule update_where_put[OF dist find_key_unique[OF dist row]])
  then have up: "sql_update_outbox pg tx (if err = None then ''PROCESSED'' else ''FAILED'')
      (if err = None then Some (now (ob_id r)) else None) (ob_id r) = Inr ?tx"
    using Cons.prems(4) ids by (cases err) (simp_all add: ro sql_update_outbox_def exec_def uuid_arg_def settle_def)
  have other: "ob_id (fst x) \<noteq> ob_id r" if "x \<in> set handled" for x
    using Cons.prems(2) that by (force simp: ro)
  have ok: "outbox_ok pg ?tx"
    using Cons.prems(1) ids by (auto simp: outbox_ok_def set_update_where map_update_where_frame ro settle_def)
  have "set (map fst handled) \<subseteq> set (tbl_outbox ?tx)"
    using rest other by (auto simp: set_update_where ro settle_def image_iff)
  then have IH: "\<exists>q. dispatch pg scripted_enqueue now (map (scan_event \<circ> fst) handled) (ts', map snd handled) ?tx
      = (q, Some (install (map (PutOutbox \<circ> settle pg now) handled) ?tx))" for ts'
    by (intro Cons.IH[OF ok]) (use Cons.prems in auto)
  obtain ts' where "scripted_enqueue (TypeWebhookRetryEvent, ob_payload r) (ts, err # map snd handled) = ((ts', map snd handled), err)"
    using scripted_enqueue_Cons by blast
  with IH[of ts'] up show ?case by (cases err) (simp_all add: ro comp_def del: install1.simps)
qed simp

lemma poll_commit:
  assumes w: "tx_work t = Poll bad now ph" and fit: "fits t d" and st: "stmt held d t = Commit" and ok: "outbox_ok (tx_pg t) d"
    and com: "tx_Commit (tx_pg t) (install (tx_writes t) d) d = (d', e)"
  shows "\<exists>locked outs q'. ProcessPendingEvents (tx_pg t) scripted_enqueue locked bad now d ([], outs) = (d', q')"
proof -
  let ?pg = "tx_pg t" and ?locked = "\<lambda>i. OutboxRow i \<notin> tx_locks t"
  have ph: "ph = Dispatching []"
    using st w by (auto simp: stmt_def poll_stmt_def Let_def split: poll_phase.splits list.splits sum.splits if_splits)
  with fit w obtain handled where b: "batch_fits ?pg bad now [] handled (tx_locks t) (tx_writes t) d" by (auto simp: fits_def)
  from dispatch_handled[OF ok _ batch_fitsD(5)[OF b], of now "[]"] batch_ids(1)[OF ok b] batch_fitsD(6)[OF b]
  obtain q where "dispatch ?pg scripted_enqueue now (map (scan_event \<circ> fst) handled) ([], map snd handled) d = (q, Some (install (tx_writes t) d))"
    by (auto simp: batch_fitsD(7)[OF b])
  moreover have "map (scan_event \<circ> fst) handled = events_of ?pg ?locked bad d" "events_of ?pg ?locked bad d \<noteq> []"
    using batch_fitsD(4,8)[OF b] by simp_all
  ultimately have "ProcessPendingEvents ?pg scripted_enqueue ?locked bad now d ([], map snd handled) = (d', q)"
    using batch_fitsD(1,2)[OF b] com by (simp add: ProcessPendingEvents_eq)
  then show ?thesis by blast
qed

end
