(* ===== verification/Concurrency.thy ===== *)
theory Concurrency
  imports Fitting
begin

text \<open>
  Any number of charges, refunds and polls at once, interleaved statement by statement
  (\<open>Statements\<close>), while users and keys are added. The theorems: every commit is one step of the
  serial system of \<open>Ledger\<close> on the database it finds, with the answer of the serial run, so that what is
  proved there holds under concurrency; the transactions never block each other for good; and pollers
  that run side by side queue an event only once.
\<close>

section \<open>The concurrent system\<close>

text \<open>
  The committed database, the live transactions by connection, every task that reached the queue with
  the event it was made from, and whether a poll was cut off: that it ended without its commit after it
  had selected a batch.
\<close>

record csys =
  committed :: db
  live :: "nat \<Rightarrow> txn option"
  sent :: "(string \<times> task) list"
  cut :: bool

definition idle :: csys where
  "idle = \<lparr>committed = empty_db, live = Map.empty, sent = [], cut = False\<rparr>"

definition held :: "csys \<Rightarrow> nat \<Rightarrow> row_lock \<Rightarrow> bool" where
  "held s n k = held_by_others tx_locks (live s) n k"

fun received :: "work \<Rightarrow> bool" where
  "received (Charge userID amount currency ph) = (ph = ChargeReceived)"
| "received (Refund paymentID ph) = (ph = RefundReceived)"
| "received (Poll bad now ph) = (ph = PollReceived)"

fun dispatching :: "work \<Rightarrow> bool" where
  "dispatching (Poll bad now (Dispatching evs)) = True"
| "dispatching (Poll bad now (Enqueued err ev evs)) = True"
| "dispatching _ = False"

text \<open>Statements that are their own transactions: new users and new keys.\<close>

inductive background :: "(string \<Rightarrow> string option) \<Rightarrow> db \<Rightarrow> db \<Rightarrow> bool" for uin where
  bg_user: "engine_for uin pg \<Longrightarrow> 0 \<le> b \<Longrightarrow> CreateUser pg d email b = (d', ures) \<Longrightarrow> background uin d d'"
| bg_key: "engine_for uin pg \<Longrightarrow> GenerateAPIKey rand bcrypt pg d userID label = (d', kres) \<Longrightarrow> background uin d d'"

text \<open>
  The steps: a request or a tick arrives; a statement runs; a task is put in the queue, and the error
  reply may be about a task that is in it all the same; a function returns; a transaction commits, with
  any outcome; it is rolled back by the server, for a deadlock, a serialization failure, a timeout or
  a lost connection; a background statement runs.
\<close>

inductive conc_step :: "(string \<Rightarrow> string option) \<Rightarrow> csys \<Rightarrow> csys \<Rightarrow> bool" for uin where
  c_begin: "live s n = None \<Longrightarrow> engine_for uin pg \<Longrightarrow> received w \<Longrightarrow>
    conc_step uin s (s\<lparr>live := (live s)(n \<mapsto> new_txn pg now w)\<rparr>)"
| c_next: "live s n = Some t \<Longrightarrow> stmt (held s n) (committed s) t = Next t' \<Longrightarrow>
    conc_step uin s (s\<lparr>live := (live s)(n \<mapsto> t')\<rparr>)"
| c_send: "live s n = Some t \<Longrightarrow> stmt (held s n) (committed s) t = Send ev \<Longrightarrow>
    q = sent s @ [(fe_ID ev, (TypeWebhookRetryEvent, fe_Payload ev))] \<or> (err \<noteq> None \<and> q = sent s) \<Longrightarrow>
    conc_step uin s (s\<lparr>live := (live s)(n \<mapsto> replied err t), sent := q\<rparr>)"
| c_return: "live s n = Some t \<Longrightarrow> stmt (held s n) (committed s) t = Answer res \<or> stmt (held s n) (committed s) t = Quit \<Longrightarrow>
    conc_step uin s (s\<lparr>live := (live s)(n := None), cut := cut s \<or> dispatching (tx_work t)\<rparr>)"
| c_commit: "live s n = Some t \<Longrightarrow> stmt (held s n) (committed s) t = Commit \<Longrightarrow>
    tx_Commit (tx_pg t) (install (tx_writes t) (committed s)) (committed s) = (d', e) \<Longrightarrow>
    conc_step uin s (s\<lparr>committed := d', live := (live s)(n := None),
      cut := cut s \<or> (dispatching (tx_work t) \<and> (\<exists>x. commit_out (tx_pg t) = CommitRefused x))\<rparr>)"
| c_abort: "live s n = Some t \<Longrightarrow>
    conc_step uin s (s\<lparr>live := (live s)(n := None), cut := cut s \<or> dispatching (tx_work t)\<rparr>)"
| c_background: "background uin (committed s) d' \<Longrightarrow> conc_step uin s (s\<lparr>committed := d'\<rparr>)"

inductive_cases conc_stepE: "conc_step uin s s'"

definition conc_inv :: "(string \<Rightarrow> string option) \<Rightarrow> csys \<Rightarrow> bool" where
  "conc_inv uin s \<longleftrightarrow> ledger_inv uin (committed s) \<and> consistent tx_locks fits (committed s) (live s)
     \<and> (\<forall>n t. live s n = Some t \<longrightarrow> engine_for uin (tx_pg t))"

lemma conc_invD:
  assumes "conc_inv uin s" and "live s n = Some t"
  shows "fits t (committed s)" and "ledger_ok (tx_pg t) (committed s)" and "outbox_ok (tx_pg t) (committed s)"
    and "engine_for uin (tx_pg t)" and "db_ok (committed s)"
    and "consistent tx_locks fits (committed s) (live s)" and "ledger_inv uin (committed s)"
proof -
  show inv: "ledger_inv uin (committed s)" and e: "engine_for uin (tx_pg t)"
    and c: "consistent tx_locks fits (committed s) (live s)"
    using assms by (auto simp: conc_inv_def)
  show "fits t (committed s)" by (rule consistentD(1)[OF c assms(2)])
  show "ledger_ok (tx_pg t) (committed s)" "outbox_ok (tx_pg t) (committed s)" using ledger_inv_ok[OF inv e] by auto
  show "db_ok (committed s)" using inv by (simp add: ledger_inv_def)
qed

lemma stmt_goes_on:
  assumes "conc_inv uin s" and t: "live s n = Some t" and "stmt h (committed s) t = Next t'"
  shows "goes_on h (committed s) t t'"
  using assms(3) charge_goes_on[OF _ conc_invD(1)[OF assms(1) t]] refund_goes_on[OF _ conc_invD(1)[OF assms(1) t] _ conc_invD(2)[OF assms(1) t]]
    poll_goes_on[OF _ conc_invD(1)[OF assms(1) t] _ conc_invD(3)[OF assms(1) t]]
  by (cases "tx_work t") blast+

lemma goes_on_inv:
  assumes inv: "conc_inv uin s" and t: "live s n = Some t" and g: "goes_on (held s n) (committed s) t t'"
  shows "conc_inv uin (s\<lparr>live := (live s)(n \<mapsto> t')\<rparr>)"
proof -
  have "consistent tx_locks fits (committed s) ((live s)(n \<mapsto> t'))"
    using g by (intro payments_2pl.advances[OF conc_invD(6)[OF inv t] t]) (auto simp: goes_on_def held_def)
  then show ?thesis using inv t g by (auto simp: conc_inv_def goes_on_def)
qed

lemma conc_inv_queue [simp]: "conc_inv uin (s\<lparr>sent := q\<rparr>) = conc_inv uin s" "conc_inv uin (s\<lparr>cut := b\<rparr>) = conc_inv uin s"
  by (simp_all add: conc_inv_def)

lemma ended_inv:
  assumes "conc_inv uin s"
  shows "conc_inv uin (s\<lparr>live := (live s)(n := None)\<rparr>)"
  using assms payments_2pl.ends[of "committed s" "live s" n] by (auto simp: conc_inv_def split: if_splits)

text \<open>The commits, as steps of the serial system.\<close>

lemma commit_step:
  assumes inv: "conc_inv uin s" and t: "live s n = Some t" and st: "stmt h (committed s) t = Commit"
    and com: "tx_Commit (tx_pg t) (install (tx_writes t) (committed s)) (committed s) = (d', e)"
  shows "ledger_step uin (committed s) d'"
proof -
  note I = conc_invD[OF inv t]
  have dist: "distinct (map usr_id (tbl_users (committed s)))" using I(5) by (simp add: db_ok_def)
  show ?thesis
  proof (cases "tx_work t")
    case Charge
    with charge_commit[OF Charge I(1) st dist com] step_charge[OF I(4)] show ?thesis by blast
  next
    case Refund
    with refund_commit[OF Refund I(1) st I(5) com] step_refund[OF I(4)] show ?thesis by blast
  next
    case Poll
    with poll_commit[OF Poll I(1) st I(3) com] step_poll[OF I(4)] show ?thesis by blast
  qed
qed

lemma background_step:
  assumes "background uin d d'"
  shows "ledger_step uin d d'"
  using assms by cases (auto intro: step_user step_key)

lemma background_agree:
  assumes bg: "background uin d d'" and fit: "fits t d"
  shows "fits t d'"
proof -
  have user: "find_user u d \<noteq> None" if "UserRow u \<in> tx_locks t" for u
  proof (cases "tx_work t")
    case (Charge userID amount currency ph)
    with fit that show ?thesis by (cases ph) (auto simp: fits_def covered_def)
  next
    case (Refund paymentID ph)
    with fit that show ?thesis by (cases ph) (auto simp: fits_def creditable_def)
  next
    case (Poll bad now ph)
    have "UserRow u \<notin> L" if "batch_fits pg bad now evs handled L ws d" for pg evs handled L ws
      using batch_fitsD(3)[OF that] by blast
    with Poll fit that show ?thesis by (cases ph) (auto simp: fits_def)
  qed
  from bg have "agree (tx_locks t) d d'"
  proof cases
    case (bg_user pg b email ures)
    from bg_user(3) show ?thesis
    proof (rule CreateUser_frame)
      fix row
      assume d': "d' = d\<lparr>tbl_users := tbl_users d @ [row]\<rparr>"
      have "find_user u d' = find_user u d" if "UserRow u \<in> tx_locks t" for u
        using user[OF that] by (auto simp: d' find_user_def find_append_list split: option.splits)
      then show ?thesis by (simp add: agree_def d' find_payment_def)
    qed simp
  next
    case (bg_key pg rand bcrypt userID label kres)
    show ?thesis
      by (subst GenerateAPIKey_frame[OF bg_key(2)]) (simp add: agree_def find_user_def find_payment_def)
  qed
  then show ?thesis by (rule fits_agree[OF fit])
qed

lemma conc_inv_step:
  assumes inv: "conc_inv uin s" and "conc_step uin s s'"
  shows "conc_inv uin s' \<and> (committed s' = committed s \<or> ledger_step uin (committed s) (committed s'))"
  using assms(2)
proof cases
  case (c_begin n pg w now)
  have "fits (new_txn pg now w) (committed s)" using c_begin(4) by (cases w) (auto simp: fits_def new_txn_def)
  then have "consistent tx_locks fits (committed s) ((live s)(n \<mapsto> new_txn pg now w))"
    using inv c_begin(2) by (intro payments_2pl.begins) (auto simp: conc_inv_def new_txn_def)
  then show ?thesis using inv c_begin by (auto simp: conc_inv_def new_txn_def)
next
  case (c_next n t t')
  with goes_on_inv[OF inv] stmt_goes_on[OF inv] show ?thesis by simp
next
  case (c_send n t ev q err)
  have "conc_inv uin (s\<lparr>live := (live s)(n \<mapsto> replied err t)\<rparr>)"
    by (rule goes_on_inv[OF inv c_send(2) replied_goes_on[OF conc_invD(1)[OF inv c_send(2)] c_send(3)]])
  then show ?thesis by (simp add: c_send(1) conc_inv_def)
next
  case (c_return n t res)
  with ended_inv[OF inv, of n] conc_inv_queue(2) show ?thesis by simp
next
  case (c_commit n t d' e)
  note step = commit_step[OF inv c_commit(2-4)]
  have "d' = committed s \<or> d' = install (tx_writes t) (committed s)"
    using c_commit(4) by (auto simp: tx_Commit_def split: commit_outcome.splits)
  then have "consistent tx_locks fits d' ((live s)(n := None))"
    using payments_2pl.publishes[OF conc_invD(6)[OF inv c_commit(2)] c_commit(2)]
      payments_2pl.ends[OF conc_invD(6)[OF inv c_commit(2)], of n] by auto
  moreover have "ledger_inv uin d'" by (rule ledger.inv_step[OF conc_invD(7)[OF inv c_commit(2)] step])
  ultimately show ?thesis using inv step by (auto simp: c_commit(1) conc_inv_def split: if_splits)
next
  case (c_abort n t)
  with ended_inv[OF inv, of n] conc_inv_queue(2) show ?thesis by simp
next
  case (c_background d')
  note step = background_step[OF c_background(2)]
  have c: "consistent tx_locks fits (committed s) (live s)" using inv by (simp add: conc_inv_def)
  have "consistent tx_locks fits d' (live s)"
    by (rule payments_2pl.moves[OF c]) (rule background_agree[OF c_background(2) consistentD(1)[OF c]])
  moreover have "ledger_inv uin d'" using ledger.inv_step[OF _ step] inv by (simp add: conc_inv_def)
  ultimately show ?thesis using inv step by (simp add: c_background(1) conc_inv_def)
qed

text \<open>
  A state in which nothing is under way is a database of the serial system; every step of the
  concurrent system is a step of the serial one on the committed database, or none.
\<close>

interpretation conc_serial: refinement
  "\<lambda>s. uuid_idem uin \<and> s = idle" "conc_step uin" "conc_inv uin" "\<lambda>d. d = empty_db" "ledger_step uin" committed for uin
proof unfold_locales
  show "conc_inv uin s" if "uuid_idem uin \<and> s = idle" for s
    using that ledger.inv_init[of uin empty_db] by (simp add: conc_inv_def idle_def consistent_def)
  show "committed s = empty_db" if "uuid_idem uin \<and> s = idle" for s
    using that by (simp add: idle_def)
qed (use conc_inv_step in blast)+

lemma conc_reach:
  assumes "uuid_idem uin" and "reach (\<lambda>s. s = idle) (conc_step uin) s"
  shows "reach (\<lambda>s. uuid_idem uin \<and> s = idle) (conc_step uin) s"
  using assms(2) by (induction rule: reach.induct) (auto intro: reach.intros assms(1))

section \<open>Waiting\<close>

text \<open>
  How far a transaction is in the order in which locks are taken: a refund takes the payment, then the
  user; a charge the user, then the key of its payment, then the key of its event.
\<close>

fun stage :: "work \<Rightarrow> nat" where
  "stage (Charge userID amount currency ph) =
     (case ph of BalanceRead _ \<Rightarrow> 2 | Debited \<Rightarrow> 2 | Inserted _ \<Rightarrow> 3 | Staged _ \<Rightarrow> 4 | _ \<Rightarrow> 1)"
| "stage (Refund paymentID ph) = (case ph of RefundReceived \<Rightarrow> 0 | RefundBegun \<Rightarrow> 0 | Chosen _ \<Rightarrow> 1 | _ \<Rightarrow> 4)"
| "stage (Poll bad now ph) = 4"

fun lock_stage :: "db \<Rightarrow> row_lock \<Rightarrow> nat" where
  "lock_stage d (UserRow u) = 2"
| "lock_stage d (PaymentRow i) = (if find_payment i d = None then 3 else 1)"
| "lock_stage d (OutboxRow i) = 4"

lemma holder_stage:
  assumes "fits t d" and "k \<in> tx_locks t"
  shows "lock_stage d k \<le> stage (tx_work t)"
proof (cases "tx_work t")
  case (Charge userID amount currency ph)
  with assms show ?thesis
    by (cases ph; simp add: fits_def; elim exE conjE; simp add: insertable_def; elim disjE; simp)
next
  case (Refund paymentID ph)
  with assms show ?thesis
    by (cases ph; simp add: fits_def; elim exE conjE; simp add: chosen_def; elim disjE; simp)
next
  case (Poll bad now ph)
  then show ?thesis by (cases k) auto
qed

lemma waiter_stage:
  assumes "stmt h d t = Wait"
  shows "\<exists>k. h k \<and> stage (tx_work t) < lock_stage d k"
proof -
  have "(\<exists>u. h (UserRow u) \<and> stage (tx_work t) < 2) \<or> (\<exists>i. h (PaymentRow i) \<and> stage (tx_work t) < (if find_payment i d = None then 3 else 1))
      \<or> (\<exists>i. h (OutboxRow i) \<and> stage (tx_work t) < 4)"
  proof (cases "tx_work t")
    case (Charge userID amount currency ph)
    with assms show ?thesis
      by (cases ph) (auto simp: stmt_def charge_stmt_def Let_def split: if_splits sum.splits)
  next
    case (Refund paymentID ph)
    with assms show ?thesis
      by (cases ph) (auto simp: stmt_def refund_stmt_def Let_def split: if_splits sum.splits)
  next
    case (Poll bad now ph)
    with assms show ?thesis
      by (auto simp: stmt_def poll_stmt_def Let_def split: poll_phase.splits list.splits sum.splits if_splits)
  qed
  then show ?thesis by (elim disjE exE conjE) (rule exI, rule conjI, assumption, simp)+
qed

lemma someone_acts:
  assumes inv: "conc_inv uin s" and "live s n = Some t"
  shows "\<exists>m t'. live s m = Some t' \<and> stmt (held s m) (committed s) t' \<noteq> Wait"
  using assms(2)
proof (induction "4 - stage (tx_work t)" arbitrary: n t rule: less_induct)
  case less
  show ?case
  proof (cases "stmt (held s n) (committed s) t = Wait")
    case True
    then obtain k where k: "held s n k" "stage (tx_work t) < lock_stage (committed s) k"
      using waiter_stage by blast
    then obtain m t' where m: "live s m = Some t'" "k \<in> tx_locks t'" by (auto simp: held_def held_by_others_def)
    have "stage (tx_work t) < stage (tx_work t')"
      using k(2) holder_stage[OF conc_invD(1)[OF inv m(1)] m(2)] by simp
    moreover have "lock_stage (committed s) k \<le> 4" by (cases k) auto
    ultimately have "4 - stage (tx_work t') < 4 - stage (tx_work t)" using k(2) by linarith
    then show ?thesis by (rule less.hyps[OF _ m(1)])
  qed (use less.prems in blast)
qed

section \<open>Queueing once\<close>

text \<open>The events a live poll has sent, and the events that are no longer pending.\<close>

fun sending :: "work \<Rightarrow> string set" where
  "sending (Poll bad now (Enqueued err ev evs)) = {fe_ID ev}"
| "sending _ = {}"

definition sent_ids :: "txn \<Rightarrow> string set" where
  "sent_ids t = {i. \<exists>r. PutOutbox r \<in> set (tx_writes t) \<and> ob_id r = i} \<union> sending (tx_work t)"

definition event_done :: "string \<Rightarrow> db \<Rightarrow> bool" where
  "event_done i d \<longleftrightarrow> (\<exists>r. find_outbox i d = Some r \<and> ob_status r \<noteq> ''PENDING'')"

definition accounted :: "csys \<Rightarrow> string \<Rightarrow> bool" where
  "accounted s i \<longleftrightarrow> event_done i (committed s) \<or> (\<exists>n t. live s n = Some t \<and> i \<in> sent_ids t)"

definition sent_inv :: "csys \<Rightarrow> bool" where
  "sent_inv s \<longleftrightarrow> (\<not> cut s \<longrightarrow> distinct (map fst (sent s)) \<and> (\<forall>i \<in> fst ` set (sent s). accounted s i))"

lemma accounted_update:
  assumes "accounted s i" and "\<And>t. live s n = Some t \<Longrightarrow> i \<in> sent_ids t \<Longrightarrow> i \<in> sent_ids t'"
  shows "accounted (s\<lparr>live := (live s)(n \<mapsto> t')\<rparr>) i"
proof -
  have "\<exists>m' t2. ((live s)(n \<mapsto> t')) m' = Some t2 \<and> i \<in> sent_ids t2" if "live s m = Some t" "i \<in> sent_ids t" for m t
    using that assms(2) by (cases "m = n") (auto intro: exI[of _ n] exI[of _ m])
  with assms(1) have "event_done i (committed s) \<or> (\<exists>m' t2. ((live s)(n \<mapsto> t')) m' = Some t2 \<and> i \<in> sent_ids t2)"
    unfolding accounted_def by blast
  then show ?thesis unfolding accounted_def by simp
qed

lemma sent_inv_mono:
  assumes "sent_inv s" and "\<not> cut s' \<Longrightarrow> \<not> cut s \<and> sent s' = sent s" and "\<And>i. \<not> cut s' \<Longrightarrow> accounted s i \<Longrightarrow> accounted s' i"
  shows "sent_inv s'"
  using assms unfolding sent_inv_def by metis

lemma find_outbox_put [simp]:
  "find_outbox i (install1 (PutOutbox r) d) = (if i = ob_id r \<and> find_outbox i d \<noteq> None then Some r else find_outbox i d)"
proof -
  have "List.find (\<lambda>x. ob_id x = i) (update_where (\<lambda>x. ob_id x = ob_id r) (\<lambda>_. r) rows)
      = (if i = ob_id r \<and> List.find (\<lambda>x. ob_id x = i) rows \<noteq> None then Some r else List.find (\<lambda>x. ob_id x = i) rows)" for rows
    by (induction rows) auto
  then show ?thesis by (auto simp: find_outbox_def)
qed

lemma event_done_install1:
  assumes "event_done i d" and "\<And>r. w = PutOutbox r \<Longrightarrow> ob_status r \<noteq> ''PENDING''"
  shows "event_done i (install1 w d)"
proof (cases w)
  case (PutOutbox r)
  with assms show ?thesis by (auto simp: event_done_def simp del: install1.simps)
next
  case (NewOutbox r)
  with assms(1) show ?thesis by (auto simp: event_done_def find_outbox_def find_append_list)
qed (use assms(1) in \<open>auto simp: event_done_def find_outbox_def\<close>)

lemma event_done_install:
  "event_done i d \<Longrightarrow> (\<And>r. PutOutbox r \<in> set ws \<Longrightarrow> ob_status r \<noteq> ''PENDING'') \<Longrightarrow> event_done i (install ws d)"
proof (induction ws arbitrary: d)
  case (Cons w ws)
  then show ?case using event_done_install1[of i d w] by auto
qed simp

lemma event_done_installed:
  assumes "PutOutbox r \<in> set ws" and "\<And>r. PutOutbox r \<in> set ws \<Longrightarrow> ob_status r \<noteq> ''PENDING''" and "find_outbox (ob_id r) d \<noteq> None"
  shows "event_done (ob_id r) (install ws d)"
  using assms
proof (induction ws arbitrary: d)
  case (Cons w ws)
  have found: "find_outbox (ob_id r) (install1 w d) \<noteq> None"
  proof (cases w)
    case (PutOutbox x)
    with Cons.prems(3) show ?thesis by (auto simp del: install1.simps)
  qed (use Cons.prems(3) in \<open>auto simp: find_outbox_def find_append_list split: option.splits\<close>)
  show ?case
  proof (cases "w = PutOutbox r")
    case True
    have "event_done (ob_id r) (install1 w d)" using True Cons.prems by (auto simp: event_done_def simp del: install1.simps)
    then show ?thesis using event_done_install[of "ob_id r" "install1 w d" ws] Cons.prems(2) by simp
  next
    case False
    then show ?thesis using Cons.IH[OF _ _ found] Cons.prems(1,2) by simp
  qed
qed simp

lemma fits_outbox_writes:
  assumes "fits t d" and "PutOutbox r \<in> set (tx_writes t)"
  shows "ob_status r \<noteq> ''PENDING''" and "dispatching (tx_work t)" and "OutboxRow (ob_id r) \<in> tx_locks t"
    and "find_outbox (ob_id r) d \<noteq> None"
proof -
  have "\<exists>bad now ph. tx_work t = Poll bad now ph"
  proof (cases "tx_work t")
    case (Charge userID amount currency ph)
    with assms show ?thesis
      by (cases ph; simp add: fits_def; elim exE conjE; simp add: debit_version_def outbox_version_def)
  next
    case (Refund paymentID ph)
    with assms show ?thesis
      by (cases ph; simp add: fits_def; elim exE conjE; simp add: credit_version_def)
  qed blast
  then obtain bad now ph where w: "tx_work t = Poll bad now ph" by blast
  with assms obtain evs handled where b: "batch_fits (tx_pg t) bad now evs handled (tx_locks t) (tx_writes t) d"
    and disp: "dispatching (tx_work t)"
    by (cases ph) (auto simp: fits_def)
  from assms(2) obtain ro where ro: "ro \<in> set handled" "r = settle (tx_pg t) now ro" by (auto simp: batch_fitsD(7)[OF b])
  have "fst ro \<in> set (tbl_outbox d)" using batch_fitsD(5)[OF b] ro(1) by auto
  then show "find_outbox (ob_id r) d \<noteq> None" by (auto simp: find_outbox_def find_None_iff ro(2) settle_def)
  show "ob_status r \<noteq> ''PENDING''" by (simp add: ro(2) settle_def)
  show "OutboxRow (ob_id r) \<in> tx_locks t" using batch_handled_locked[OF b ro(1)] by (simp add: ro(2) settle_def)
  show "dispatching (tx_work t)" by (rule disp)
qed

lemma sent_ids_locked:
  assumes "fits t d" and "i \<in> sent_ids t"
  shows "OutboxRow i \<in> tx_locks t" and "dispatching (tx_work t)"
proof -
  have "OutboxRow i \<in> tx_locks t \<and> dispatching (tx_work t)"
  proof (cases "i \<in> sending (tx_work t)")
    case True
    then obtain bad now err ev evs where w: "tx_work t = Poll bad now (Enqueued err ev evs)" "i = fe_ID ev"
      by (cases "tx_work t" rule: sending.cases) auto
    with assms(1) obtain handled where b: "batch_fits (tx_pg t) bad now (ev # evs) handled (tx_locks t) (tx_writes t) d"
      by (auto simp: fits_def)
    from batch_locked(1)[OF b, of ev] show ?thesis by (simp add: w)
  next
    case False
    with assms fits_outbox_writes(2,3)[OF assms(1)] show ?thesis by (auto simp: sent_ids_def)
  qed
  then show "OutboxRow i \<in> tx_locks t" "dispatching (tx_work t)" by simp_all
qed

lemma next_sent_ids:
  assumes ok: "outbox_ok (tx_pg t) d" and fit: "fits t d" and st: "stmt h d t = Next t'"
  shows "sent_ids t \<subseteq> sent_ids t'"
proof (cases "sent_ids t = {}")
  case False
  then obtain bad now ph where w: "tx_work t = Poll bad now ph"
    using sent_ids_locked(2)[OF fit] by (cases "tx_work t" rule: dispatching.cases) auto
  from st w obtain err ev evs v where ph: "ph = PollReceived \<or> ph = PollBegun \<or> (ph = Enqueued err ev evs
      \<and> sql_update_outbox (tx_pg t) (install (tx_writes t) d) (if err = None then ''PROCESSED'' else ''FAILED'')
        (if err = None then Some (now (fe_ID ev)) else None) (fe_ID ev) = Inr v
      \<and> t' = t\<lparr>tx_work := Poll bad now (Dispatching evs), tx_writes := tx_writes t @ new_outbox_version (canon (tx_pg t) (fe_ID ev)) v\<rparr>)"
    by (auto simp: stmt_def poll_stmt_def Let_def split: poll_phase.splits list.splits sum.splits if_splits)
  show ?thesis
  proof (cases "\<exists>err ev evs. ph = Enqueued err ev evs")
    case True
    with ph have up: "sql_update_outbox (tx_pg t) (install (tx_writes t) d) (if err = None then ''PROCESSED'' else ''FAILED'')
        (if err = None then Some (now (fe_ID ev)) else None) (fe_ID ev) = Inr v" and p: "ph = Enqueued err ev evs"
      and t': "t' = t\<lparr>tx_work := Poll bad now (Dispatching evs), tx_writes := tx_writes t @ new_outbox_version (canon (tx_pg t) (fe_ID ev)) v\<rparr>"
      by auto
    from fit w p obtain handled where "batch_fits (tx_pg t) bad now (ev # evs) handled (tx_locks t) (tx_writes t) d" by (auto simp: fits_def)
    from batch_update(2)[OF ok this up] show ?thesis by (auto simp: sent_ids_def t' w p)
  next
    case False
    with ph w have "\<not> dispatching (tx_work t)" by auto
    then show ?thesis using sent_ids_locked(2)[OF fit] by blast
  qed
qed simp

lemma send_fresh:
  assumes inv: "conc_inv uin s" and t: "live s n = Some t" and st: "stmt (held s n) (committed s) t = Send ev"
  shows "\<not> event_done (fe_ID ev) (committed s)" and "live s m = Some t2 \<Longrightarrow> fe_ID ev \<notin> sent_ids t2"
    and "sent_ids (replied err t) = insert (fe_ID ev) (sent_ids t)"
proof -
  note I = conc_invD[OF inv t]
  from st obtain bad now evs where w: "tx_work t = Poll bad now (Dispatching (ev # evs))"
    by (auto simp: stmt_def charge_stmt_def refund_stmt_def poll_stmt_def Let_def split: work.splits poll_phase.splits list.splits
        charge_phase.splits refund_phase.splits sum.splits if_splits prod.splits)
  with I(1) obtain handled where b: "batch_fits (tx_pg t) bad now (ev # evs) handled (tx_locks t) (tx_writes t) (committed s)"
    by (auto simp: fits_def)
  from batch_ids(2)[OF I(3) b, of ev] obtain r where r: "r \<in> set (tbl_outbox (committed s))" "ob_status r = ''PENDING''" "scan_event r = ev"
    by auto
  have "find_outbox (ob_id r) (committed s) = Some r"
    using I(3) r(1) by (simp add: find_outbox_def outbox_ok_def find_key_unique)
  moreover have id: "fe_ID ev = ob_id r" using r(3) by auto
  ultimately show "\<not> event_done (fe_ID ev) (committed s)" using r(2) by (simp add: event_done_def)
  show "sent_ids (replied err t) = insert (fe_ID ev) (sent_ids t)" by (simp add: sent_ids_def replied_def w)
  have mine: "fe_ID ev \<notin> sent_ids t"
    using batch_ids(1)[OF I(3) b] by (auto simp: sent_ids_def w batch_fitsD(7)[OF b] settle_def image_iff)
  show "fe_ID ev \<notin> sent_ids t2" if t2: "live s m = Some t2"
  proof (cases "m = n")
    case False
    have "OutboxRow (fe_ID ev) \<in> tx_locks t" using batch_locked(1)[OF b, of ev] by simp
    with sent_ids_locked(1)[OF conc_invD(1)[OF inv t2]] consistent_disjoint[OF I(6) t t2] False show ?thesis by blast
  qed (use mine t t2 in simp)
qed

lemma background_outbox:
  assumes "background uin d d'"
  shows "tbl_outbox d' = tbl_outbox d"
  using assms
proof cases
  case (bg_user pg b email ures)
  from bg_user(3) show ?thesis by (rule CreateUser_frame) simp_all
next
  case (bg_key pg rand bcrypt userID label kres)
  show ?thesis by (subst GenerateAPIKey_frame[OF bg_key(2)]) simp
qed

lemma sent_inv_ended:
  assumes inv: "conc_inv uin s" and S: "sent_inv s" and t: "live s n = Some t"
  shows "sent_inv (s\<lparr>live := (live s)(n := None), cut := cut s \<or> dispatching (tx_work t)\<rparr>)"
proof (rule sent_inv_mono[OF S])
  let ?s' = "s\<lparr>live := (live s)(n := None), cut := cut s \<or> dispatching (tx_work t)\<rparr>"
  fix i
  assume "\<not> cut ?s'" and i: "accounted s i"
  then have "sent_ids t = {}" using sent_ids_locked(2)[OF conc_invD(1)[OF inv t]] by auto
  then have "m \<noteq> n" if "live s m = Some t2" "i \<in> sent_ids t2" for m t2 using that t by auto
  with i show "accounted ?s' i" by (auto simp: accounted_def)
qed simp

lemma sent_inv_commit:
  assumes inv: "conc_inv uin s" and S: "sent_inv s" and t: "live s n = Some t" and st: "stmt (held s n) (committed s) t = Commit"
    and com: "tx_Commit (tx_pg t) (install (tx_writes t) (committed s)) (committed s) = (d', e)"
  shows "sent_inv (s\<lparr>committed := d', live := (live s)(n := None),
      cut := cut s \<or> (dispatching (tx_work t) \<and> (\<exists>x. commit_out (tx_pg t) = CommitRefused x))\<rparr>)"
proof (rule sent_inv_mono[OF S])
  let ?d = "committed s"
  let ?s' = "s\<lparr>committed := d', live := (live s)(n := None),
      cut := cut s \<or> (dispatching (tx_work t) \<and> (\<exists>x. commit_out (tx_pg t) = CommitRefused x))\<rparr>"
  fix i
  assume uncut: "\<not> cut ?s'" and i: "accounted s i"
  note fit = conc_invD(1)[OF inv t]
  have not_sending: "sending (tx_work t) = {}"
    using st by (cases "tx_work t" rule: sending.cases) (auto simp: stmt_def poll_stmt_def Let_def split: sum.splits if_splits)
  have stays: "event_done i d'" if "event_done i ?d"
    using that event_done_install[OF that fits_outbox_writes(1)[OF fit]] com
    by (auto simp: tx_Commit_def split: commit_outcome.splits)
  have mine: "event_done i d'" if "i \<in> sent_ids t"
  proof -
    from that not_sending obtain r where r: "PutOutbox r \<in> set (tx_writes t)" "ob_id r = i" by (auto simp: sent_ids_def)
    have "d' = install (tx_writes t) ?d"
      using com uncut fits_outbox_writes(2)[OF fit r(1)] by (auto simp: tx_Commit_def split: commit_outcome.splits)
    with event_done_installed[OF r(1) fits_outbox_writes(1)[OF fit] fits_outbox_writes(4)[OF fit r(1)]] r(2) show ?thesis by simp
  qed
  from i show "accounted ?s' i"
    unfolding accounted_def
  proof (elim disjE exE conjE)
    fix m t2
    assume m: "live s m = Some t2" "i \<in> sent_ids t2"
    show "event_done i (committed ?s') \<or> (\<exists>n t. live ?s' n = Some t \<and> i \<in> sent_ids t)"
      using m t mine by (cases "m = n") auto
  qed (use stays in simp)
qed simp

lemma sent_inv_step:
  assumes inv: "conc_inv uin s" and S: "sent_inv s" and "conc_step uin s s'"
  shows "sent_inv s'"
  using assms(3)
proof cases
  case (c_begin n pg w now)
  have "accounted s' i" if "accounted s i" for i
    using accounted_update[OF that, of n] c_begin(2) by (simp add: c_begin(1))
  then show ?thesis by (intro sent_inv_mono[OF S]) (simp_all add: c_begin(1))
next
  case (c_next n t t')
  have "sent_ids t \<subseteq> sent_ids t'" by (rule next_sent_ids[OF conc_invD(3,1)[OF inv c_next(2)] c_next(3)])
  then have "accounted s' i" if "accounted s i" for i
    using accounted_update[OF that, of n t'] c_next(2) by (auto simp: c_next(1))
  then show ?thesis by (intro sent_inv_mono[OF S]) (simp_all add: c_next(1))
next
  case (c_send n t ev q err)
  note F = send_fresh[OF inv c_send(2,3)]
  have keep: "accounted s' i" if "accounted s i \<or> i = fe_ID ev" for i
  proof -
    have "accounted (s\<lparr>live := (live s)(n \<mapsto> replied err t)\<rparr>) i"
    proof (cases "i = fe_ID ev")
      case True
      then show ?thesis using F(3)[of err] by (auto simp: accounted_def intro!: exI[of _ n])
    next
      case False
      with that show ?thesis using c_send(2) F(3)[of err] by (intro accounted_update) auto
    qed
    then show ?thesis by (simp add: accounted_def c_send(1))
  qed
  have fresh: "\<not> accounted s (fe_ID ev)" using F(1,2) by (auto simp: accounted_def)
  have "sent_inv s'" if "q = sent s @ [(fe_ID ev, (TypeWebhookRetryEvent, fe_Payload ev))]"
    using S keep fresh that by (auto simp: sent_inv_def c_send(1))
  moreover have "sent_inv s'" if "q = sent s"
    using keep that by (intro sent_inv_mono[OF S]) (simp_all add: c_send(1))
  ultimately show ?thesis using c_send(4) by blast
next
  case (c_return n t res)
  with sent_inv_ended[OF inv S] show ?thesis by simp
next
  case (c_commit n t d' e)
  with sent_inv_commit[OF inv S c_commit(2-4)] show ?thesis by simp
next
  case (c_abort n t)
  with sent_inv_ended[OF inv S] show ?thesis by simp
next
  case (c_background d')
  have "accounted s' i = accounted s i" for i
    by (simp add: accounted_def event_done_def find_outbox_def c_background(1) background_outbox[OF c_background(2)])
  then show ?thesis by (intro sent_inv_mono[OF S]) (simp_all add: c_background(1))
qed

interpretation conc_sent: transition_system
  "\<lambda>s. uuid_idem uin \<and> s = idle" "conc_step uin" "\<lambda>s. conc_inv uin s \<and> sent_inv s" for uin
proof unfold_locales
  show "conc_inv uin s \<and> sent_inv s" if "uuid_idem uin \<and> s = idle" for s
    using conc_serial.inv_init[OF that] that by (simp add: sent_inv_def idle_def)
qed (use conc_inv_step sent_inv_step in blast)

section \<open>The properties\<close>

text \<open>
  C10. However charges, refunds and polls are interleaved statement by statement, whatever fails and
  whenever transactions are rolled back, the committed database is one the serial system reaches, and
  every step leaves it alone or is one operation of the serial system run to completion on it.
\<close>

theorem concurrent_refines_serial:
  assumes "uuid_idem uin" and "reach (\<lambda>s. s = idle) (conc_step uin) s"
  shows "reach (\<lambda>d. d = empty_db) (ledger_step uin) (committed s)
    \<and> (\<forall>s'. conc_step uin s s' \<longrightarrow> committed s' = committed s \<or> ledger_step uin (committed s) (committed s'))"
  using conc_serial.reach_refines[OF conc_reach[OF assms]] conc_serial.step_refines[OF conc_reach[OF assms]] by blast

text \<open>
  C11. What a charge or a refund answers after its commit, and the database it leaves, are exactly those
  of the serial function on the database the commit found.
\<close>

theorem concurrent_answers_serial:
  assumes "uuid_idem uin" and "reach (\<lambda>s. s = idle) (conc_step uin) s"
    and t: "live s n = Some t" and st: "stmt (held s n) (committed s) t = Commit"
    and com: "tx_Commit (tx_pg t) (install (tx_writes t) (committed s)) (committed s) = (d', e)"
  shows "case tx_work t of
      Charge userID amount currency ph \<Rightarrow>
        map_option (Pair d') (commit_answer t e) = Some (ChargeOn (tx_pg t) (tx_clock t) (committed s) userID amount currency)
    | Refund paymentID ph \<Rightarrow> map_option (Pair d') (commit_answer t e) = Some (RefundOn (tx_pg t) (committed s) paymentID)
    | Poll bad now ph \<Rightarrow> commit_answer t e = None"
proof -
  note I = conc_invD[OF conc_serial.reach_inv[OF conc_reach[OF assms(1,2)]] t]
  have dist: "distinct (map usr_id (tbl_users (committed s)))" using I(5) by (simp add: db_ok_def)
  show ?thesis
  proof (cases "tx_work t")
    case Charge
    from charge_commit[OF Charge I(1) st dist com] show ?thesis by (auto simp: Charge)
  next
    case Refund
    from refund_commit[OF Refund I(1) st I(5) com] show ?thesis by (auto simp: Refund)
  next
    case Poll
    then show ?thesis by (simp add: commit_answer_def)
  qed
qed

text \<open>
  C12. The transactions of the program cannot deadlock: as long as any is live, one of them can run its
  next statement without waiting for a lock.
\<close>

theorem no_deadlock:
  assumes "uuid_idem uin" and "reach (\<lambda>s. s = idle) (conc_step uin) s" and "live s n = Some t"
  shows "\<exists>m t'. live s m = Some t' \<and> stmt (held s m) (committed s) t' \<noteq> Wait"
  by (rule someone_acts[OF conc_serial.reach_inv[OF conc_reach[OF assms(1,2)]] assms(3)])

text \<open>
  C13. Pollers that run side by side, each with \<^verbatim>\<open>SKIP LOCKED\<close>, never put an event in the queue twice, as long
  as no poll is cut off between selecting its batch and its commit.
\<close>

theorem pollers_queue_once:
  assumes "uuid_idem uin" and "reach (\<lambda>s. s = idle) (conc_step uin) s" and "\<not> cut s"
  shows "distinct (map fst (sent s))"
  using conc_sent.reach_inv[OF conc_reach[OF assms(1,2)]] assms(3) by (simp add: sent_inv_def)

section \<open>A concrete execution\<close>

text \<open>Statements of one transaction that is live alone.\<close>

fun nexts :: "nat \<Rightarrow> db \<Rightarrow> txn \<Rightarrow> txn option" where
  "nexts 0 d t = Some t"
| "nexts (Suc k) d t = (case stmt (\<lambda>_. False) d t of Next t' \<Rightarrow> nexts k d t' | _ \<Rightarrow> None)"

definition alone :: "db \<Rightarrow> txn \<Rightarrow> csys" where
  "alone d t = \<lparr>committed = d, live = [0 \<mapsto> t], sent = [], cut = False\<rparr>"

lemma held_alone: "held (alone d t) 0 = (\<lambda>_. False)"
  by (auto simp: held_def held_by_others_def alone_def fun_eq_iff)

lemma nexts_reach:
  "nexts k d t = Some t' \<Longrightarrow> reach (\<lambda>s. s = idle) (conc_step uin) (alone d t) \<Longrightarrow> reach (\<lambda>s. s = idle) (conc_step uin) (alone d t')"
proof (induction k arbitrary: t)
  case (Suc k)
  then obtain t1 where t1: "stmt (\<lambda>_. False) d t = Next t1" "nexts k d t1 = Some t'" by (auto split: outcome.splits)
  have "conc_step uin (alone d t) ((alone d t)\<lparr>live := (live (alone d t))(0 \<mapsto> t1)\<rparr>)"
    using t1(1) by (intro c_next[of _ _ t]) (simp_all add: held_alone, simp_all add: alone_def)
  then have "conc_step uin (alone d t) (alone d t1)" by (simp add: alone_def)
  from Suc.IH[OF t1(2) reach_step[OF Suc.prems(2) this]] show ?case .
qed simp

definition charge0 :: txn where
  "charge0 = new_txn pg0 time_zero (Charge ''evt-1'' 200 ''INR'' ChargeReceived)"

lemma born_db_eq:
  "born_db = empty_db\<lparr>tbl_users := [\<lparr>usr_id = ''evt-1'', usr_email = ''m@x'', usr_balance = 500, usr_currency = ''INR'', usr_created_at = 100\<rparr>]\<rparr>"
  by (simp add: born_db_def CreateUser_def sql_insert_user_def autocommit_def tx_Commit_def exec_def pg0_def empty_db_def is_int64_def int64_bounds Let_def)

lemma begun0: "reach (\<lambda>s. s = idle) (conc_step uin0) (alone born_db charge0)"
proof -
  have "background uin0 empty_db born_db"
    by (rule bg_user[OF engine0(1), where b = 500]) (auto simp: born_db_def prod_eq_iff)
  then have "conc_step uin0 idle (idle\<lparr>committed := born_db\<rparr>)" using c_background[of uin0 idle] by (simp add: idle_def)
  with reach_init[of "\<lambda>s. s = idle"] have "reach (\<lambda>s. s = idle) (conc_step uin0) (idle\<lparr>committed := born_db\<rparr>)"
    by (blast intro: reach_step)
  moreover have "conc_step uin0 (idle\<lparr>committed := born_db\<rparr>) (alone born_db charge0)"
    using c_begin[of "idle\<lparr>committed := born_db\<rparr>" 0 uin0 pg0 "Charge ''evt-1'' 200 ''INR'' ChargeReceived" time_zero] engine0(1)
    by (simp add: idle_def alone_def charge0_def fun_upd_def)
  ultimately show ?thesis by (rule reach_step)
qed

lemmas stmt_eval = stmt_def charge_stmt_def charge0_def new_txn_def canon_def new_user_version_def find_outbox_def charge_eval born_db_eq empty_db_def

definition staged0 :: txn where
  "staged0 = the (nexts 6 born_db charge0)"

lemma staged0_run: "nexts 6 born_db charge0 = Some staged0" "\<exists>p. tx_work staged0 = Charge ''evt-1'' 200 ''INR'' (Staged p)"
  "tx_pg staged0 = pg0" "tx_clock staged0 = time_zero"
  unfolding staged0_def by (simp_all add: numeral_eq_Suc stmt_eval)

lemma staged0_reach: "reach (\<lambda>s. s = idle) (conc_step uin0) (alone born_db staged0)"
  by (rule nexts_reach[OF staged0_run(1) begun0])

lemma staged0_commits:
  "stmt (held (alone born_db staged0) 0) (committed (alone born_db staged0)) staged0 = Commit"
  "tx_Commit (tx_pg staged0) (install (tx_writes staged0) (committed (alone born_db staged0))) (committed (alone born_db staged0))
     = (install (tx_writes staged0) born_db, None)"
  using staged0_run(2,3) by (auto simp: stmt_def charge_stmt_def alone_def tx_Commit_def pg0_def)

theorem concurrent_answers_serial_witness:
  "\<exists>p. ChargeOn pg0 time_zero born_db ''evt-1'' 200 ''INR'' = (install (tx_writes staged0) born_db, Inr p)"
proof -
  obtain p where w: "tx_work staged0 = Charge ''evt-1'' 200 ''INR'' (Staged p)" using staged0_run(2) by blast
  have "live (alone born_db staged0) 0 = Some staged0" by (simp add: alone_def)
  from concurrent_answers_serial[OF engine0(2) staged0_reach this staged0_commits]
  have "(install (tx_writes staged0) born_db, Inr p) = ChargeOn pg0 time_zero (committed (alone born_db staged0)) ''evt-1'' 200 ''INR''"
    by (simp add: w commit_answer_def staged0_run(3,4))
  moreover have "committed (alone born_db staged0) = born_db" by (simp add: alone_def)
  ultimately have "ChargeOn pg0 time_zero born_db ''evt-1'' 200 ''INR'' = (install (tx_writes staged0) born_db, Inr p)"
    by (simp only:)
  then show ?thesis by (rule exI)
qed

definition charged0 :: csys where
  "charged0 = idle\<lparr>committed := bought_db\<rparr>"

lemma bought_db_staged: "install (tx_writes staged0) born_db = bought_db"
proof -
  obtain p where w: "tx_work staged0 = Charge ''evt-1'' 200 ''INR'' (Staged p)" using staged0_run(2) by blast
  have "live (alone born_db staged0) 0 = Some staged0" by (simp add: alone_def)
  note I = conc_invD[OF conc_serial.reach_inv[OF conc_reach[OF engine0(2) staged0_reach]] this]
  from charge_commit[OF w I(1) staged0_commits(1) _ staged0_commits(2)] I(5) show ?thesis
    by (auto simp: bought_db_def staged0_run(3,4) alone_def db_ok_def)
qed

lemma charged0_reach: "reach (\<lambda>s. s = idle) (conc_step uin0) charged0"
proof -
  have "\<not> dispatching (tx_work staged0)" using staged0_run(2) by auto
  with c_commit[OF _ staged0_commits, of uin0] have "conc_step uin0 (alone born_db staged0) charged0"
    by (auto simp: alone_def charged0_def idle_def bought_db_staged fun_upd_idem)
  from reach_step[OF staged0_reach this] show ?thesis .
qed

theorem concurrent_refines_serial_witness:
  "reach (\<lambda>d. d = empty_db) (ledger_step uin0) (committed charged0) \<and> payment_ids (committed charged0) = [''pay-1'']"
  using concurrent_refines_serial[OF engine0(2) charged0_reach]
  by (simp add: charged0_def bought_db_def born_db_eq charge_eval empty_db_def payment_ids_def)

text \<open>Two charges of one user: the first has the row lock, the second waits for it.\<close>

definition locked0 :: txn where
  "locked0 = the (nexts 3 born_db charge0)"

definition await1 :: "charge_phase \<Rightarrow> txn" where
  "await1 ph = new_txn pg0 time_zero (Charge ''evt-1'' 400 ''INR'' ph)"

definition both0 :: "charge_phase \<Rightarrow> csys" where
  "both0 ph = \<lparr>committed = born_db, live = [0 \<mapsto> locked0, 1 \<mapsto> await1 ph], sent = [], cut = False\<rparr>"

lemma both0_simps [simp]:
  "committed (both0 ph) = born_db" "live (both0 ph) = [0 \<mapsto> locked0, 1 \<mapsto> await1 ph]"
  by (simp_all add: both0_def)

lemma both0_reach: "reach (\<lambda>s. s = idle) (conc_step uin0) (both0 (AwaitBalance born_db))"
proof -
  have locked: "nexts 3 born_db charge0 = Some locked0"
    unfolding locked0_def by (simp add: numeral_eq_Suc stmt_eval)
  have "conc_step uin0 (alone born_db locked0) (both0 ChargeReceived)"
    using c_begin[of "alone born_db locked0" 1 uin0 pg0 "Charge ''evt-1'' 400 ''INR'' ChargeReceived" time_zero] engine0(1)
    by (simp add: alone_def both0_def await1_def)
  moreover have "conc_step uin0 (both0 ph) (both0 ph')"
    if "stmt (held (both0 ph) 1) born_db (await1 ph) = Next (await1 ph')" for ph ph'
    using c_next[of "both0 ph" 1 "await1 ph" "await1 ph'" uin0] that by (simp add: both0_def)
  moreover have "stmt (held (both0 ChargeReceived) 1) born_db (await1 ChargeReceived) = Next (await1 ChargeBegun)"
    "stmt (held (both0 ChargeBegun) 1) born_db (await1 ChargeBegun) = Next (await1 (AwaitBalance born_db))"
    by (simp_all add: await1_def stmt_def charge_stmt_def new_txn_def BeginTx_def db_BeginTx_def exec_def pg0_def)
  ultimately show ?thesis
    using reach_step[OF reach_step[OF reach_step[OF nexts_reach[OF locked begun0]]]] by blast
qed

theorem no_deadlock_witness:
  "stmt (held (both0 (AwaitBalance born_db)) 1) born_db (await1 (AwaitBalance born_db)) = Wait
   \<and> (\<exists>m t'. live (both0 (AwaitBalance born_db)) m = Some t' \<and> stmt (held (both0 (AwaitBalance born_db)) m) born_db t' \<noteq> Wait)"
proof -
  have "UserRow ''evt-1'' \<in> tx_locks locked0" unfolding locked0_def by (simp add: numeral_eq_Suc stmt_eval)
  then have "held (both0 (AwaitBalance born_db)) 1 (UserRow ''evt-1'')"
    unfolding held_def held_by_others_def both0_def by (intro exI[of _ 0] exI[of _ locked0]) simp
  then have "stmt (held (both0 (AwaitBalance born_db)) 1) born_db (await1 (AwaitBalance born_db)) = Wait"
    by (simp add: await1_def stmt_def charge_stmt_def new_txn_def canon_def pg0_def)
  moreover have "live (both0 (AwaitBalance born_db)) 1 = Some (await1 (AwaitBalance born_db))" by simp
  from no_deadlock[OF engine0(2) both0_reach this] have "\<exists>m t'. live (both0 (AwaitBalance born_db)) m = Some t'
      \<and> stmt (held (both0 (AwaitBalance born_db)) m) born_db t' \<noteq> Wait" by (simp only: both0_simps)
  ultimately show ?thesis by blast
qed

text \<open>Two pollers: the first has sent its event and not committed, the second finds nothing to do.\<close>

definition poll0 :: "poll_phase \<Rightarrow> txn" where
  "poll0 ph = new_txn pg0 time_zero (Poll (\<lambda>_. False) (\<lambda>_. 7) ph)"

definition event0 :: fetchedEvent where
  "event0 = scan_event (hd (tbl_outbox bought_db))"

definition batch0 :: "poll_phase \<Rightarrow> txn" where
  "batch0 ph = (poll0 ph)\<lparr>tx_locks := {OutboxRow ''evt-1''}\<rparr>"

definition polls0 :: "poll_phase option \<Rightarrow> csys" where
  "polls0 second = \<lparr>committed = bought_db,
     live = (case second of None \<Rightarrow> [0 \<mapsto> batch0 (Enqueued None event0 [])]
             | Some ph \<Rightarrow> [0 \<mapsto> batch0 (Enqueued None event0 []), 1 \<mapsto> poll0 ph]),
     sent = [(''evt-1'', (TypeWebhookRetryEvent, fe_Payload event0))], cut = False\<rparr>"

lemma bought_outbox: "\<exists>r. tbl_outbox bought_db = [r] \<and> ob_id r = ''evt-1'' \<and> ob_status r = ''PENDING''"
  by (simp add: bought_db_def born_db_eq charge_eval empty_db_def)

lemma batch0_run: "nexts 2 bought_db (poll0 PollReceived) = Some (batch0 (Dispatching [event0]))" "fe_ID event0 = ''evt-1''"
  using bought_outbox
  by (auto simp: numeral_eq_Suc poll0_def batch0_def event0_def new_txn_def stmt_def poll_stmt_def db_BeginTx_def exec_def
      sql_select_pending_def fetched_def pg0_def)

lemma polls0_reach: "reach (\<lambda>s. s = idle) (conc_step uin0) (polls0 (Some PollBegun))"
proof -
  have "conc_step uin0 charged0 (alone bought_db (poll0 PollReceived))"
    using c_begin[of charged0 0 uin0 pg0 "Poll (\<lambda>_. False) (\<lambda>_. 7) PollReceived" time_zero] engine0(1)
    by (simp add: charged0_def idle_def alone_def poll0_def)
  from nexts_reach[OF batch0_run(1) reach_step[OF charged0_reach this]]
  have "reach (\<lambda>s. s = idle) (conc_step uin0) (alone bought_db (batch0 (Dispatching [event0])))" .
  moreover have "conc_step uin0 (alone bought_db (batch0 (Dispatching [event0]))) (polls0 None)"
    using c_send[of "alone bought_db (batch0 (Dispatching [event0]))" 0 "batch0 (Dispatching [event0])" event0
        "[(''evt-1'', (TypeWebhookRetryEvent, fe_Payload event0))]" None uin0] batch0_run(2)
    by (simp add: alone_def polls0_def batch0_def poll0_def new_txn_def stmt_def poll_stmt_def replied_def)
  moreover have "conc_step uin0 (polls0 None) (polls0 (Some PollReceived))"
    using c_begin[of "polls0 None" 1 uin0 pg0 "Poll (\<lambda>_. False) (\<lambda>_. 7) PollReceived" time_zero] engine0(1)
    by (simp add: polls0_def poll0_def)
  moreover have "conc_step uin0 (polls0 (Some PollReceived)) (polls0 (Some PollBegun))"
    using c_next[of "polls0 (Some PollReceived)" 1 "poll0 PollReceived" "poll0 PollBegun" uin0]
    by (simp add: polls0_def poll0_def new_txn_def stmt_def poll_stmt_def db_BeginTx_def exec_def pg0_def)
  ultimately show ?thesis by (blast intro: reach_step)
qed

theorem pollers_queue_once_witness:
  "stmt (held (polls0 (Some PollBegun)) 1) bought_db (poll0 PollBegun) = Quit
   \<and> distinct (map fst (sent (polls0 (Some PollBegun)))) \<and> length (sent (polls0 (Some PollBegun))) = 1"
proof -
  have "held (polls0 (Some PollBegun)) 1 (OutboxRow ''evt-1'')"
    unfolding held_def held_by_others_def polls0_def
    by (intro exI[of _ 0] exI[of _ "batch0 (Enqueued None event0 [])"]) (simp add: batch0_def)
  then have "stmt (held (polls0 (Some PollBegun)) 1) bought_db (poll0 PollBegun) = Quit"
    using bought_outbox by (auto simp: poll0_def new_txn_def stmt_def poll_stmt_def sql_select_pending_def exec_def fetched_def pg0_def)
  moreover have "\<not> cut (polls0 (Some PollBegun))" "length (sent (polls0 (Some PollBegun))) = 1" by (simp_all add: polls0_def)
  ultimately show ?thesis using pollers_queue_once[OF engine0(2) polls0_reach] by blast
qed

end
