(* ===== verification/Logger.thy ===== *)
theory Logger
  imports Server
begin

text \<open>
  The logger (\<^verbatim>\<open>internal/logger/logger.go\<close>) and what becomes of the access log
  (\<^verbatim>\<open>internal/middleware/logger.go\<close>). zap, lumberjack and the encoders are third-party: the encoder settings
  zap starts from and the encoding of an entry are arguments; of a logger with several cores it is used
  that an entry goes to every core whose level it reaches.
\<close>

section \<open>Set-up\<close>

datatype zap_level = DebugLevel | InfoLevel | WarnLevel | ErrorLevel | FatalLevel

fun level_number :: "zap_level \<Rightarrow> int" where
  "level_number DebugLevel = -1"
| "level_number InfoLevel = 0"
| "level_number WarnLevel = 1"
| "level_number ErrorLevel = 2"
| "level_number FatalLevel = 5"

record lumberjack =
  lj_Filename :: string
  lj_MaxSize :: int
  lj_MaxBackups :: int
  lj_MaxAge :: int
  lj_Compress :: bool

datatype time_encoder = ISO8601TimeEncoder | OtherTimeEncoder string

record encoder_config =
  ec_TimeKey :: string
  ec_EncodeTime :: time_encoder

datatype encoder = JSONEncoder encoder_config | ConsoleEncoder encoder_config
datatype sink = FileSink lumberjack | Stdout

record core =
  c_encoder :: encoder
  c_sink :: sink
  c_level :: zap_level

record zap_Logger =
  zl_cores :: "core list"
  zl_AddCaller :: bool

definition InitializeLogger :: "encoder_config \<Rightarrow> zap_Logger" where
  "InitializeLogger production =
     (let fileWriter = FileSink \<lparr>lj_Filename = ''logs/vaultpay.log'', lj_MaxSize = 10, lj_MaxBackups = 5, lj_MaxAge = 30, lj_Compress = True\<rparr>;
          encoderConfig = production\<lparr>ec_TimeKey := ''timestamp'', ec_EncodeTime := ISO8601TimeEncoder\<rparr>;
          fileCore = \<lparr>c_encoder = JSONEncoder encoderConfig, c_sink = fileWriter, c_level = DebugLevel\<rparr>;
          consoleCore = \<lparr>c_encoder = ConsoleEncoder encoderConfig, c_sink = Stdout, c_level = DebugLevel\<rparr>
      in \<lparr>zl_cores = [fileCore, consoleCore], zl_AddCaller = True\<rparr>)"

section \<open>Logging\<close>

definition enabled :: "zap_level \<Rightarrow> core \<Rightarrow> bool" where
  "enabled lvl c \<longleftrightarrow> level_number (c_level c) \<le> level_number lvl"

text \<open>The lines that logging an entry at a level adds to the sinks, and a sequence of entries.\<close>

definition log_at :: "(encoder \<Rightarrow> 'e \<Rightarrow> string) \<Rightarrow> zap_Logger \<Rightarrow> zap_level \<Rightarrow> 'e \<Rightarrow> (sink \<times> string) list" where
  "log_at encode lg lvl entry = map (\<lambda>c. (c_sink c, encode (c_encoder c) entry)) (filter (enabled lvl) (zl_cores lg))"

definition log_all :: "(encoder \<Rightarrow> 'e \<Rightarrow> string) \<Rightarrow> zap_Logger \<Rightarrow> zap_level \<Rightarrow> 'e list \<Rightarrow> (sink \<times> string) list" where
  "log_all encode lg lvl entries = concat (map (log_at encode lg lvl) entries)"

definition sink_lines :: "sink \<Rightarrow> (sink \<times> string) list \<Rightarrow> string list" where
  "sink_lines k out = map snd (filter (\<lambda>x. fst x = k) out)"

text \<open>
  Nothing is filtered: an entry of any level is in the rotated file, as JSON, and on the console,
  both in the order in which the entries were logged.
\<close>

lemma log_reaches_both:
  fixes production
  defines "cfg \<equiv> production\<lparr>ec_TimeKey := ''timestamp'', ec_EncodeTime := ISO8601TimeEncoder\<rparr>"
  shows "sink_lines Stdout (log_all encode (InitializeLogger production) lvl entries) = map (encode (ConsoleEncoder cfg)) entries"
    and "sink_lines (FileSink lj) (log_all encode (InitializeLogger production) lvl entries)
      = (if lj_Filename lj = ''logs/vaultpay.log'' \<and> lj_MaxSize lj = 10 \<and> lj_MaxBackups lj = 5 \<and> lj_MaxAge lj = 30 \<and> lj_Compress lj
         then map (encode (JSONEncoder cfg)) entries else [])"
proof -
  have on: "enabled lvl c" if "c_level c = DebugLevel" for c using that by (cases lvl) (simp_all add: enabled_def)
  show "sink_lines Stdout (log_all encode (InitializeLogger production) lvl entries) = map (encode (ConsoleEncoder cfg)) entries"
    by (induction entries) (simp_all add: sink_lines_def log_all_def log_at_def InitializeLogger_def on cfg_def Let_def)
  show "sink_lines (FileSink lj) (log_all encode (InitializeLogger production) lvl entries)
      = (if lj_Filename lj = ''logs/vaultpay.log'' \<and> lj_MaxSize lj = 10 \<and> lj_MaxBackups lj = 5 \<and> lj_MaxAge lj = 30 \<and> lj_Compress lj
         then map (encode (JSONEncoder cfg)) entries else [])"
    by (induction entries; cases lj) (auto simp: sink_lines_def log_all_def log_at_def InitializeLogger_def on cfg_def Let_def)
qed

text \<open>
  The access log of a served request: one line on the console and one in the file, with the status the
  wrapped writer reports, except for requests of \<^verbatim>\<open>/metrics\<close>.
\<close>

lemma request_logged:
  assumes "StructuredLogger ww_status reqID startTime endTime nxt r (entries, s) = ((entries', s'), calls)"
  shows "sink_lines Stdout (log_all encode (InitializeLogger production) InfoLevel entries')
    = sink_lines Stdout (log_all encode (InitializeLogger production) InfoLevel entries)
      @ (if req_Path r = ''/metrics'' then []
         else [encode (ConsoleEncoder (production\<lparr>ec_TimeKey := ''timestamp'', ec_EncodeTime := ISO8601TimeEncoder\<rparr>))
                 \<lparr>le_method = req_Method r, le_path = req_Path r, le_status = ww_status calls,
                  le_duration = time_Since endTime startTime, le_req_id = reqID\<rparr>])"
  using assms by (auto simp: StructuredLogger_def log_reaches_both split: prod.splits if_splits)

end
