(* ===== verification/Spec2Isabelle.thy ===== *)
theory Spec2Isabelle
  imports Breaker Config Ledger AbstractLedger Pagination AuditTrail Currency Subscription Dispute
    RedisLock RateLimit PaymentHandler Idempotency Jwt Handlers Server Wiring Boot Shutdown Schema PaymentEvents EnumTool
    Concurrency Logger
begin

text \<open>
  \<^bold>\<open>VaultPay\<close> is a payment API: wallets are charged and refunded over HTTP, every charge leaves an
  event in an outbox table from which webhooks are sent, and around this core are API keys and
  tokens, subscriptions, disputes, an audit trail, rate limits and an idempotency cache. It keeps
  its data in PostgreSQL (a master and a read replica), Redis, and two in-memory maps. This
  development models the Go sources under \<^verbatim>\<open>src/\<close> and proves what they guarantee; it reads like the
  sources, one definition per type, function, SQL statement and script, under the same names where
  the names are free.

  \<^bold>\<open>Conventions.\<close> A Go function that changes state takes it as an argument and returns it; an error
  result is \<open>Inl\<close> of a \<open>goerr\<close>, which keeps the wrapping that \<^verbatim>\<open>errors.Is\<close> follows. Go's \<^verbatim>\<open>int64\<close> is an
  \<open>int\<close> with the range written out where it can be left (\<open>is_int64\<close>, \<open>sat64\<close>), \<^verbatim>\<open>float64\<close> is the rational it
  denotes with the rounding \<open>fl\<close> after each operation, \<^verbatim>\<open>time.Time\<close> has a wall and a monotonic
  reading, a string is its bytes. Clock readings, random bytes, the bytes of request bodies with the way
  reading them ends, and the outcome of each network call are arguments. What is not under \<^verbatim>\<open>src/\<close> is an argument with its
  documented laws as named hypotheses: the PostgreSQL engine (record \<open>pg\<close>), the Redis server
  (locale \<open>redis_server\<close>), the Asynq client (\<open>task_queue\<close>), the token bucket of
  \<^verbatim>\<open>golang.org/x/time/rate\<close> (\<open>token_bucket\<close>), the JWT library (\<open>jwt_laws\<close>), bcrypt, chi's router and
  middlewares (\<open>hands_on\<close>). Each is instantiated by a concrete function for the witnesses.

  \<^bold>\<open>Shared theories.\<close>
  \<^item> \<open>Prelude\<close>: errors, integers, numbers as text, tables as lists with \<open>update_where\<close>, and the locales
    \<open>transition_system\<close> (an invariant of all reachable states) and \<open>refinement\<close> (an abstraction
    function that maps each step to an abstract step or none).
  \<^item> \<open>GoTime\<close>, \<open>GoFloat\<close>, \<open>Json\<close>: the parts of \<^verbatim>\<open>time\<close> (with the civil calendar of \<^verbatim>\<open>AddDate\<close>), of \<^verbatim>\<open>float64\<close>
    arithmetic and of the output side of \<^verbatim>\<open>encoding/json\<close> that the sources use.
  \<^item> \<open>JsonDecode\<close>, \<open>JsonRoundTrip\<close>, \<open>JsonTyped\<close>: the decoder, as the byte-driven pushdown automaton that it is
    in Go; that it reads back what the encoder writes, whatever bytes follow; and that what it hands to a
    handler always has the types of the struct.
  \<^item> \<open>Database\<close>: the tables of \<^verbatim>\<open>migrations/\<close>, transactions and their failures. A transaction is one step,
    which \<open>Concurrency\<close> justifies.
  \<^item> \<open>Redis\<close>: the commands used, their laws as a locale, and a key space that satisfies them; what any
    commands on other keys leave of a key, which the lock, the cache and the blacklist rest on.
  \<^item> \<open>Http\<close>: a handler returns the calls it makes on its response writer; \<open>render\<close> is what is sent. Also
    \<^verbatim>\<open>handler/errors.go\<close>, the CORS middlewares and \<^verbatim>\<open>middleware/metrics.go\<close>.

  \<^bold>\<open>The payment core.\<close>
  \<^item> \<open>PaymentRepo\<close> (\<^verbatim>\<open>repository/payment_repo.go\<close>): each SQL statement and each method. Lemmas give the exact
    effect of a charge inside its transaction and of a refund.
  \<^item> \<open>PaymentService\<close> (\<^verbatim>\<open>service/payment_service.go\<close>, \<^verbatim>\<open>repository/outbox_repository.go\<close>): the service over its
    repository interfaces; the contracts are the locales \<open>payment_repository\<close>, \<open>outbox_repository\<close> and
    \<open>tx_store\<close>, atomicity is proved from them, and the SQL repositories interpret them.
  \<^item> \<open>OutboxWorker\<close> (\<^verbatim>\<open>service/outbox_worker.go\<close>, \<^verbatim>\<open>service/webhook_worker.go\<close>, \<^verbatim>\<open>tasks/webhook_tasks.go\<close>): the
    poll, the loop of \<^verbatim>\<open>Start\<close>, and the delivery. Rows are marked only for queued tasks, healthy polls
    drain the outbox oldest first, a row whose task the queue refused is never tried again and only tasks
    of pending rows are queued.
  \<^item> \<open>Accounts\<close> (\<^verbatim>\<open>repository/user_repo.go\<close>, \<^verbatim>\<open>repository/key_repo.go\<close>, \<^verbatim>\<open>service/auth_service.go\<close>, seeding in
    \<^verbatim>\<open>main\<close>).
  \<^item> \<open>Ledger\<close>: the system of charges, refunds, polls, new users and new keys, each with any failure: exact
    effect of a charge, all or nothing, the invariant of every reachable database, conservation of
    money, at most one refund.
  \<^item> \<open>AbstractLedger\<close>: the book of wallets and payments that this system refines.
  \<^item> \<open>Statements\<close>: charge, refund and poll again, one SQL statement at a time, with row locks, snapshots and
    row versions as PostgreSQL documents them for the isolation levels the sources ask for; alone they
    are the functions above.
  \<^item> \<open>Locking\<close>, \<open>Fitting\<close>: transactions that exclude each other by locks, as a locale; what a transaction
    under way knows of the committed rows, and that its locks keep it true until the commit.
  \<^item> \<open>Concurrency\<close>: any number of these transactions interleaved. Every commit is one step of \<open>Ledger\<close> with
    the answer of the serial function, so its theorems hold of concurrent requests; the transactions
    cannot deadlock; pollers side by side queue an event once.
  \<^item> \<open>Pagination\<close>: following the cursors of \<^verbatim>\<open>GetPaginatedTransactions\<close> ends and enumerates every payment.
    The client loop has fuel; more than the number of payments is enough, and that is proved.
  \<^item> \<open>Breaker\<close> and \<open>Config\<close> (\<^verbatim>\<open>database/cluster.go\<close>, \<^verbatim>\<open>config/config.go\<close>): the circuit breaker with its critical
    sections, the retry loop, and the start of the cluster.
  \<^item> \<open>AuditTrail\<close> (\<^verbatim>\<open>repository/audit_repository.go\<close>): the event log, its replay and its window analysis.

  \<^bold>\<open>Around the core.\<close>
  \<^item> \<open>Currency\<close> (\<^verbatim>\<open>service/currency.go\<close>) and \<open>Subscription\<close> (\<^verbatim>\<open>service/subscription.go\<close>,
    \<^verbatim>\<open>repository/postgres_subscription.go\<close>): floating-point conversion and proration against exact
    arithmetic, billing periods, stored subscriptions. Each floating-point operation is rounded on its own, as the
    compiler does on amd64; Go allows it to fuse a product with the sum around it on other machines.
  \<^item> \<open>Dispute\<close> (\<^verbatim>\<open>service/dispute.go\<close>): one request at a time, and the interleaved map accesses, among them
    every schedule in which two requests pass the check together.
  \<^item> \<open>RedisLock\<close> (\<^verbatim>\<open>database/redis_lock.go\<close>), \<open>RateLimit\<close> (\<^verbatim>\<open>middleware/rate_limiter.go\<close>,
    \<^verbatim>\<open>handler/middleware.go\<close>), \<open>Idempotency\<close> (\<^verbatim>\<open>middleware/idempotency.go\<close>), \<open>Jwt\<close> (\<^verbatim>\<open>service/jwt_auth.go\<close>,
    \<^verbatim>\<open>handler/jwt_handler.go\<close>): mutual exclusion until expiry, what the limiters let through, replayed
    answers, revoked tokens.
  \<^item> \<open>PaymentHandler\<close> and \<open>Handlers\<close> (\<^verbatim>\<open>handler/\<close>, the history and health routes of \<^verbatim>\<open>main\<close>): every endpoint from
    the bytes of the body to the response.
  \<^item> \<open>Server\<close> (\<^verbatim>\<open>cmd/api/main.go\<close>, \<^verbatim>\<open>middleware/logger.go\<close>): the registered routes and the chain of middlewares
    over them. Any request, whatever fails, keeps the ledger invariant and is at most one event of the
    book, and none unless it is a POST to \<^verbatim>\<open>/v1/charges\<close> or \<^verbatim>\<open>/v1/refunds\<close>; every response is counted under
    the status it was sent with.
  \<^item> \<open>Wiring\<close> (the constructors of all packages and their calls in \<^verbatim>\<open>cmd/api/main.go\<close>, \<^verbatim>\<open>NewJWTAuthService\<close>): which
    pool and which Redis client or Asynq connection each part holds; and each method that talks to a database as
    an operation on the two nodes, through the pool that the method picks from the struct it belongs to.
  \<^item> \<open>Boot\<close> (\<^verbatim>\<open>cmd/api/main.go\<close>, \<^verbatim>\<open>database/migrations.go\<close>): the start, on an empty database or on the one an
    earlier run left, and the running system of requests, polls and cleaning; the ledger properties hold of
    the whole program, every call that writes acts on the master alone and every one that reads on the replica.
  \<^item> \<open>Shutdown\<close> (the end of \<^verbatim>\<open>main\<close>, \<^verbatim>\<open>Stop\<close> of the outbox worker): the sequence after a signal, interleaved
    with the open connections, the poller and the Asynq workers, which stop on the signal by themselves. Pools
    are closed only when requests have ended or the time allowed for them has; once the signal is there
    the sequence always ends; but \<^verbatim>\<open>Stop\<close> does not wait, so a batch can be sent and not marked, and is
    sent again after the restart.
  \<^item> \<open>Schema\<close> (\<^verbatim>\<open>migrations/\<close>): the schema the migrations really build, and the check of the columns that a
    statement names.
  \<^item> \<open>PaymentEvents\<close> (\<^verbatim>\<open>repository/postgres_payment_event.go\<close>): refused on that schema, right on the one it was
    written for.
  \<^item> \<open>EnumTool\<close> (\<^verbatim>\<open>get_merchant_id.go\<close>): the listing tool.
  \<^item> \<open>Logger\<close> (\<^verbatim>\<open>logger/logger.go\<close>): the cores of the logger; every entry is in the file and on the console, and
    so is one line per request.

  \<^bold>\<open>Not modelled.\<close> The texts of log messages other than the access log, and tracing spans, which do not
  influence the answers; the profiling listener in \<^verbatim>\<open>main\<close>; how chi matches a path with the registered
  patterns; the rotation of the log file, which is lumberjack's. Requests are served one after the
  other, except where interleaving is the point: the transactions, the breaker, the lock, the
  limiters, disputes and the idempotency cache.
\<close>

end
